(* ===== verification/Lds_Prelude.thy ===== *)
theory Lds_Prelude
  imports Main "HOL-Library.Word"
begin

text \<open>
  Shared vocabulary of the development: the machine types of the program, the outcome of
  a C++ call, and the two operations on \<^verbatim>\<open>std::vector<char>\<close> every component uses (copying
  a vector into a part of another one, reading a part of a vector), with their lemmas.
\<close>

section \<open>Lemma collections\<close>

named_theorems vec_simps \<open>lengths and elements of copied vectors\<close>
named_theorems outcome_simps \<open>evaluation of calls that return, throw or are undefined\<close>
named_theorems size_simps \<open>size_t arithmetic read as natural numbers\<close>

section \<open>Machine types\<close>

text \<open>
  \<open>size_t\<close> is the 64-bit unsigned type of the platform the program is built for, so its
  sums wrap around; a \<open>char\<close> of a buffer is a byte.
\<close>

type_synonym size_t = "64 word"
type_synonym u32 = "32 word"
type_synonym byte = "8 word"
type_synonym vec = "byte list"

section \<open>Outcomes of a call\<close>

text \<open>
  The exceptions the program throws, by their C++ class, with the text of
  \<open>what()\<close>. All of them derive from \<open>std::exception\<close>.
\<close>

datatype exn =
    Out_of_range string
  | Runtime_error string
  | Invalid_argument string
  | Length_error string
  | Driver_error string
  | Reactor_error string
  | Logger_error string
  | Inotify_exception string
  | Stop_exception

text \<open>
  A call returns, throws, waits for ever (a blocking \<open>read\<close> on a quiet socket), ends the
  process (a signal with its default action, \<^verbatim>\<open>std::terminate\<close>) or has no defined behaviour (a
  copy outside a vector, a division by zero). No handler of the program can catch the last
  three.
\<close>

datatype 'a outcome =
    Returns 'a
  | Throws exn
  | Blocks
  | Dies
  | Undef

primrec obind :: "'a outcome \<Rightarrow> ('a \<Rightarrow> 'b outcome) \<Rightarrow> 'b outcome" where
  "obind (Returns x) f = f x"
| "obind (Throws e) f = Throws e"
| "obind Blocks f = Blocks"
| "obind Dies f = Dies"
| "obind Undef f = Undef"

text \<open>\<open>try { c } catch (const std::exception& e) { h(e) }\<close>\<close>

primrec ocatch :: "'a outcome \<Rightarrow> (exn \<Rightarrow> 'a outcome) \<Rightarrow> 'a outcome" where
  "ocatch (Returns x) h = Returns x"
| "ocatch (Throws e) h = h e"
| "ocatch Blocks h = Blocks"
| "ocatch Dies h = Dies"
| "ocatch Undef h = Undef"

text \<open>
  Two statements in sequence on an object that is updated in place: when the first does not
  return, the second does not run and the object stays as the first left it.
\<close>

definition sthen ::
  "'s \<times> unit outcome \<Rightarrow> ('s \<Rightarrow> 's \<times> unit outcome) \<Rightarrow> 's \<times> unit outcome" where
  "sthen x f = (case snd x of Returns _ \<Rightarrow> f (fst x) | _ \<Rightarrow> x)"

lemma sthen_simps [simp]:
  "sthen (s, Returns u) f = f s"
  "sthen (s, Throws e) f = (s, Throws e)"
  "sthen (s, Undef) f = (s, Undef)"
  "sthen (s, Blocks) f = (s, Blocks)"
  "sthen (s, Dies) f = (s, Dies)"
  by (simp_all add: sthen_def)

lemma sthen_assoc: "sthen (sthen x f) g = sthen x (\<lambda>s. sthen (f s) g)"
  by (cases x; cases "snd x") auto

lemma sthen_case:
  "(case x of (s, Returns u) \<Rightarrow> f s | (s, Throws e) \<Rightarrow> (s, Throws e) | (s, Blocks) \<Rightarrow> (s, Blocks)
     | (s, Dies) \<Rightarrow> (s, Dies) | (s, Undef) \<Rightarrow> (s, Undef)) = sthen x f"
  by (cases x; cases "snd x") auto

lemma sthen_return [simp]: "sthen x (\<lambda>s. (s, Returns ())) = x"
  by (cases x; cases "snd x") auto

text \<open>The same for statements that yield a value, and a handler that swallows what is thrown.\<close>

definition sbind ::
  "'s \<times> 'a outcome \<Rightarrow> ('s \<Rightarrow> 'a \<Rightarrow> 's \<times> 'b outcome) \<Rightarrow> 's \<times> 'b outcome" where
  "sbind x f =
     (case x of
        (s, Returns v) \<Rightarrow> f s v
      | (s, Throws e) \<Rightarrow> (s, Throws e)
      | (s, Blocks) \<Rightarrow> (s, Blocks)
      | (s, Dies) \<Rightarrow> (s, Dies)
      | (s, Undef) \<Rightarrow> (s, Undef))"

lemma sbind_simps [simp]:
  "sbind (s, Returns v) f = f s v"
  "sbind (s, Throws e) f = (s, Throws e)"
  "sbind (s, Blocks) f = (s, Blocks)"
  "sbind (s, Dies) f = (s, Dies)"
  "sbind (s, Undef) f = (s, Undef)"
  by (simp_all add: sbind_def)

lemma sbind_Returns:
  assumes "sbind x f = (s', Returns y)"
  obtains s v where "x = (s, Returns v)" and "f s v = (s', Returns y)"
  using assms by (cases x; cases "snd x") auto

definition scatch :: "'s \<times> 'a outcome \<Rightarrow> ('s \<Rightarrow> exn \<Rightarrow> 's \<times> 'a outcome) \<Rightarrow> 's \<times> 'a outcome" where
  "scatch x h = (case x of (s, Throws e) \<Rightarrow> h s e | _ \<Rightarrow> x)"

lemma scatch_simps [simp]:
  "scatch (s, Returns v) h = (s, Returns v)"
  "scatch (s, Throws e) h = h s e"
  "scatch (s, Blocks) h = (s, Blocks)"
  "scatch (s, Dies) h = (s, Dies)"
  "scatch (s, Undef) h = (s, Undef)"
  by (simp_all add: scatch_def)

lemma obind_Returns_iff [outcome_simps]:
  "obind c f = Returns y \<longleftrightarrow> (\<exists>x. c = Returns x \<and> f x = Returns y)"
  by (cases c) auto

lemma obind_Throws_iff [outcome_simps]:
  "obind c f = Throws e \<longleftrightarrow> c = Throws e \<or> (\<exists>x. c = Returns x \<and> f x = Throws e)"
  by (cases c) auto

lemma obind_Undef_iff [outcome_simps]:
  "obind c f = Undef \<longleftrightarrow> c = Undef \<or> (\<exists>x. c = Returns x \<and> f x = Undef)"
  by (cases c) auto

lemma obind_assoc: "obind (obind c f) g = obind c (\<lambda>x. obind (f x) g)"
  by (cases c) auto

lemma obind_right_unit [simp]: "obind c Returns = c"
  by (cases c) auto

section \<open>Vectors\<close>

text \<open>
  \<open>copy_into dst pos src\<close> is \<^verbatim>\<open>std::copy(src.begin(), src.end(), dst.begin() + pos)\<close> where
  the source fits; \<open>subvec xs pos n\<close> is the range \<^verbatim>\<open>[begin + pos, begin + pos + n)\<close>.
\<close>

definition copy_into :: "'a list \<Rightarrow> nat \<Rightarrow> 'a list \<Rightarrow> 'a list" where
  "copy_into dst pos src = take pos dst @ src @ drop (pos + length src) dst"

definition subvec :: "'a list \<Rightarrow> nat \<Rightarrow> nat \<Rightarrow> 'a list" where
  "subvec xs pos n = take n (drop pos xs)"

lemma length_copy_into [simp, vec_simps]:
  "pos + length src \<le> length dst \<Longrightarrow> length (copy_into dst pos src) = length dst"
  by (simp add: copy_into_def)

lemma nth_copy_into [vec_simps]:
  assumes "pos + length src \<le> length dst"
  shows "copy_into dst pos src ! i =
    (if pos \<le> i \<and> i < pos + length src then src ! (i - pos) else dst ! i)"
proof -
  have len: "min (length dst) pos = pos"
    using assms by simp
  consider "i < pos" | "pos \<le> i" "i < pos + length src" | "pos + length src \<le> i"
    by linarith
  then show ?thesis
  proof cases
    case 1
    then show ?thesis by (simp add: copy_into_def nth_append len)
  next
    case 2
    then have "i - pos < length src" by arith
    with 2 show ?thesis by (simp add: copy_into_def nth_append len)
  next
    case 3
    then obtain j where "i = pos + length src + j"
      using le_Suc_ex by blast
    then show ?thesis
      using assms by (simp add: copy_into_def nth_append len)
  qed
qed

lemma length_subvec [simp, vec_simps]:
  "pos + n \<le> length xs \<Longrightarrow> length (subvec xs pos n) = n"
  by (simp add: subvec_def)

lemma nth_subvec [simp, vec_simps]:
  "pos + n \<le> length xs \<Longrightarrow> i < n \<Longrightarrow> subvec xs pos n ! i = xs ! (pos + i)"
  by (simp add: subvec_def)

lemma subvec_full [simp]: "subvec xs 0 (length xs) = xs"
  by (simp add: subvec_def)

lemma subvec_front: "length a = p \<Longrightarrow> length b = n \<Longrightarrow> subvec (a @ b @ c) p n = b"
  by (simp add: subvec_def)

lemma copy_into_Nil [simp]: "copy_into dst pos [] = dst"
  by (simp add: copy_into_def)

lemma vec_eqI:
  "length xs = length ys \<Longrightarrow> (\<And>i. i < length ys \<Longrightarrow> xs ! i = ys ! i) \<Longrightarrow> xs = ys"
  by (simp add: nth_equalityI)

text \<open>Reading back what was copied, and reading beside it.\<close>

lemma subvec_copy_into_same:
  assumes "pos + length src \<le> length dst"
  shows "subvec (copy_into dst pos src) pos (length src) = src"
  using assms by (intro vec_eqI) (simp_all add: nth_copy_into)

lemma subvec_copy_into_other:
  assumes "pos + length src \<le> length dst" and "p + n \<le> length dst"
    and "p + n \<le> pos \<or> pos + length src \<le> p"
  shows "subvec (copy_into dst pos src) p n = subvec dst p n"
  using assms by (intro vec_eqI) (auto simp add: nth_copy_into)

lemma copy_into_overwrite:
  assumes "pos + length a \<le> length dst" and "length b = length a"
  shows "copy_into (copy_into dst pos a) pos b = copy_into dst pos b"
  using assms by (intro vec_eqI) (auto simp add: nth_copy_into)

lemma copy_into_commute:
  assumes "p + length a \<le> length dst" and "q + length b \<le> length dst"
    and "p + length a \<le> q \<or> q + length b \<le> p"
  shows "copy_into (copy_into dst p a) q b = copy_into (copy_into dst q b) p a"
  using assms by (intro vec_eqI) (auto simp add: nth_copy_into)

lemma copy_into_append:
  assumes "pos + length a + length b \<le> length dst"
  shows "copy_into (copy_into dst pos a) (pos + length a) b = copy_into dst pos (a @ b)"
  using assms by (intro vec_eqI) (auto simp add: nth_copy_into nth_append)

text \<open>Vectors laid end to end: a range inside one of them is a range of the whole.\<close>

lemma copy_into_append_left:
  "l + length c \<le> length xs \<Longrightarrow> copy_into (xs @ ys) l c = copy_into xs l c @ ys"
  by (simp add: copy_into_def)

lemma copy_into_append_right:
  "copy_into (xs @ ys) (length xs + k) c = xs @ copy_into ys k c"
  by (simp add: copy_into_def)

lemma subvec_append_left: "l + n \<le> length xs \<Longrightarrow> subvec (xs @ ys) l n = subvec xs l n"
  by (simp add: subvec_def)

lemma subvec_append_right: "subvec (xs @ ys) (length xs + k) n = subvec ys k n"
  by (simp add: subvec_def)

lemma subvec_split: "subvec xs p (a + b) = subvec xs p a @ subvec xs (p + a) b"
  by (simp add: subvec_def take_add add.commute)

lemma length_concat_uniform: "\<forall>xs \<in> set xss. length xs = s \<Longrightarrow> length (concat xss) = length xss * s"
  by (induction xss) auto

lemma copy_into_concat:
  assumes "\<forall>xs \<in> set xss. length xs = s" and "p < length xss" and "l + length c \<le> s"
  shows "concat (xss[p := copy_into (xss ! p) l c]) = copy_into (concat xss) (p * s + l) c"
  using assms
proof (induction xss arbitrary: p)
  case Nil
  then show ?case by simp
next
  case (Cons xs xss)
  show ?case
  proof (cases p)
    case 0
    with Cons.prems show ?thesis by (simp add: copy_into_append_left)
  next
    case (Suc q)
    have "copy_into (xs @ concat xss) (length xs + (q * s + l)) c
        = xs @ copy_into (concat xss) (q * s + l) c"
      by (rule copy_into_append_right)
    with Suc Cons show ?thesis by (simp add: add.assoc)
  qed
qed

lemma subvec_concat:
  assumes "\<forall>xs \<in> set xss. length xs = s" and "p < length xss" and "l + n \<le> s"
  shows "subvec (concat xss) (p * s + l) n = subvec (xss ! p) l n"
  using assms
proof (induction xss arbitrary: p)
  case Nil
  then show ?case by simp
next
  case (Cons xs xss)
  show ?case
  proof (cases p)
    case 0
    with Cons.prems show ?thesis by (simp add: subvec_append_left)
  next
    case (Suc q)
    have "subvec (xs @ concat xss) (length xs + (q * s + l)) n = subvec (concat xss) (q * s + l) n"
      by (rule subvec_append_right)
    with Suc Cons show ?thesis by (simp add: add.assoc)
  qed
qed

lemma replicate_small:
  "replicate 2 x = [x, x]" "replicate 3 x = [x, x, x]" "replicate 4 x = [x, x, x, x]"
  by (simp_all add: numeral_eq_Suc)

section \<open>Decimal text\<close>

text \<open>\<^verbatim>\<open>std::to_string\<close> of an unsigned number.\<close>

fun to_string :: "nat \<Rightarrow> string" where
  "to_string n =
     (if n < 10 then [char_of (48 + n)] else to_string (n div 10) @ [char_of (48 + n mod 10)])"

declare to_string.simps [simp del]

lemma to_string_small: "n < 10 \<Longrightarrow> to_string n = [char_of (48 + n)]"
  by (simp add: to_string.simps)

lemma to_string_big:
  "10 \<le> n \<Longrightarrow> to_string n = to_string (n div 10) @ [char_of (48 + n mod 10)]"
  by (simp add: to_string.simps)

lemma to_string_not_Nil [simp]: "to_string n \<noteq> []"
  by (subst to_string.simps) simp

lemma char_of_digit_inj:
  "a < 10 \<Longrightarrow> b < 10 \<Longrightarrow> (char_of (48 + a) :: char) = char_of (48 + b) \<longleftrightarrow> a = (b :: nat)"
  by (simp add: char_of_eq_iff take_bit_eq_mod)

lemma to_string_inj: "to_string m = to_string n \<longleftrightarrow> m = n"
proof
  show "to_string m = to_string n \<Longrightarrow> m = n"
  proof (induction m arbitrary: n rule: to_string.induct)
    case (1 m)
    show ?case
    proof (cases "m < 10 \<or> n < 10")
      case True
      then show ?thesis
      proof (cases "m < 10 \<and> n < 10")
        case True
        with 1 show ?thesis by (simp add: to_string_small char_of_digit_inj)
      next
        case False
        with True \<open>m < 10 \<or> n < 10\<close> 1 show ?thesis
          by (auto simp add: to_string_small to_string_big not_less to_string_not_Nil [symmetric])
      qed
    next
      case False
      with 1 have "m div 10 = n div 10" "m mod 10 = n mod 10"
        by (simp_all add: to_string_big char_of_digit_inj)
      then show ?thesis by (metis div_mult_mod_eq)
    qed
  qed
qed simp

section \<open>size_t\<close>

text \<open>The size of a vector as \<open>size()\<close> reports it.\<close>

definition vsize :: "'a list \<Rightarrow> size_t" where
  "vsize xs = of_nat (length xs)"

lemma unat_vsize [size_simps]: "length xs < 2 ^ 64 \<Longrightarrow> unat (vsize xs) = length xs"
  by (simp add: vsize_def unat_of_nat)

lemma unat_plus_exact [size_simps]:
  fixes a b :: size_t
  assumes "unat a + unat b < 2 ^ 64"
  shows "unat (a + b) = unat a + unat b"
  using assms by (simp add: unat_word_ariths)

lemma unat_minus_exact [size_simps]:
  fixes a b :: size_t
  assumes "b \<le> a"
  shows "unat (a - b) = unat a - unat b"
  using assms by (rule unat_sub)

lemma unat_min [size_simps]:
  fixes a b :: size_t
  shows "unat (min a b) = min (unat a) (unat b)"
  by (simp add: min_def word_le_nat_alt)

lemma unat_size_div [size_simps]:
  fixes a b :: size_t
  shows "unat (a div b) = unat a div unat b"
  by (rule unat_div)

lemma unat_size_mod [size_simps]:
  fixes a b :: size_t
  shows "unat (a mod b) = unat a mod unat b"
  by (rule unat_mod)

lemma unat_lt_size [simp]: "unat (a :: size_t) < 2 ^ 64"
  using unsigned_less [of a] by simp

lemma unat_lt_size_numeral [simp]: "unat (a :: size_t) < 18446744073709551616"
  using unat_lt_size [of a] by simp

end
