(* ===== verification/Ordered_Map.thy ===== *)
theory Ordered_Map
  imports Lds_Prelude
begin

text \<open>
  \<^verbatim>\<open>std::map\<close> as the code uses it: a list of entries in ascending key order, one entry per
  key. \<open>map_put k v m\<close> is \<^verbatim>\<open>m[k] = v\<close>, \<open>map_of m k\<close> is \<^verbatim>\<open>m.find(k)\<close> and \<open>map_erase k m\<close> is
  \<^verbatim>\<open>m.erase(k)\<close>; iterating over the map visits the list in order. A \<^verbatim>\<open>std::set\<close> is such a map
  with the unit value. The laws are stated once in the locale \<open>ordered_map\<close>, and the lists
  are an interpretation of it.
\<close>

type_synonym ('k, 'v) omap = "('k \<times> 'v) list"

fun map_put :: "'k::linorder \<Rightarrow> 'v \<Rightarrow> ('k, 'v) omap \<Rightarrow> ('k, 'v) omap" where
  "map_put k v [] = [(k, v)]"
| "map_put k v (e # m) =
     (if fst e < k then e # map_put k v m
      else if fst e = k then (k, v) # m
      else (k, v) # e # m)"

fun map_erase :: "'k::linorder \<Rightarrow> ('k, 'v) omap \<Rightarrow> ('k, 'v) omap" where
  "map_erase k [] = []"
| "map_erase k (e # m) = (if fst e = k then m else e # map_erase k m)"

definition map_inv :: "('k::linorder, 'v) omap \<Rightarrow> bool" where
  "map_inv m \<longleftrightarrow> sorted_wrt (<) (map fst m)"

section \<open>The interface\<close>

locale ordered_map =
  fixes empty :: "'m"
    and put :: "'k::linorder \<Rightarrow> 'v \<Rightarrow> 'm \<Rightarrow> 'm"
    and erase :: "'k \<Rightarrow> 'm \<Rightarrow> 'm"
    and find :: "'m \<Rightarrow> 'k \<Rightarrow> 'v option"
    and items :: "'m \<Rightarrow> ('k \<times> 'v) list"
    and inv :: "'m \<Rightarrow> bool"
  assumes inv_empty: "inv empty"
    and inv_put: "inv m \<Longrightarrow> inv (put k v m)"
    and inv_erase: "inv m \<Longrightarrow> inv (erase k m)"
    and find_empty: "find empty k = None"
    and find_put: "inv m \<Longrightarrow> find (put k v m) = (find m)(k \<mapsto> v)"
    and find_erase: "inv m \<Longrightarrow> find (erase k m) = (find m)(k := None)"
    and items_sorted: "inv m \<Longrightarrow> sorted_wrt (<) (map fst (items m))"
    and map_of_items: "inv m \<Longrightarrow> map_of (items m) = find m"
begin

lemma items_distinct: "inv m \<Longrightarrow> distinct (map fst (items m))"
  using items_sorted [of m] by (simp add: strict_sorted_iff)

lemma in_items_iff: "inv m \<Longrightarrow> (k, v) \<in> set (items m) \<longleftrightarrow> find m k = Some v"
  using map_of_items [of m] items_distinct [of m] by (metis map_of_eq_Some_iff)

lemma keys_of_items: "inv m \<Longrightarrow> fst ` set (items m) = dom (find m)"
  using map_of_items [of m] by (metis dom_map_of_conv_image_fst)

lemma find_put_put:
  "inv m \<Longrightarrow> find (put k v (put k' v' m)) = (find m)(k' \<mapsto> v', k \<mapsto> v)"
  by (simp add: find_put inv_put)

lemma find_put_erase:
  "inv m \<Longrightarrow> find (put k v (erase k m)) = find (put k v m)"
  by (simp add: find_put find_erase inv_erase)

text \<open>A map is determined by its lookups: the iteration order carries no information.\<close>

lemma items_determined:
  assumes "inv m" and "inv m'" and "find m = find m'"
  shows "items m = items m'"
proof -
  have "set (items m) = set (items m')"
    using in_items_iff [OF assms(1)] in_items_iff [OF assms(2)] assms(3)
    by auto
  moreover have "sorted_wrt (<) (map fst (items m))" "sorted_wrt (<) (map fst (items m'))"
    using assms(1,2) items_sorted by blast+
  ultimately show ?thesis
    by (metis map_sorted_distinct_set_unique strict_sorted_iff distinct_map sup.idem)
qed

end

section \<open>Sorted entry lists satisfy it\<close>

lemma fst_map_put: "fst ` set (map_put k v m) = insert k (fst ` set m)"
  by (induction m) auto

lemma fst_map_erase: "fst ` set (map_erase k m) \<subseteq> fst ` set m"
  by (induction m) auto

lemma map_inv_Nil [simp]: "map_inv []"
  by (simp add: map_inv_def)

lemma map_inv_Cons: "map_inv (e # m) \<longleftrightarrow> (\<forall>x \<in> fst ` set m. fst e < x) \<and> map_inv m"
  by (simp add: map_inv_def)

lemma map_inv_put [simp, intro]: "map_inv m \<Longrightarrow> map_inv (map_put k v m)"
  by (induction m) (auto simp add: map_inv_Cons fst_map_put image_image [symmetric]
      dest!: fst_map_put [THEN equalityD1, THEN subsetD, OF imageI])

lemma map_inv_erase [simp, intro]: "map_inv m \<Longrightarrow> map_inv (map_erase k m)"
  using fst_map_erase by (induction m) (fastforce simp add: map_inv_Cons)+

lemma map_of_put [simp]: "map_of (map_put k v m) = (map_of m)(k \<mapsto> v)"
  by (induction m) auto

lemma map_of_none_below: "\<forall>x \<in> fst ` set m. (k :: 'k::linorder) < x \<Longrightarrow> map_of m k = None"
  by (induction m) auto

lemma map_of_erase [simp]:
  "map_inv m \<Longrightarrow> map_of (map_erase k m) = (map_of m)(k := None)"
  by (induction m) (auto simp add: map_inv_Cons map_of_none_below)

interpretation smap: ordered_map "[]" map_put map_erase map_of "\<lambda>m. m" map_inv
  by unfold_locales (auto simp add: map_inv_def [symmetric])

definition map_keys :: "('k, 'v) omap \<Rightarrow> 'k set" where
  "map_keys m = fst ` set m"

lemma map_keys_simps [simp]:
  "map_keys [] = {}"
  "map_keys (e # m) = insert (fst e) (map_keys m)"
  "map_keys (map_put k v m) = insert k (map_keys m)"
  by (simp_all add: map_keys_def fst_map_put)

lemma map_keys_erase [simp]: "map_inv m \<Longrightarrow> map_keys (map_erase k m) = map_keys m - {k}"
  using smap.keys_of_items [of m] smap.keys_of_items [of "map_erase k m"]
  by (auto simp add: map_keys_def)

section \<open>Building a map by insertion\<close>

lemma map_put_above: "\<forall>x \<in> fst ` set m. x < k \<Longrightarrow> map_put k v m = m @ [(k, v)]"
  by (induction m) auto

lemma fold_put_sorted_append:
  "map_inv (m @ es) \<Longrightarrow> fold (\<lambda>(k, v). map_put k v) es m = m @ es"
proof (induction es arbitrary: m)
  case Nil
  then show ?case by simp
next
  case (Cons e es)
  obtain k v where e: "e = (k, v)" by (cases e)
  from Cons.prems have "\<forall>x \<in> fst ` set m. x < k"
    by (auto simp add: map_inv_def sorted_wrt_append e)
  then have "map_put k v m = m @ [e]"
    by (simp add: map_put_above e)
  with Cons show ?case
    by (simp add: e)
qed

lemma fold_put_sorted: "map_inv es \<Longrightarrow> fold (\<lambda>(k, v). map_put k v) es [] = es"
  using fold_put_sorted_append [of "[]" es] by simp

lemma map_inv_fold_put: "map_inv m \<Longrightarrow> map_inv (fold (\<lambda>(k, v). map_put k v) es m)"
  by (induction es arbitrary: m) auto

lemma map_inv_take [simp, intro]: "map_inv m \<Longrightarrow> map_inv (take n m)"
  by (simp add: map_inv_def take_map [symmetric] sorted_wrt_take)

section \<open>Recorded sizes\<close>

text \<open>
  The lookup every storage class runs on its \<open>m_offset_sizes\<close>: the recorded size, or zero
  for an offset that was never written.
\<close>

definition size_at :: "(size_t, size_t) omap \<Rightarrow> size_t \<Rightarrow> size_t" where
  "size_at m off = (case map_of m off of Some n \<Rightarrow> n | None \<Rightarrow> 0)"

lemma size_at_put [simp]: "size_at (map_put k v m) off = (if off = k then v else size_at m off)"
  by (simp add: size_at_def)

lemma size_at_Nil [simp]: "size_at [] off = 0"
  by (simp add: size_at_def)

end
