(* ===== verification/Storage_Minion.thy ===== *)
theory Storage_Minion
  imports Ordered_Map
begin

text \<open>
  The minions of \<^verbatim>\<open>services/local_storage\<close>: \<^verbatim>\<open>StorageMinionMemory\<close> (a vector), \<^verbatim>\<open>StorageMinionFile\<close>
  (a file reached with \<open>pread\<close>/\<open>pwrite\<close>), and the dispatch through the abstract class
  \<^verbatim>\<open>IStorageMinion\<close> as a datatype with one constructor per subclass. The locale
  \<open>storage_minion\<close> states what the RAID layer relies on; both classes and the dispatch
  interpret it. Each operation holds the minion's own lock for its whole effect, so one
  operation is one step.

  The kernel's answers to \<open>pread\<close> and \<open>pwrite\<close> are data of the model: for each position and
  length the file may serve the call in full, in part, or fail.
\<close>

section \<open>StorageMinionMemory\<close>

record minion_memory =
  mm_data :: vec
  mm_size :: size_t
  mm_offset_sizes :: "(size_t, size_t) omap"

definition StorageMinionMemory :: "size_t \<Rightarrow> minion_memory" where
  "StorageMinionMemory size_bytes =
     \<lparr>mm_data = replicate (unat size_bytes) 0, mm_size = size_bytes, mm_offset_sizes = []\<rparr>"

text \<open>
  The bounds check adds two \<open>size_t\<close> values. Where the sum wraps around and passes, the copy
  leaves the vector, which is undefined.
\<close>

definition memory_Read :: "minion_memory \<Rightarrow> size_t \<Rightarrow> vec \<Rightarrow> vec outcome" where
  "memory_Read m offset buf =
     (if offset + vsize buf > mm_size m
      then Throws (Out_of_range ''Read exceeds minion bounds'')
      else if unat offset + length buf > length (mm_data m) then Undef
      else Returns (subvec (mm_data m) (unat offset) (length buf)))"

definition memory_Write ::
  "minion_memory \<Rightarrow> size_t \<Rightarrow> vec \<Rightarrow> minion_memory \<times> unit outcome" where
  "memory_Write m offset buf =
     (if offset + vsize buf > mm_size m
      then (m, Throws (Out_of_range ''Write exceeds minion bounds''))
      else if unat offset + length buf > length (mm_data m) then (m, Undef)
      else (m\<lparr>mm_data := copy_into (mm_data m) (unat offset) buf,
              mm_offset_sizes := map_put offset (vsize buf) (mm_offset_sizes m)\<rparr>,
            Returns ()))"

definition memory_GetDataSize :: "minion_memory \<Rightarrow> size_t \<Rightarrow> size_t" where
  "memory_GetDataSize m offset = size_at (mm_offset_sizes m) offset"

section \<open>StorageMinionFile\<close>

datatype io_answer = Io_full | Io_short nat | Io_error

record disk_file =
  df_bytes :: vec
  df_on_read :: "size_t \<Rightarrow> nat \<Rightarrow> io_answer"
  df_on_write :: "size_t \<Rightarrow> nat \<Rightarrow> io_answer"

text \<open>
  \<open>pread(fd, buf, n, off)\<close>: at most \<open>n\<close> bytes from position \<open>off\<close>, fewer at the end of the
  file; \<open>None\<close> is the answer \<open>-1\<close>. An offset of \<open>2 ^ 63\<close> or more is a negative \<open>off_t\<close>,
  which the call rejects. \<open>pwrite\<close> extends the file where needed.
\<close>

definition sys_pread :: "disk_file \<Rightarrow> nat \<Rightarrow> size_t \<Rightarrow> vec option" where
  "sys_pread d n off =
     (if 2 ^ 63 \<le> unat off then None
      else case df_on_read d off n of
             Io_full \<Rightarrow> Some (take n (drop (unat off) (df_bytes d)))
           | Io_short k \<Rightarrow> Some (take (min k n) (drop (unat off) (df_bytes d)))
           | Io_error \<Rightarrow> None)"

definition file_splice :: "vec \<Rightarrow> nat \<Rightarrow> vec \<Rightarrow> vec" where
  "file_splice bs pos src = copy_into (bs @ replicate (pos + length src - length bs) 0) pos src"

definition sys_pwrite :: "disk_file \<Rightarrow> vec \<Rightarrow> size_t \<Rightarrow> disk_file \<times> nat option" where
  "sys_pwrite d src off =
     (if 2 ^ 63 \<le> unat off then (d, None)
      else case df_on_write d off (length src) of
             Io_full \<Rightarrow> (d\<lparr>df_bytes := file_splice (df_bytes d) (unat off) src\<rparr>, Some (length src))
           | Io_short k \<Rightarrow>
               let part = take k src
               in (d\<lparr>df_bytes := file_splice (df_bytes d) (unat off) part\<rparr>, Some (length part))
           | Io_error \<Rightarrow> (d, None))"

record minion_file =
  mf_fd :: int
  mf_file_path :: string
  mf_size :: size_t
  mf_offset_sizes :: "(size_t, size_t) omap"
  mf_disk :: disk_file

text \<open>
  The constructor: \<open>open\<close>, \<open>fstat\<close> and, for an empty file, \<open>ftruncate\<close>, each of which may fail.
  A file that already has bytes keeps them and its length.
\<close>

record open_answers =
  oa_fd :: int
  oa_fstat_ok :: bool
  oa_ftruncate_ok :: bool
  oa_disk :: disk_file

definition StorageMinionFile :: "open_answers \<Rightarrow> string \<Rightarrow> size_t \<Rightarrow> minion_file outcome" where
  "StorageMinionFile env file_path size_bytes =
     (if oa_fd env < 0
      then Throws (Runtime_error (''Failed to open/create file: '' @ file_path))
      else if \<not> oa_fstat_ok env
      then Throws (Runtime_error (''Failed to stat file: '' @ file_path))
      else if df_bytes (oa_disk env) = []
      then (if \<not> oa_ftruncate_ok env \<or> 2 ^ 63 \<le> unat size_bytes
            then Throws (Runtime_error (''Failed to allocate file: '' @ file_path))
            else Returns \<lparr>mf_fd = oa_fd env, mf_file_path = file_path, mf_size = size_bytes,
                   mf_offset_sizes = [],
                   mf_disk = (oa_disk env)\<lparr>df_bytes := replicate (unat size_bytes) 0\<rparr>\<rparr>)
      else Returns \<lparr>mf_fd = oa_fd env, mf_file_path = file_path, mf_size = size_bytes,
             mf_offset_sizes = [], mf_disk = oa_disk env\<rparr>)"

definition file_Read :: "minion_file \<Rightarrow> size_t \<Rightarrow> vec \<Rightarrow> vec outcome" where
  "file_Read m offset buf =
     (if offset + vsize buf > mf_size m
      then Throws (Out_of_range ''Read exceeds minion bounds'')
      else case sys_pread (mf_disk m) (length buf) offset of
             None \<Rightarrow> Throws (Runtime_error ''pread failed'')
           | Some got \<Rightarrow>
               if length got \<noteq> length buf
               then Throws (Runtime_error ''pread returned fewer bytes than requested'')
               else Returns got)"

definition file_Write :: "minion_file \<Rightarrow> size_t \<Rightarrow> vec \<Rightarrow> minion_file \<times> unit outcome" where
  "file_Write m offset buf =
     (if offset + vsize buf > mf_size m
      then (m, Throws (Out_of_range ''Write exceeds minion bounds''))
      else case sys_pwrite (mf_disk m) buf offset of
             (d, None) \<Rightarrow> (m\<lparr>mf_disk := d\<rparr>, Throws (Runtime_error ''pwrite failed''))
           | (d, Some n) \<Rightarrow>
               if n \<noteq> length buf
               then (m\<lparr>mf_disk := d\<rparr>,
                     Throws (Runtime_error ''pwrite wrote fewer bytes than requested''))
               else (m\<lparr>mf_disk := d,
                       mf_offset_sizes := map_put offset (vsize buf) (mf_offset_sizes m)\<rparr>,
                     Returns ()))"

definition file_GetDataSize :: "minion_file \<Rightarrow> size_t \<Rightarrow> size_t" where
  "file_GetDataSize m offset = size_at (mf_offset_sizes m) offset"

section \<open>IStorageMinion: dynamic dispatch\<close>

datatype minion = Memory_minion minion_memory | File_minion minion_file

fun minion_Read :: "minion \<Rightarrow> size_t \<Rightarrow> vec \<Rightarrow> vec outcome" where
  "minion_Read (Memory_minion m) offset buf = memory_Read m offset buf"
| "minion_Read (File_minion m) offset buf = file_Read m offset buf"

fun minion_Write :: "minion \<Rightarrow> size_t \<Rightarrow> vec \<Rightarrow> minion \<times> unit outcome" where
  "minion_Write (Memory_minion m) offset buf = map_prod Memory_minion id (memory_Write m offset buf)"
| "minion_Write (File_minion m) offset buf = map_prod File_minion id (file_Write m offset buf)"

fun minion_GetDataSize :: "minion \<Rightarrow> size_t \<Rightarrow> size_t" where
  "minion_GetDataSize (Memory_minion m) offset = memory_GetDataSize m offset"
| "minion_GetDataSize (File_minion m) offset = file_GetDataSize m offset"

fun minion_Size :: "minion \<Rightarrow> size_t" where
  "minion_Size (Memory_minion m) = mm_size m"
| "minion_Size (File_minion m) = mf_size m"

section \<open>Health\<close>

text \<open>
  The bytes a minion serves, and when it serves them: a vector of the announced size, or a
  file at least that long whose disk answers every call in full.
\<close>

definition memory_ok :: "minion_memory \<Rightarrow> bool" where
  "memory_ok m \<longleftrightarrow> length (mm_data m) = unat (mm_size m) \<and> map_inv (mm_offset_sizes m)"

definition disk_answers :: "disk_file \<Rightarrow> bool" where
  "disk_answers d \<longleftrightarrow> (\<forall>off n. df_on_read d off n = Io_full \<and> df_on_write d off n = Io_full)"

definition file_ok :: "minion_file \<Rightarrow> bool" where
  "file_ok m \<longleftrightarrow> unat (mf_size m) < 2 ^ 63 \<and> unat (mf_size m) \<le> length (df_bytes (mf_disk m)) \<and>
     disk_answers (mf_disk m) \<and> map_inv (mf_offset_sizes m)"

definition file_content :: "minion_file \<Rightarrow> vec" where
  "file_content m = take (unat (mf_size m)) (df_bytes (mf_disk m))"

fun minion_ok :: "minion \<Rightarrow> bool" where
  "minion_ok (Memory_minion m) = memory_ok m"
| "minion_ok (File_minion m) = file_ok m"

fun minion_content :: "minion \<Rightarrow> vec" where
  "minion_content (Memory_minion m) = mm_data m"
| "minion_content (File_minion m) = file_content m"

text \<open>
  A sound minion has its bytes, but its disk may fail or serve a part of a call.
\<close>

fun minion_sound :: "minion \<Rightarrow> bool" where
  "minion_sound (Memory_minion m) = memory_ok m"
| "minion_sound (File_minion m) =
     (unat (mf_size m) < 2 ^ 63 \<and> unat (mf_size m) \<le> length (df_bytes (mf_disk m)))"

section \<open>The contract of a minion\<close>

locale storage_minion =
  fixes rd :: "'m \<Rightarrow> size_t \<Rightarrow> vec \<Rightarrow> vec outcome"
    and wr :: "'m \<Rightarrow> size_t \<Rightarrow> vec \<Rightarrow> 'm \<times> unit outcome"
    and data_size :: "'m \<Rightarrow> size_t \<Rightarrow> size_t"
    and total :: "'m \<Rightarrow> size_t"
    and content :: "'m \<Rightarrow> vec"
    and ok :: "'m \<Rightarrow> bool"
  assumes content_length: "ok m \<Longrightarrow> length (content m) = unat (total m)"
    and read_inside: "ok m \<Longrightarrow> unat off + length buf \<le> unat (total m) \<Longrightarrow>
      rd m off buf = Returns (subvec (content m) (unat off) (length buf))"
    and read_outside: "ok m \<Longrightarrow> unat off + length buf < 2 ^ 64 \<Longrightarrow>
      unat (total m) < unat off + length buf \<Longrightarrow>
      rd m off buf = Throws (Out_of_range ''Read exceeds minion bounds'')"
    and write_inside: "ok m \<Longrightarrow> unat off + length buf \<le> unat (total m) \<Longrightarrow>
      \<exists>m'. wr m off buf = (m', Returns ()) \<and> ok m' \<and> total m' = total m \<and>
           content m' = copy_into (content m) (unat off) buf \<and>
           data_size m' = (data_size m)(off := vsize buf)"
    and write_outside: "ok m \<Longrightarrow> unat off + length buf < 2 ^ 64 \<Longrightarrow>
      unat (total m) < unat off + length buf \<Longrightarrow>
      wr m off buf = (m, Throws (Out_of_range ''Write exceeds minion bounds''))"
begin

lemma write_returns:
  assumes "ok m" and "unat off + length buf < 2 ^ 64" and "wr m off buf = (m', Returns ())"
  shows "unat off + length buf \<le> unat (total m)" and "ok m'" and "total m' = total m"
    and "content m' = copy_into (content m) (unat off) buf"
    and "data_size m' = (data_size m)(off := vsize buf)"
proof -
  show *: "unat off + length buf \<le> unat (total m)"
    using write_outside [OF assms(1,2)] assms(3) by (metis Pair_inject leI outcome.distinct(1))
  show "ok m'" "total m' = total m" "content m' = copy_into (content m) (unat off) buf"
    "data_size m' = (data_size m)(off := vsize buf)"
    using write_inside [OF assms(1) *] assms(3) by auto
qed

text \<open>What was written is what a later read of the same range returns.\<close>

lemma read_back:
  assumes "ok m" and "unat off + length buf < 2 ^ 64" and "wr m off buf = (m', Returns ())"
    and "length out = length buf"
  shows "rd m' off out = Returns buf"
proof -
  note w = write_returns [OF assms(1-3)]
  from w(2,3) w(1) assms(4) have "rd m' off out = Returns (subvec (content m') (unat off) (length buf))"
    by (simp add: read_inside)
  moreover have "unat off + length buf \<le> length (content m)"
    using w(1) content_length [OF assms(1)] by simp
  ultimately show ?thesis
    by (simp add: w(4) subvec_copy_into_same)
qed

text \<open>A range that does not meet the written one reads as before.\<close>

lemma read_elsewhere:
  assumes "ok m" and "unat off + length buf < 2 ^ 64" and "wr m off buf = (m', Returns ())"
    and "unat p + length out \<le> unat (total m)"
    and "unat p + length out \<le> unat off \<or> unat off + length buf \<le> unat p"
  shows "rd m' p out = rd m p out"
proof -
  note w = write_returns [OF assms(1-3)]
  have "unat off + length buf \<le> length (content m)"
    and "unat p + length out \<le> length (content m)"
    using w(1) assms(4) content_length [OF assms(1)] by simp_all
  then have "subvec (content m') (unat p) (length out) = subvec (content m) (unat p) (length out)"
    using assms(5) by (simp add: w(4) subvec_copy_into_other)
  then show ?thesis
    using w(2,3) assms(1,4) by (simp add: read_inside)
qed

end

section \<open>Both classes keep it\<close>

lemma bound_check_exact:
  assumes "unat off + length buf < 2 ^ 64"
  shows "off + vsize buf > n \<longleftrightarrow> unat n < unat off + length buf"
  using assms by (simp add: word_less_nat_alt size_simps)

lemma bound_check_passes:
  assumes "unat off + length buf \<le> unat (n :: size_t)"
  shows "\<not> off + vsize buf > n"
proof -
  have "unat off + length buf < 2 ^ 64"
    using assms unat_lt_size [of n] by linarith
  with assms show ?thesis by (simp add: bound_check_exact del: not_less)
qed

lemma memory_minion_contract:
  "storage_minion memory_Read memory_Write memory_GetDataSize mm_size mm_data memory_ok"
proof (unfold_locales, goal_cases)
  case (1 m)
  then show ?case by (simp add: memory_ok_def)
next
  case (2 m off buf)
  then show ?case by (simp add: memory_Read_def memory_ok_def bound_check_passes)
next
  case (3 m off buf)
  then show ?case by (simp add: memory_Read_def bound_check_exact)
next
  case (4 m off buf)
  then show ?case
    by (auto simp add: memory_Write_def memory_ok_def bound_check_passes memory_GetDataSize_def
        fun_eq_iff)
next
  case (5 m off buf)
  then show ?case by (simp add: memory_Write_def bound_check_exact)
qed

interpretation mem: storage_minion memory_Read memory_Write memory_GetDataSize mm_size mm_data memory_ok
  by (rule memory_minion_contract)

lemma sys_pread_full:
  assumes "disk_answers d" and "unat off < 2 ^ 63"
  shows "sys_pread d n off = Some (take n (drop (unat off) (df_bytes d)))"
  using assms by (simp add: sys_pread_def disk_answers_def)

lemma sys_pwrite_full:
  assumes "disk_answers d" and "unat off < 2 ^ 63"
  shows "sys_pwrite d src off =
    (d\<lparr>df_bytes := file_splice (df_bytes d) (unat off) src\<rparr>, Some (length src))"
  using assms by (simp add: sys_pwrite_def disk_answers_def)

lemma file_splice_inside: "pos + length src \<le> length bs \<Longrightarrow> file_splice bs pos src = copy_into bs pos src"
  by (simp add: file_splice_def)

lemma take_copy_into:
  "pos + length src \<le> n \<Longrightarrow> n \<le> length bs \<Longrightarrow> take n (copy_into bs pos src) = copy_into (take n bs) pos src"
  by (intro vec_eqI) (simp_all add: nth_copy_into)

lemma file_minion_contract:
  "storage_minion file_Read file_Write file_GetDataSize mf_size file_content file_ok"
proof (unfold_locales, goal_cases)
  case (1 m)
  then show ?case by (simp add: file_ok_def file_content_def)
next
  case (2 m off buf)
  then show ?case
    by (auto simp add: file_Read_def file_ok_def bound_check_passes sys_pread_full file_content_def
        subvec_def drop_take min_def)
next
  case (3 m off buf)
  then show ?case by (simp add: file_Read_def bound_check_exact)
next
  case (4 m off buf)
  then have "unat off < 2 ^ 63" "disk_answers (mf_disk m)"
    "unat off + length buf \<le> length (df_bytes (mf_disk m))"
    by (simp_all add: file_ok_def)
  with 4 show ?case
    by (auto simp add: file_Write_def file_ok_def bound_check_passes sys_pwrite_full
        file_GetDataSize_def file_content_def file_splice_inside take_copy_into disk_answers_def
        fun_eq_iff)
next
  case (5 m off buf)
  then show ?case by (simp add: file_Write_def bound_check_exact)
qed

interpretation fil: storage_minion file_Read file_Write file_GetDataSize mf_size file_content file_ok
  by (rule file_minion_contract)

lemma dispatch_contract:
  "storage_minion minion_Read minion_Write minion_GetDataSize minion_Size minion_content minion_ok"
proof (unfold_locales, goal_cases)
  case (1 m)
  then show ?case by (cases m) (simp_all add: mem.content_length fil.content_length)
next
  case (2 m off buf)
  then show ?case by (cases m) (simp_all add: mem.read_inside fil.read_inside)
next
  case (3 m off buf)
  then show ?case by (cases m) (simp_all add: mem.read_outside fil.read_outside)
next
  case (4 m off buf)
  show ?case
  proof (cases m)
    case (Memory_minion x)
    with 4 mem.write_inside [of x off buf] show ?thesis by (auto simp add: fun_eq_iff)
  next
    case (File_minion x)
    with 4 fil.write_inside [of x off buf] show ?thesis by (auto simp add: fun_eq_iff)
  qed
next
  case (5 m off buf)
  then show ?case by (cases m) (simp_all add: mem.write_outside fil.write_outside)
qed

interpretation min: storage_minion
  minion_Read minion_Write minion_GetDataSize minion_Size minion_content minion_ok
  by (rule dispatch_contract)

section \<open>Construction\<close>

lemma StorageMinionMemory_ok [simp]: "memory_ok (StorageMinionMemory n)"
  by (simp add: StorageMinionMemory_def memory_ok_def)

lemma StorageMinionMemory_size [simp]: "mm_size (StorageMinionMemory n) = n"
  by (simp add: StorageMinionMemory_def)

lemma StorageMinionMemory_data [simp]: "mm_data (StorageMinionMemory n) = replicate (unat n) 0"
  by (simp add: StorageMinionMemory_def)

section \<open>Failing disks\<close>

lemma ok_is_sound: "minion_ok m \<Longrightarrow> minion_sound m"
  by (cases m) (simp_all add: file_ok_def)

lemma sound_content_length: "minion_sound m \<Longrightarrow> length (minion_content m) = unat (minion_Size m)"
  by (cases m) (simp_all add: memory_ok_def file_content_def)

lemma sys_pread_bytes:
  assumes "sys_pread d n off = Some got" and "length got = n"
  shows "got = take n (drop (unat off) (df_bytes d))"
proof -
  consider "got = take n (drop (unat off) (df_bytes d))"
    | k where "got = take (min k n) (drop (unat off) (df_bytes d))"
    using assms(1) by (auto simp add: sys_pread_def split: if_splits io_answer.splits)
  then show ?thesis
  proof cases
    case (2 k)
    with assms(2) have "min (min k n) (length (df_bytes d) - unat off) = n" by auto
    then have "min k n = n" by linarith
    with 2 show ?thesis by simp
  qed simp
qed

lemma sound_read:
  assumes "minion_sound m" and "unat off + length buf \<le> unat (minion_Size m)"
  shows "minion_Read m off buf = Returns (subvec (minion_content m) (unat off) (length buf)) \<or>
    (\<exists>e. minion_Read m off buf = Throws e)"
proof (cases m)
  case (Memory_minion x)
  with assms mem.read_inside show ?thesis by simp
next
  case (File_minion x)
  have "got = subvec (file_content x) (unat off) (length buf)"
    if "sys_pread (mf_disk x) (length buf) off = Some got" "length got = length buf" for got
    using sys_pread_bytes [OF that] assms(2) File_minion
    by (simp add: file_content_def subvec_def drop_take min_def)
  then show ?thesis
    using assms(2) File_minion
    by (auto simp add: file_Read_def bound_check_passes split: option.splits)
qed

section \<open>Properties\<close>

text \<open>A file minion never passes off a failed or short \<open>pread\<close> as data: whatever the disk
  answers, a read that returns has returned exactly the bytes stored at that position, as many
  as were asked for.\<close>

theorem file_read_faithful:
  assumes "file_Read m off buf = Returns xs"
  shows "length xs = length buf \<and> xs = subvec (df_bytes (mf_disk m)) (unat off) (length buf)"
  using assms sys_pread_bytes
  by (auto simp add: file_Read_def subvec_def split: if_splits option.splits)

theorem file_read_faithful_witness:
  "length [7, 8 :: byte] = length [0, 0 :: byte] \<and>
   [7, 8] = subvec [6, 7, 8, 9 :: byte] 1 2"
  using file_read_faithful [of "\<lparr>mf_fd = 3, mf_file_path = ''m'', mf_size = 4, mf_offset_sizes = [],
      mf_disk = \<lparr>df_bytes = [6, 7, 8, 9], df_on_read = \<lambda>_ _. Io_short 2,
        df_on_write = \<lambda>_ _. Io_error\<rparr>\<rparr>" 1 "[0, 0]" "[7, 8]"]
  by (simp add: file_Read_def sys_pread_def vsize_def subvec_def eval_nat_numeral)

text \<open>C40: The bounds check of a memory minion wraps around: for a range that reaches past
  \<open>2 ^ 64\<close> and whose wrapped end lies in the minion, the check passes and both \<open>Read\<close> and
  \<open>Write\<close> copy outside the vector.\<close>

theorem memory_bounds_check_wraps:
  assumes "memory_ok m" and "length buf < 2 ^ 64" and "2 ^ 64 \<le> unat off + length buf"
    and "unat off + length buf \<le> 2 ^ 64 + unat (mm_size m)"
  shows "memory_Read m off buf = Undef \<and> snd (memory_Write m off buf) = Undef"
proof -
  have len: "unat (vsize buf) = length buf" using assms(2) by (rule unat_vsize)
  have "unat (off + vsize buf) = (unat off + length buf) mod 2 ^ 64"
    by (simp add: unat_word_ariths len)
  also have "\<dots> = unat off + length buf - 2 ^ 64"
  proof -
    have "unat off + length buf - 2 ^ 64 < 2 ^ 64"
      using assms(2) unat_lt_size [of off] by linarith
    then show ?thesis using assms(3) by (simp add: le_mod_geq)
  qed
  finally have "\<not> off + vsize buf > mm_size m"
    using assms(4) by (simp add: word_less_nat_alt)
  moreover have "length (mm_data m) < unat off + length buf"
    using assms(1,3) unat_lt_size [of "mm_size m"] unfolding memory_ok_def by linarith
  ultimately show ?thesis
    by (simp add: memory_Read_def memory_Write_def)
qed

theorem memory_bounds_check_wraps_witness:
  "memory_Read (StorageMinionMemory 16) 18446744073709551615 [0] = Undef \<and>
   snd (memory_Write (StorageMinionMemory 16) 18446744073709551615 [0]) = Undef"
  by (rule memory_bounds_check_wraps) simp_all

end
