(* ===== verification/Byte_Order.thy ===== *)
theory Byte_Order
  imports Lds_Prelude
begin

text \<open>
  The byte layouts of machine integers: little endian is the host's own layout (raw
  \<^verbatim>\<open>reinterpret_cast\<close> and \<^verbatim>\<open>memcpy\<close> of a \<open>size_t\<close>), big endian is what
  \<^verbatim>\<open>htonl\<close>/\<^verbatim>\<open>htobe64\<close> followed by a raw copy leaves in memory, and \<^verbatim>\<open>ntohl\<close>/\<^verbatim>\<open>be64toh\<close> read back.
  The round trips are proved once for every width.
\<close>

fun le_bytes :: "nat \<Rightarrow> 'a::len word \<Rightarrow> vec" where
  "le_bytes 0 w = []"
| "le_bytes (Suc n) w = ucast w # le_bytes n (drop_bit 8 w)"

fun le_nat :: "vec \<Rightarrow> nat" where
  "le_nat [] = 0"
| "le_nat (b # bs) = unat b + 256 * le_nat bs"

definition le_word :: "vec \<Rightarrow> 'a::len word" where
  "le_word bs = of_nat (le_nat bs)"

definition be_bytes :: "nat \<Rightarrow> 'a::len word \<Rightarrow> vec" where
  "be_bytes n w = rev (le_bytes n w)"

definition be_word :: "vec \<Rightarrow> 'a::len word" where
  "be_word bs = le_word (rev bs)"

named_theorems byte_simps \<open>lengths and round trips of encoded integers\<close>

lemma length_le_bytes [simp, byte_simps]: "length (le_bytes n w) = n"
  by (induction n arbitrary: w) auto

lemma length_be_bytes [simp, byte_simps]: "length (be_bytes n w) = n"
  by (simp add: be_bytes_def)

lemma unat_low_byte: "unat (ucast (w :: 'a::len word) :: byte) = unat w mod 256"
  by (simp add: unsigned_ucast_eq take_bit_eq_mod)

lemma unat_drop_byte: "unat (drop_bit 8 (w :: 'a::len word)) = unat w div 256"
proof -
  have "take_bit LENGTH('a) (unat w) = unat w"
    by (rule take_bit_nat_eq_self) (rule unsigned_less)
  then have "unat (drop_bit 8 w) = drop_bit 8 (unat w)"
    by (simp add: unsigned_drop_bit_eq)
  then show ?thesis by (simp only: drop_bit_eq_div) simp
qed

lemma le_nat_le_bytes: "le_nat (le_bytes n w) = unat w mod 256 ^ n"
  by (induction n arbitrary: w)
     (simp_all add: unat_low_byte unat_drop_byte mod_mult2_eq)

lemma le_nat_less: "le_nat bs < 256 ^ length bs"
proof (induction bs)
  case Nil
  then show ?case by simp
next
  case (Cons b bs)
  have "unat b < 256" using unsigned_less [of b] by simp
  with Cons show ?case by simp
qed

lemma le_word_le_bytes:
  assumes "256 ^ n = (2 :: nat) ^ LENGTH('a)"
  shows "le_word (le_bytes n (w :: 'a::len word)) = w"
proof -
  have "unat w < 256 ^ n" using assms unsigned_less [of w] by simp
  then show ?thesis by (simp add: le_word_def le_nat_le_bytes)
qed

lemma digit_unique:
  assumes "(a :: nat) < 256" and "b < 256" and "a + 256 * x = b + 256 * y"
  shows "a = b" and "x = y"
proof -
  have "(a + 256 * x) mod 256 = a" "(b + 256 * y) mod 256 = b"
    using assms(1,2) by simp_all
  with assms(3) show "a = b" by simp
  with assms(3) show "x = y" by simp
qed

lemma le_nat_inj: "length as = length bs \<Longrightarrow> le_nat as = le_nat bs \<Longrightarrow> as = bs"
proof (induction as bs rule: list_induct2)
  case Nil
  then show ?case by simp
next
  case (Cons a as b bs)
  have "unat a < 256" "unat b < 256" using unsigned_less [of a] unsigned_less [of b] by simp_all
  moreover from Cons.prems have "unat a + 256 * le_nat as = unat b + 256 * le_nat bs"
    by simp
  ultimately have "unat a = unat b" "le_nat as = le_nat bs"
    using digit_unique by blast+
  with Cons.IH show ?case by (simp add: word_unat_eq_iff)
qed

lemma le_bytes_le_word:
  assumes "256 ^ length bs = (2 :: nat) ^ LENGTH('a)"
  shows "le_bytes (length bs) (le_word bs :: 'a::len word) = bs"
proof (rule le_nat_inj)
  have "le_nat bs < 2 ^ LENGTH('a)" using assms le_nat_less [of bs] by simp
  then show "le_nat (le_bytes (length bs) (le_word bs :: 'a word)) = le_nat bs"
    by (simp add: le_nat_le_bytes le_word_def unat_of_nat take_bit_eq_mod assms)
qed simp

section \<open>The widths the program uses\<close>

lemma le64_roundtrip [simp, byte_simps]: "le_word (le_bytes 8 (w :: size_t)) = w"
  by (rule le_word_le_bytes) simp

lemma be64_roundtrip [simp, byte_simps]: "be_word (be_bytes 8 (w :: size_t)) = w"
  by (simp add: be_word_def be_bytes_def)

lemma be32_roundtrip [simp, byte_simps]: "be_word (be_bytes 4 (w :: u32)) = w"
  by (simp add: be_word_def be_bytes_def le_word_le_bytes)

lemma le64_bytes_of [byte_simps]: "length bs = 8 \<Longrightarrow> le_bytes 8 (le_word bs :: size_t) = bs"
  using le_bytes_le_word [of bs, where 'a = 64] by simp

lemma be64_bytes_of [byte_simps]: "length bs = 8 \<Longrightarrow> be_bytes 8 (be_word bs :: size_t) = bs"
  using le64_bytes_of [of "rev bs"] by (simp add: be_word_def be_bytes_def)

lemma be32_bytes_of [byte_simps]: "length bs = 4 \<Longrightarrow> be_bytes 4 (be_word bs :: u32) = bs"
  using le_bytes_le_word [of "rev bs", where 'a = 32]
  by (simp add: be_word_def be_bytes_def)

end
