(* ===== verification/Metadata_Store.thy ===== *)
theory Metadata_Store
  imports Ordered_Map Byte_Order
begin

text \<open>
  The metadata stores of \<^verbatim>\<open>services/local_storage\<close>: the offset-to-size map of the RAID layer kept
  in memory (\<^verbatim>\<open>MemoryMetadataStore\<close>) or as pairs of raw \<open>size_t\<close> values in
  \<^verbatim>\<open>raid_metadata.dat\<close> (\<^verbatim>\<open>FileMetadataStore\<close>), behind the abstract class \<^verbatim>\<open>IMetadataStore\<close>.
  \<open>Save\<close> truncates the file and writes it anew without checking a write, so the model keeps
  how many bytes reach the file; \<open>Load\<close> on such a prefix is characterised exactly.
\<close>

section \<open>MemoryMetadataStore\<close>

type_synonym memory_meta = "(size_t, size_t) omap"

definition MemoryMeta_Load :: "memory_meta \<Rightarrow> (size_t, size_t) omap" where
  "MemoryMeta_Load s = s"

definition MemoryMeta_Save :: "memory_meta \<Rightarrow> (size_t, size_t) omap \<Rightarrow> memory_meta" where
  "MemoryMeta_Save s metadata = metadata"

definition MemoryMeta_Clear :: "memory_meta \<Rightarrow> memory_meta" where
  "MemoryMeta_Clear s = []"

section \<open>FileMetadataStore\<close>

text \<open>
  The file behind the store (\<open>None\<close>: it does not exist), whether an \<open>ifstream\<close> and an
  \<open>ofstream\<close> on it open, and how many of the bytes written to it reach it (\<open>None\<close>: all).
\<close>

record file_meta =
  fm_file_path :: string
  fm_file :: "vec option"
  fm_in_opens :: bool
  fm_out_opens :: bool
  fm_reaches :: "nat option"

text \<open>
  The constructor; \<open>dirs_ok\<close> is the answer of \<^verbatim>\<open>create_directories\<close>, which throws otherwise.
\<close>

definition FileMetadataStore :: "bool \<Rightarrow> file_meta \<Rightarrow> string \<Rightarrow> file_meta outcome" where
  "FileMetadataStore dirs_ok env metadata_path =
     (if dirs_ok then Returns (env\<lparr>fm_file_path := metadata_path @ ''/raid_metadata.dat''\<rparr>)
      else Throws (Runtime_error ''filesystem error''))"

function load_entries :: "vec \<Rightarrow> (size_t, size_t) omap \<Rightarrow> (size_t, size_t) omap" where
  "load_entries file metadata =
     (if length file < 8 then metadata
      else
        let offset = le_word (take 8 file);
            rest = drop 8 file
        in if length rest < 8 then []
           else load_entries (drop 8 rest) (map_put offset (le_word (take 8 rest)) metadata))"
  by pat_completeness auto
termination
  by (relation "measure (\<lambda>(file, metadata). length file)") auto

definition FileMeta_Load :: "file_meta \<Rightarrow> (size_t, size_t) omap" where
  "FileMeta_Load s =
     (case fm_file s of
        None \<Rightarrow> []
      | Some file \<Rightarrow> if \<not> fm_in_opens s then [] else load_entries file [])"

definition meta_entry :: "size_t \<times> size_t \<Rightarrow> vec" where
  "meta_entry e = le_bytes 8 (fst e) @ le_bytes 8 (snd e)"

definition meta_bytes :: "(size_t, size_t) omap \<Rightarrow> vec" where
  "meta_bytes metadata = concat (map meta_entry metadata)"

definition FileMeta_Save :: "file_meta \<Rightarrow> (size_t, size_t) omap \<Rightarrow> file_meta" where
  "FileMeta_Save s metadata =
     (if \<not> fm_out_opens s then s
      else s\<lparr>fm_file := Some (case fm_reaches s of
                               None \<Rightarrow> meta_bytes metadata
                             | Some k \<Rightarrow> take k (meta_bytes metadata))\<rparr>)"

definition FileMeta_Clear :: "file_meta \<Rightarrow> file_meta" where
  "FileMeta_Clear s = (case fm_file s of None \<Rightarrow> s | Some _ \<Rightarrow> s\<lparr>fm_file := None\<rparr>)"

declare load_entries.simps [simp del]

section \<open>IMetadataStore: dynamic dispatch\<close>

datatype metadata_store = Memory_store memory_meta | File_store file_meta

fun Store_Load :: "metadata_store \<Rightarrow> (size_t, size_t) omap" where
  "Store_Load (Memory_store s) = MemoryMeta_Load s"
| "Store_Load (File_store s) = FileMeta_Load s"

fun Store_Save :: "metadata_store \<Rightarrow> (size_t, size_t) omap \<Rightarrow> metadata_store" where
  "Store_Save (Memory_store s) metadata = Memory_store (MemoryMeta_Save s metadata)"
| "Store_Save (File_store s) metadata = File_store (FileMeta_Save s metadata)"

fun Store_Clear :: "metadata_store \<Rightarrow> metadata_store" where
  "Store_Clear (Memory_store s) = Memory_store (MemoryMeta_Clear s)"
| "Store_Clear (File_store s) = File_store (FileMeta_Clear s)"

text \<open>A store whose file opens and takes every byte.\<close>

definition file_meta_reliable :: "file_meta \<Rightarrow> bool" where
  "file_meta_reliable s \<longleftrightarrow> fm_in_opens s \<and> fm_out_opens s \<and> fm_reaches s = None"

fun store_reliable :: "metadata_store \<Rightarrow> bool" where
  "store_reliable (Memory_store s) = True"
| "store_reliable (File_store s) = file_meta_reliable s"

section \<open>The contract of a metadata store\<close>

locale metadata_contract =
  fixes load :: "'s \<Rightarrow> (size_t, size_t) omap"
    and save :: "'s \<Rightarrow> (size_t, size_t) omap \<Rightarrow> 's"
    and clear :: "'s \<Rightarrow> 's"
    and reliable :: "'s \<Rightarrow> bool"
  assumes load_save: "reliable s \<Longrightarrow> map_inv m \<Longrightarrow> load (save s m) = m"
    and load_clear: "reliable s \<Longrightarrow> load (clear s) = []"
    and reliable_save: "reliable s \<Longrightarrow> reliable (save s m)"
    and reliable_clear: "reliable s \<Longrightarrow> reliable (clear s)"
begin

lemma last_save_wins:
  assumes "reliable s" and "map_inv m"
  shows "load (save (fold (\<lambda>x t. save t x) ms s) m) = m"
proof -
  have "reliable (fold (\<lambda>x t. save t x) ms s)"
    using assms(1) by (induction ms arbitrary: s) (simp_all add: reliable_save)
  then show ?thesis using assms(2) by (rule load_save)
qed

lemma save_after_clear: "reliable s \<Longrightarrow> map_inv m \<Longrightarrow> load (save (clear s) m) = m"
  by (simp add: load_save reliable_clear)

end

section \<open>Encoding and decoding\<close>

lemma length_meta_entry [simp]: "length (meta_entry e) = 16"
  by (simp add: meta_entry_def)

lemma length_meta_bytes: "length (meta_bytes m) = 16 * length m"
  by (induction m) (simp_all add: meta_bytes_def)

lemma load_entries_step:
  "load_entries (meta_entry e @ bs) acc = load_entries bs (map_put (fst e) (snd e) acc)"
  by (subst load_entries.simps) (simp add: meta_entry_def Let_def)

lemma load_entries_Nil: "length bs < 8 \<Longrightarrow> load_entries bs acc = acc"
  by (simp add: load_entries.simps)

lemma load_entries_half:
  "8 \<le> length bs \<Longrightarrow> length bs < 16 \<Longrightarrow> load_entries bs acc = []"
  by (subst load_entries.simps) (auto simp add: Let_def)

lemma load_entries_bytes:
  "load_entries (meta_bytes m @ bs) acc = load_entries bs (fold (\<lambda>(k, v). map_put k v) m acc)"
proof (induction m arbitrary: acc)
  case Nil
  then show ?case by (simp add: meta_bytes_def)
next
  case (Cons e m)
  have "meta_bytes (e # m) @ bs = meta_entry e @ (meta_bytes m @ bs)"
    by (simp add: meta_bytes_def)
  then show ?case
    by (simp add: load_entries_step Cons.IH case_prod_unfold)
qed

lemma load_meta_bytes: "map_inv m \<Longrightarrow> load_entries (meta_bytes m) [] = m"
  using load_entries_bytes [of m "[]" "[]"] by (simp add: load_entries_Nil fold_put_sorted)

text \<open>
  A prefix of the encoding consists of whole entries and a rest of fewer than 16 bytes.
\<close>

lemma meta_bytes_append: "meta_bytes (a @ b) = meta_bytes a @ meta_bytes b"
  by (simp add: meta_bytes_def)

lemma take_meta_bytes:
  assumes "k \<le> 16 * length m"
  obtains rest where "take k (meta_bytes m) = meta_bytes (take (k div 16) m) @ rest"
    and "length rest = k mod 16"
proof
  let ?q = "k div 16"
  let ?rest = "take (k mod 16) (meta_bytes (drop ?q m))"
  have q: "?q \<le> length m" using assms by simp
  have "meta_bytes m = meta_bytes (take ?q m) @ meta_bytes (drop ?q m)"
    by (simp add: meta_bytes_append [symmetric])
  moreover have "length (meta_bytes (take ?q m)) = 16 * ?q"
    using q by (simp add: length_meta_bytes)
  moreover have "k - 16 * ?q = k mod 16"
    by (simp add: minus_mult_div_eq_mod)
  ultimately show "take k (meta_bytes m) = meta_bytes (take ?q m) @ ?rest"
    by simp
  have "16 * ?q + k mod 16 \<le> 16 * length m"
    using assms by simp
  then have "k mod 16 \<le> 16 * (length m - ?q)"
    by (simp only: diff_mult_distrib2)
  then have "k mod 16 \<le> length (meta_bytes (drop ?q m))"
    by (simp add: length_meta_bytes)
  then show "length ?rest = k mod 16" by simp
qed

lemma load_prefix:
  assumes "map_inv m" and "k \<le> 16 * length m"
  shows "load_entries (take k (meta_bytes m)) [] =
    (if k mod 16 < 8 then take (k div 16) m else [])"
proof -
  obtain rest where r: "take k (meta_bytes m) = meta_bytes (take (k div 16) m) @ rest"
    "length rest = k mod 16"
    using take_meta_bytes [OF assms(2)] .
  have "fold (\<lambda>(k, v). map_put k v) (take (k div 16) m) [] = take (k div 16) m"
    using assms(1) by (intro fold_put_sorted) simp
  with r show ?thesis
    by (simp add: load_entries_bytes load_entries_Nil load_entries_half)
qed

section \<open>The stores keep the contract\<close>

lemma memory_meta_contract:
  "metadata_contract MemoryMeta_Load MemoryMeta_Save MemoryMeta_Clear (\<lambda>_. True)"
  by unfold_locales (simp_all add: MemoryMeta_Load_def MemoryMeta_Save_def MemoryMeta_Clear_def)

lemma file_meta_contract:
  "metadata_contract FileMeta_Load FileMeta_Save FileMeta_Clear file_meta_reliable"
  by unfold_locales
     (auto simp add: FileMeta_Load_def FileMeta_Save_def FileMeta_Clear_def file_meta_reliable_def
       load_meta_bytes split: option.splits)

interpretation memmeta: metadata_contract MemoryMeta_Load MemoryMeta_Save MemoryMeta_Clear "\<lambda>_. True"
  by (rule memory_meta_contract)

interpretation filemeta: metadata_contract FileMeta_Load FileMeta_Save FileMeta_Clear file_meta_reliable
  by (rule file_meta_contract)

lemma store_contract: "metadata_contract Store_Load Store_Save Store_Clear store_reliable"
proof (unfold_locales, goal_cases)
  case (1 s m)
  then show ?case by (cases s) (simp_all add: memmeta.load_save filemeta.load_save)
next
  case (2 s)
  then show ?case by (cases s) (simp_all add: memmeta.load_clear filemeta.load_clear)
next
  case (3 s m)
  then show ?case by (cases s) (simp_all add: filemeta.reliable_save)
next
  case (4 s)
  then show ?case by (cases s) (simp_all add: filemeta.reliable_clear)
qed

interpretation store: metadata_contract Store_Load Store_Save Store_Clear store_reliable
  by (rule store_contract)

section \<open>Properties\<close>

text \<open>C31: Metadata survives a restart: what \<open>Save\<close> wrote to \<^verbatim>\<open>raid_metadata.dat\<close>, however many
  saves came before, is what \<open>Load\<close> reads back, entry for entry and in key order, on a file
  that opens and takes every byte.\<close>

theorem metadata_save_load:
  assumes "file_meta_reliable s" and "map_inv m"
  shows "FileMeta_Load (FileMeta_Save (fold (\<lambda>x t. FileMeta_Save t x) earlier s) m) = m"
  using assms by (rule filemeta.last_save_wins)

theorem metadata_save_load_witness:
  "FileMeta_Load (FileMeta_Save (fold (\<lambda>x t. FileMeta_Save t x) [[(9, 9)]]
      \<lparr>fm_file_path = ''d'', fm_file = None, fm_in_opens = True, fm_out_opens = True,
       fm_reaches = None\<rparr>) [(0, 5), (4096, 17)]) = [(0, 5), (4096, 17)]"
  by (rule metadata_save_load) (simp_all add: file_meta_reliable_def map_inv_def)

text \<open>A save that is cut short (a crash, a full disk: only the first \<open>k\<close> bytes reach the
  file) leaves a file whose \<open>Load\<close> is either a prefix of the saved map or nothing at all: the
  whole entries before the cut when the cut falls inside an offset, the empty map when it
  falls inside a size. An entry that was never saved is never made up.\<close>

theorem metadata_torn_save:
  assumes "map_inv m" and "k \<le> 16 * length m"
    and "fm_in_opens s" and "fm_out_opens s" and "fm_reaches s = Some k"
  shows "FileMeta_Load (FileMeta_Save s m) = (if k mod 16 < 8 then take (k div 16) m else [])"
  using assms by (simp add: FileMeta_Load_def FileMeta_Save_def load_prefix)

theorem metadata_torn_save_witness:
  "FileMeta_Load (FileMeta_Save
      \<lparr>fm_file_path = ''d'', fm_file = None, fm_in_opens = True, fm_out_opens = True,
       fm_reaches = Some 20\<rparr> [(0, 5), (4096, 17)]) = [(0, 5)]"
  using metadata_torn_save [of "[(0, 5), (4096, 17)]" 20
      "\<lparr>fm_file_path = ''d'', fm_file = None, fm_in_opens = True, fm_out_opens = True,
        fm_reaches = Some 20\<rparr>"]
  by (simp add: map_inv_def)

end
