(* ===== verification/Driver_Data.thy ===== *)
theory Driver_Data
  imports Byte_Order
begin

text \<open>
  \<^verbatim>\<open>services/communication_protocols/nbd/include/DriverData.hpp\<close> and \<^verbatim>\<open>src/DriverData.cpp\<close>: the
  request that travels from a driver through the mediator and the storage back to the driver.
  A \<open>shared_ptr<DriverData>\<close> is passed by value here and returned updated; between the driver
  that makes it and the reply it has one user at a time.
\<close>

text \<open>
  \<open>Other_action\<close> stands for a value outside the enumerators: \<^verbatim>\<open>TCPDriverComm::ReceiveRequest\<close>
  casts the 32-bit field of the wire without a check, and the enumeration keeps that value.
\<close>

datatype ActionType =
    READ
  | WRITE
  | DISCONNECT
  | FLUSH
  | TRIM
  | GET_SIZE
  | LIST_OFFSETS
  | Other_action u32

datatype StatusType = SUCCESS | FAILURE

record DriverData =
  m_type :: ActionType
  m_handle :: size_t
  m_offset :: size_t
  m_len :: size_t
  m_status :: StatusType
  m_buffer :: vec
  m_source_fd :: int

definition new_DriverData :: "ActionType \<Rightarrow> size_t \<Rightarrow> size_t \<Rightarrow> size_t \<Rightarrow> StatusType \<Rightarrow> DriverData" where
  "new_DriverData type handle offset nBytes status =
     \<lparr>m_type = type, m_handle = handle, m_offset = offset, m_len = nBytes,
      m_status = status, m_buffer = replicate (unat nBytes) 0, m_source_fd = -1\<rparr>"

text \<open>The numeric value of an enumerator, and \<^verbatim>\<open>static_cast<ActionType>(type)\<close>.\<close>

fun action_code :: "ActionType \<Rightarrow> u32" where
  "action_code READ = 0"
| "action_code WRITE = 1"
| "action_code DISCONNECT = 2"
| "action_code FLUSH = 3"
| "action_code TRIM = 4"
| "action_code GET_SIZE = 5"
| "action_code LIST_OFFSETS = 6"
| "action_code (Other_action w) = w"

definition action_of :: "u32 \<Rightarrow> ActionType" where
  "action_of w =
     (if w = 0 then READ else if w = 1 then WRITE else if w = 2 then DISCONNECT
      else if w = 3 then FLUSH else if w = 4 then TRIM else if w = 5 then GET_SIZE
      else if w = 6 then LIST_OFFSETS else Other_action w)"

text \<open>The types the mediator has a handler for.\<close>

fun known_action :: "ActionType \<Rightarrow> bool" where
  "known_action (Other_action w) = False"
| "known_action _ = True"

lemma action_code_of [simp]: "action_code (action_of w) = w"
  by (simp add: action_of_def)

lemma action_of_code [simp]: "known_action a \<Longrightarrow> action_of (action_code a) = a"
  by (cases a) (simp_all add: action_of_def)

lemma known_action_of: "known_action (action_of w) \<longleftrightarrow> w < 7"
proof
  assume "w < 7"
  then have "unat w < 7" by (simp add: word_less_nat_alt)
  then have "unat w \<in> {0, 1, 2, 3, 4, 5, 6}" by auto
  then show "known_action (action_of w)" by (auto simp add: action_of_def word_unat_eq_iff)
qed (auto simp add: action_of_def split: if_splits)

lemma length_new_buffer [simp]: "length (m_buffer (new_DriverData t h off n st)) = unat n"
  by (simp add: new_DriverData_def)

lemma new_DriverData_simps [simp]:
  "m_type (new_DriverData t h off n st) = t"
  "m_handle (new_DriverData t h off n st) = h"
  "m_offset (new_DriverData t h off n st) = off"
  "m_len (new_DriverData t h off n st) = n"
  "m_status (new_DriverData t h off n st) = st"
  "m_source_fd (new_DriverData t h off n st) = -1"
  by (simp_all add: new_DriverData_def)

text \<open>A length of 32 bits survives the way over the wire.\<close>

lemma len_roundtrip:
  assumes "unat (n :: size_t) < 2 ^ 32"
  shows "ucast (ucast n :: u32) = n" and "unat (ucast n :: u32) = unat n"
proof -
  show "unat (ucast n :: u32) = unat n"
    using assms by (simp add: unsigned_ucast_eq take_bit_eq_mod)
  then show "ucast (ucast n :: u32) = n"
    using unsigned_less [of "ucast n :: u32"]
    by (simp add: word_unat_eq_iff unsigned_ucast_eq [of "ucast n :: u32"] take_bit_nat_eq_self)
qed

end
