(* ===== verification/Raid_Storage.thy ===== *)
theory Raid_Storage
  imports Storage_Minion Metadata_Store Driver_Data
begin

text \<open>
  \<^verbatim>\<open>RAIDStorage\<close> (\<^verbatim>\<open>services/local_storage/src/RAIDManager.cpp\<close>): the byte space is cut into stripes
  of one minion each, stripe \<open>i\<close> lives on primary \<open>i mod n\<close> and on mirror \<open>n + i mod n\<close>. A read
  asks the primary and falls back to the mirror when the primary throws; a write goes to both
  and then records the size in the metadata.

  The abstract specification is a flat vector, \<open>raid_flat\<close>: the contents of the primaries laid
  end to end. A successful write is \<open>copy_into\<close> on it, a read is \<open>subvec\<close> of it.
\<close>

section \<open>State and construction\<close>

record raid =
  is_size :: size_t
  rs_minions :: "minion list"
  rs_metadata_store :: metadata_store
  rs_stripe_size :: size_t
  rs_num_primary :: size_t
  rs_minion_size :: size_t
  rs_offset_sizes :: "(size_t, size_t) omap"

definition RAIDStorage :: "minion list \<Rightarrow> metadata_store \<Rightarrow> raid outcome" where
  "RAIDStorage minions store =
     (let num_minions = vsize minions;
          num_primary = num_minions div 2
      in if num_minions = 0
         then Throws (Runtime_error ''RAIDStorage requires at least 2 minions'')
         else if num_minions mod 2 \<noteq> 0
         then Throws (Runtime_error ''RAIDStorage requires an even number of minions'')
         else if num_primary = 0
         then Throws (Runtime_error ''RAIDStorage requires at least one primary minion'')
         else Returns \<lparr>is_size = minion_Size (hd minions) * num_minions,
                rs_minions = minions, rs_metadata_store = store,
                rs_stripe_size = minion_Size (hd minions), rs_num_primary = num_primary,
                rs_minion_size = minion_Size (hd minions),
                rs_offset_sizes = Store_Load store\<rparr>)"

section \<open>Address arithmetic\<close>

text \<open>A division by a zero stripe size or by zero primaries is undefined.\<close>

definition PrimaryIndex :: "raid \<Rightarrow> size_t \<Rightarrow> size_t outcome" where
  "PrimaryIndex r offset =
     (if rs_stripe_size r = 0 \<or> rs_num_primary r = 0 then Undef
      else let stripe_index = offset div rs_stripe_size r
           in Returns (stripe_index mod rs_num_primary r))"

definition MirrorIndex :: "raid \<Rightarrow> size_t \<Rightarrow> size_t" where
  "MirrorIndex r primary_idx = rs_num_primary r + primary_idx"

definition LocalOffset :: "raid \<Rightarrow> size_t \<Rightarrow> size_t outcome" where
  "LocalOffset r offset =
     (if rs_stripe_size r = 0 \<or> rs_num_primary r = 0 then Undef
      else let stripe_index = offset div rs_stripe_size r;
               stripe_group = stripe_index div rs_num_primary r
           in Returns (stripe_group * rs_stripe_size r + offset mod rs_stripe_size r))"

text \<open>\<^verbatim>\<open>m_minions[i]\<close> does not check the index.\<close>

definition minion_at :: "raid \<Rightarrow> size_t \<Rightarrow> minion outcome" where
  "minion_at r i = (if unat i < length (rs_minions r) then Returns (rs_minions r ! unat i) else Undef)"

text \<open>The bytes of one round of the loops: what is left, up to the end of the stripe.\<close>

definition chunk_len :: "raid \<Rightarrow> size_t \<Rightarrow> size_t \<Rightarrow> size_t" where
  "chunk_len r offset remaining =
     min remaining (rs_stripe_size r - offset mod rs_stripe_size r)"

lemma chunk_len_decreases:
  assumes "remaining \<noteq> 0" and "rs_stripe_size r \<noteq> 0"
  shows "unat (remaining - chunk_len r offset remaining) < unat remaining"
proof -
  have "unat (offset mod rs_stripe_size r) < unat (rs_stripe_size r)"
    using assms(2) by (simp add: unat_size_mod unat_eq_zero unat_gt_0)
  then have "offset mod rs_stripe_size r < rs_stripe_size r"
    by (simp add: word_less_nat_alt)
  then have "0 < rs_stripe_size r - offset mod rs_stripe_size r"
    by (metis right_minus_eq order_less_irrefl word_neq_0_conv)
  then have "0 < chunk_len r offset remaining" "chunk_len r offset remaining \<le> remaining"
    using assms(1) by (simp_all add: chunk_len_def word_neq_0_conv)
  moreover from this(2) have "unat (remaining - chunk_len r offset remaining)
      = unat remaining - unat (chunk_len r offset remaining)"
    by (rule unat_minus_exact)
  ultimately show ?thesis
    by (simp add: word_less_nat_alt word_le_nat_alt)
qed

section \<open>Read\<close>

definition raid_read_chunk :: "raid \<Rightarrow> size_t \<Rightarrow> size_t \<Rightarrow> vec outcome" where
  "raid_read_chunk r offset to_read =
     obind (PrimaryIndex r offset) (\<lambda>primary_idx.
     obind (LocalOffset r offset) (\<lambda>local_offset.
       let mirror_idx = MirrorIndex r primary_idx;
           temp_buf = replicate (unat to_read) 0
       in ocatch
            (obind (minion_at r primary_idx) (\<lambda>m. minion_Read m local_offset temp_buf))
            (\<lambda>_. obind (minion_at r mirror_idx) (\<lambda>m. minion_Read m local_offset temp_buf))))"

function raid_read_loop ::
  "raid \<Rightarrow> size_t \<Rightarrow> size_t \<Rightarrow> size_t \<Rightarrow> vec \<Rightarrow> vec \<times> unit outcome" where
  "raid_read_loop r offset remaining buf_pos buffer =
     (if remaining = 0 then (buffer, Returns ())
      else if rs_stripe_size r = 0 then (buffer, Undef)
      else
        let to_read = chunk_len r offset remaining
        in case raid_read_chunk r offset to_read of
             Returns temp_buf \<Rightarrow>
               raid_read_loop r (offset + to_read) (remaining - to_read) (buf_pos + to_read)
                 (copy_into buffer (unat buf_pos) temp_buf)
           | Throws e \<Rightarrow> (buffer, Throws e)
           | Blocks \<Rightarrow> (buffer, Blocks)
           | Dies \<Rightarrow> (buffer, Dies)
           | Undef \<Rightarrow> (buffer, Undef))"
  by pat_completeness auto
termination
  by (relation "measure (\<lambda>(r, offset, remaining, buf_pos, buffer). unat remaining)")
     (simp_all add: chunk_len_decreases)

text \<open>\<^verbatim>\<open>vector::resize\<close> keeps the front and fills up with zero bytes.\<close>

definition vec_resize :: "vec \<Rightarrow> nat \<Rightarrow> vec" where
  "vec_resize v n = take n v @ replicate (n - length v) 0"

definition RAID_Read :: "raid \<Rightarrow> DriverData \<Rightarrow> DriverData outcome" where
  "RAID_Read r d =
     (case raid_read_loop r (m_offset d) (m_len d) 0 (vec_resize (m_buffer d) (unat (m_len d))) of
        (buffer, Returns _) \<Rightarrow> Returns (d\<lparr>m_buffer := buffer, m_status := SUCCESS\<rparr>)
      | (buffer, Throws _) \<Rightarrow> Returns (d\<lparr>m_buffer := buffer, m_status := FAILURE\<rparr>)
      | (buffer, Blocks) \<Rightarrow> Blocks
      | (buffer, Dies) \<Rightarrow> Dies
      | (buffer, Undef) \<Rightarrow> Undef)"

section \<open>Write\<close>

definition raid_minion_write :: "raid \<Rightarrow> size_t \<Rightarrow> size_t \<Rightarrow> vec \<Rightarrow> raid \<times> unit outcome" where
  "raid_minion_write r i local_offset chunk =
     (case minion_at r i of
        Returns m \<Rightarrow>
          (case minion_Write m local_offset chunk of
             (m', oc) \<Rightarrow> (r\<lparr>rs_minions := (rs_minions r)[unat i := m']\<rparr>, oc))
      | _ \<Rightarrow> (r, Undef))"

definition raid_write_chunk :: "raid \<Rightarrow> size_t \<Rightarrow> vec \<Rightarrow> raid \<times> unit outcome" where
  "raid_write_chunk r offset chunk =
     (case (PrimaryIndex r offset, LocalOffset r offset) of
        (Returns primary_idx, Returns local_offset) \<Rightarrow>
          sthen (raid_minion_write r primary_idx local_offset chunk)
            (\<lambda>r1. raid_minion_write r1 (MirrorIndex r primary_idx) local_offset chunk)
      | _ \<Rightarrow> (r, Undef))"

function raid_write_loop ::
  "raid \<Rightarrow> size_t \<Rightarrow> size_t \<Rightarrow> size_t \<Rightarrow> vec \<Rightarrow> raid \<times> unit outcome" where
  "raid_write_loop r offset remaining buf_pos buffer =
     (if remaining = 0 then (r, Returns ())
      else if rs_stripe_size r = 0 then (r, Undef)
      else
        let to_write = chunk_len r offset remaining;
            chunk = subvec buffer (unat buf_pos) (unat to_write)
        in case raid_write_chunk r offset chunk of
             (r1, Returns _) \<Rightarrow>
               raid_write_loop r1 (offset + to_write) (remaining - to_write) (buf_pos + to_write) buffer
           | (r1, oc) \<Rightarrow> (r1, oc))"
  by pat_completeness auto
termination
  by (relation "measure (\<lambda>(r, offset, remaining, buf_pos, buffer). unat remaining)")
     (simp_all add: chunk_len_decreases)

definition RAID_Write :: "raid \<Rightarrow> DriverData \<Rightarrow> (raid \<times> DriverData) outcome" where
  "RAID_Write r d =
     (let original_offset = m_offset d;
          original_size = vsize (m_buffer d)
      in case raid_write_loop r original_offset original_size 0 (m_buffer d) of
           (r1, Returns _) \<Rightarrow>
             let sizes = map_put original_offset original_size (rs_offset_sizes r1)
             in Returns (r1\<lparr>rs_offset_sizes := sizes,
                            rs_metadata_store := Store_Save (rs_metadata_store r1) sizes\<rparr>,
                         d\<lparr>m_status := SUCCESS\<rparr>)
         | (r1, Throws _) \<Rightarrow> Returns (r1, d\<lparr>m_status := FAILURE\<rparr>)
         | (r1, Blocks) \<Rightarrow> Blocks
         | (r1, Dies) \<Rightarrow> Dies
         | (r1, Undef) \<Rightarrow> Undef)"

declare raid_read_loop.simps [simp del] raid_write_loop.simps [simp del]

section \<open>Metadata queries\<close>

definition RAID_GetDataSize :: "raid \<Rightarrow> size_t \<Rightarrow> size_t" where
  "RAID_GetDataSize r offset = size_at (rs_offset_sizes r) offset"

definition RAID_ListOffsets :: "raid \<Rightarrow> (size_t \<times> size_t) list" where
  "RAID_ListOffsets r = map (\<lambda>(offset, size). (offset, size)) (rs_offset_sizes r)"

definition RAID_GetNumMinions :: "raid \<Rightarrow> size_t" where
  "RAID_GetNumMinions r = vsize (rs_minions r)"

end
