(* ===== verification/Raid_Correctness.thy ===== *)
theory Raid_Correctness
  imports Raid_Storage
begin

text \<open>
  Correctness of \<^verbatim>\<open>RAIDStorage\<close>: the address arithmetic, the two loops as operations on the
  flat vector of the primaries, mirroring, failover, refused requests, and the undefined
  behaviour two missing checks leave open.
\<close>

section \<open>Shape and health of an array\<close>

abbreviation raid_np :: "raid \<Rightarrow> nat" where
  "raid_np r \<equiv> unat (rs_num_primary r)"

abbreviation raid_stripe :: "raid \<Rightarrow> nat" where
  "raid_stripe r \<equiv> unat (rs_stripe_size r)"

definition raid_capacity :: "raid \<Rightarrow> nat" where
  "raid_capacity r = raid_np r * raid_stripe r"

definition raid_flat :: "raid \<Rightarrow> vec" where
  "raid_flat r = concat (map minion_content (take (raid_np r) (rs_minions r)))"

text \<open>
  \<open>raid_shape\<close>: as many mirrors as primaries, all of one size, addresses below \<open>2 ^ 64\<close>.
  \<open>raid_ok\<close>: moreover every minion and the metadata store answer.
\<close>

definition raid_shape :: "raid \<Rightarrow> bool" where
  "raid_shape r \<longleftrightarrow> length (rs_minions r) = 2 * raid_np r \<and> 0 < raid_np r \<and> 0 < raid_stripe r \<and>
     (\<forall>m \<in> set (rs_minions r). minion_Size m = rs_stripe_size r) \<and>
     2 * raid_np r < 2 ^ 64 \<and> raid_capacity r < 2 ^ 64 \<and> map_inv (rs_offset_sizes r)"

definition raid_ok :: "raid \<Rightarrow> bool" where
  "raid_ok r \<longleftrightarrow> raid_shape r \<and> (\<forall>m \<in> set (rs_minions r). minion_ok m) \<and>
     store_reliable (rs_metadata_store r)"

text \<open>Every mirror holds the bytes of its primary.\<close>

definition raid_mirrored :: "raid \<Rightarrow> bool" where
  "raid_mirrored r \<longleftrightarrow>
     (\<forall>i < raid_np r. minion_content (rs_minions r ! (raid_np r + i)) = minion_content (rs_minions r ! i))"

lemma raid_ok_shape: "raid_ok r \<Longrightarrow> raid_shape r"
  by (simp add: raid_ok_def)

lemma raid_shapeD:
  assumes "raid_shape r"
  shows "length (rs_minions r) = 2 * raid_np r" and "0 < raid_np r" and "0 < raid_stripe r"
    and "raid_capacity r < 2 ^ 64" and "rs_stripe_size r \<noteq> 0" and "rs_num_primary r \<noteq> 0"
    and "2 * raid_np r < 2 ^ 64" and "map_inv (rs_offset_sizes r)"
  using assms by (auto simp add: raid_shape_def)

lemma raid_shape_size:
  "raid_shape r \<Longrightarrow> i < 2 * raid_np r \<Longrightarrow> minion_Size (rs_minions r ! i) = rs_stripe_size r"
  by (auto simp add: raid_shape_def)

lemma raid_ok_minion: "raid_ok r \<Longrightarrow> i < 2 * raid_np r \<Longrightarrow> minion_ok (rs_minions r ! i)"
  by (auto simp add: raid_ok_def raid_shape_def)

lemma raid_ok_content_length:
  "raid_ok r \<Longrightarrow> i < 2 * raid_np r \<Longrightarrow> length (minion_content (rs_minions r ! i)) = raid_stripe r"
  using min.content_length [OF raid_ok_minion] by (simp add: raid_shape_size raid_ok_shape)

text \<open>Every minion holds as many bytes as a stripe.\<close>

definition raid_filled :: "raid \<Rightarrow> bool" where
  "raid_filled r \<longleftrightarrow> raid_shape r \<and>
     (\<forall>m \<in> set (rs_minions r). length (minion_content m) = raid_stripe r)"

lemma raid_ok_filled: "raid_ok r \<Longrightarrow> raid_filled r"
  by (simp add: raid_filled_def raid_ok_def raid_shape_def min.content_length)

lemma raid_flat_parts:
  "raid_filled r \<Longrightarrow>
    \<forall>xs \<in> set (map minion_content (take (raid_np r) (rs_minions r))). length xs = raid_stripe r"
  by (auto simp add: raid_filled_def dest: in_set_takeD)

lemma length_raid_flat: "raid_filled r \<Longrightarrow> length (raid_flat r) = raid_capacity r"
  using length_concat_uniform [OF raid_flat_parts, of r] raid_shapeD(1) [of r]
  by (simp add: raid_flat_def raid_capacity_def raid_filled_def)

section \<open>Addresses\<close>

lemma index_sum_lt: "i < n \<Longrightarrow> (n :: nat) + i < 2 * n"
  by simp

lemma unat_PrimaryIndex:
  assumes "PrimaryIndex r off = Returns p"
  shows "unat p = unat off div raid_stripe r mod raid_np r"
  using assms by (auto simp add: PrimaryIndex_def Let_def size_simps split: if_splits)

lemma local_le_offset: "((o' :: nat) div s div n) * s + o' mod s \<le> o'"
proof -
  have "o' div s div n * s \<le> o' div s * s" by (rule mult_le_mono1) (rule div_le_dividend)
  then show ?thesis using div_mult_mod_eq [of o' s] by linarith
qed

lemma unat_LocalOffset:
  assumes "LocalOffset r off = Returns l"
  shows "unat l = unat off div raid_stripe r div raid_np r * raid_stripe r + unat off mod raid_stripe r"
proof -
  let ?g = "off div rs_stripe_size r div rs_num_primary r"
  have l: "l = ?g * rs_stripe_size r + off mod rs_stripe_size r"
    using assms by (auto simp add: LocalOffset_def Let_def split: if_splits)
  have le: "unat off div raid_stripe r div raid_np r * raid_stripe r + unat off mod raid_stripe r \<le> unat off"
    by (rule local_le_offset)
  have g: "unat ?g = unat off div raid_stripe r div raid_np r"
    by (simp add: size_simps)
  have m: "unat (off mod rs_stripe_size r) = unat off mod raid_stripe r"
    by (simp add: size_simps)
  have gs: "unat ?g * raid_stripe r < 2 ^ 64"
    unfolding g using le unat_lt_size [of off] by linarith
  then have gu: "unat (?g * rs_stripe_size r) = unat ?g * raid_stripe r"
    by (simp add: unat_word_ariths)
  moreover have "unat (?g * rs_stripe_size r) + unat (off mod rs_stripe_size r) < 2 ^ 64"
    unfolding gu unfolding g m using le unat_lt_size [of off] by linarith
  ultimately show ?thesis
    unfolding l by (simp add: unat_plus_exact g m)
qed

lemma indices_defined:
  assumes "raid_shape r"
  obtains p l where "PrimaryIndex r off = Returns p" and "LocalOffset r off = Returns l"
  using raid_shapeD(5,6) [OF assms] by (simp add: PrimaryIndex_def LocalOffset_def Let_def)

lemma primary_in_range:
  "raid_shape r \<Longrightarrow> PrimaryIndex r off = Returns p \<Longrightarrow> unat p < raid_np r"
  by (simp add: unat_PrimaryIndex raid_shapeD(2))

lemma unat_MirrorIndex:
  assumes "raid_shape r" and "unat p < raid_np r"
  shows "unat (MirrorIndex r p) = raid_np r + unat p"
  using assms(2) raid_shapeD(7) [OF assms(1)]
  by (simp add: MirrorIndex_def unat_plus_exact)

text \<open>Below the capacity the stripe is the primary and the remainder the position in it.\<close>

lemma stripe_below:
  assumes "(x :: nat) < n * s"
  shows "x div s < n" and "x div s mod n = x div s" and "x div s div n = 0"
proof -
  show *: "x div s < n"
    using assms by (metis less_mult_imp_div_less)
  then show "x div s mod n = x div s" "x div s div n = 0" by simp_all
qed

lemma address_below:
  assumes "unat off < raid_capacity r" and "PrimaryIndex r off = Returns p"
    and "LocalOffset r off = Returns l"
  shows "unat p = unat off div raid_stripe r" and "unat l = unat off mod raid_stripe r"
    and "unat p * raid_stripe r + unat l = unat off"
  using stripe_below [of "unat off" "raid_np r" "raid_stripe r"] assms
  by (simp_all add: unat_PrimaryIndex unat_LocalOffset raid_capacity_def)

text \<open>Beyond it the position in the minion is beyond the minion.\<close>

lemma address_beyond:
  assumes "raid_shape r" and "raid_capacity r \<le> unat off" and "LocalOffset r off = Returns l"
  shows "raid_stripe r \<le> unat l" and "unat l \<le> unat off"
proof -
  have s: "0 < raid_stripe r" "0 < raid_np r" using raid_shapeD [OF assms(1)] by simp_all
  have "raid_np r * raid_stripe r div raid_stripe r \<le> unat off div raid_stripe r"
    using assms(2) by (intro div_le_mono) (simp add: raid_capacity_def)
  then have "raid_np r \<le> unat off div raid_stripe r"
    using s by simp
  then have "1 \<le> unat off div raid_stripe r div raid_np r"
    using s by (simp add: Suc_le_eq div_greater_zero_iff)
  then have "1 * raid_stripe r \<le> unat off div raid_stripe r div raid_np r * raid_stripe r"
    by (rule mult_le_mono1)
  then show "raid_stripe r \<le> unat l"
    using unat_LocalOffset [OF assms(3)] by linarith
  show "unat l \<le> unat off"
    using unat_LocalOffset [OF assms(3)] local_le_offset by simp
qed

lemma unat_chunk_len:
  assumes "raid_shape r"
  shows "unat (chunk_len r off rem) = min (unat rem) (raid_stripe r - unat off mod raid_stripe r)"
proof -
  have "unat off mod raid_stripe r < raid_stripe r"
    using raid_shapeD(3) [OF assms] by simp
  then have "off mod rs_stripe_size r \<le> rs_stripe_size r"
    by (simp add: word_le_nat_alt size_simps)
  then show ?thesis
    by (simp add: chunk_len_def size_simps)
qed

section \<open>Reading\<close>

text \<open>
  A range inside one stripe lies inside one minion: the flat vector and the primary agree there.
\<close>

lemma within_stripe:
  assumes "raid_shape r" and "unat off + n \<le> raid_capacity r" and "0 < n"
    and "n \<le> raid_stripe r - unat off mod raid_stripe r"
    and "PrimaryIndex r off = Returns p" and "LocalOffset r off = Returns l"
  shows "unat p < raid_np r" and "unat l + n \<le> raid_stripe r"
    and "unat off = unat p * raid_stripe r + unat l"
proof -
  have "unat off < raid_capacity r" using assms(2,3) by simp
  note a = address_below [OF this assms(5,6)]
  show "unat p < raid_np r" using primary_in_range [OF assms(1,5)] .
  show "unat off = unat p * raid_stripe r + unat l" using a(3) by simp
  have "unat off mod raid_stripe r < raid_stripe r" using raid_shapeD(3) [OF assms(1)] by simp
  then show "unat l + n \<le> raid_stripe r" using a(2) assms(4) by simp
qed

lemma subvec_raid_flat:
  assumes "raid_filled r" and "p < raid_np r" and "l + n \<le> raid_stripe r"
  shows "subvec (raid_flat r) (p * raid_stripe r + l) n = subvec (minion_content (rs_minions r ! p)) l n"
proof -
  have len: "length (rs_minions r) = 2 * raid_np r"
    using assms(1) by (simp add: raid_filled_def raid_shapeD(1))
  then have "p < length (map minion_content (take (raid_np r) (rs_minions r)))"
    using assms(2) by simp
  from subvec_concat [OF raid_flat_parts [OF assms(1)] this assms(3)] show ?thesis
    using assms(2) len by (simp add: raid_flat_def)
qed

text \<open>
  What the read loop needs of one chunk: inside a stripe, \<open>raid_read_chunk\<close> returns the bytes
  of a vector \<open>v\<close>.
\<close>

definition chunks_serve :: "raid \<Rightarrow> vec \<Rightarrow> bool" where
  "chunks_serve r v \<longleftrightarrow> length v = raid_capacity r \<and>
     (\<forall>off n. 0 < unat n \<longrightarrow> unat off + unat n \<le> raid_capacity r \<longrightarrow>
        unat n \<le> raid_stripe r - unat off mod raid_stripe r \<longrightarrow>
        raid_read_chunk r off n = Returns (subvec v (unat off) (unat n)))"

lemma chunks_serve_ok:
  assumes "raid_ok r"
  shows "chunks_serve r (raid_flat r)"
  unfolding chunks_serve_def
proof (intro conjI allI impI)
  show "length (raid_flat r) = raid_capacity r" by (rule length_raid_flat [OF raid_ok_filled [OF assms]])
next
  fix off n :: size_t
  assume n: "0 < unat n" "unat off + unat n \<le> raid_capacity r"
    "unat n \<le> raid_stripe r - unat off mod raid_stripe r"
  obtain p l where pl: "PrimaryIndex r off = Returns p" "LocalOffset r off = Returns l"
    using indices_defined [OF raid_ok_shape [OF assms]] .
  note w = within_stripe [OF raid_ok_shape [OF assms] n(2,1,3) pl]
  have "minion_Read (rs_minions r ! unat p) l (replicate (unat n) 0)
      = Returns (subvec (minion_content (rs_minions r ! unat p)) (unat l) (unat n))"
    using min.read_inside [OF raid_ok_minion [OF assms], of "unat p" l "replicate (unat n) 0"] w(1,2)
    by (simp add: raid_shape_size [OF raid_ok_shape [OF assms]])
  then show "raid_read_chunk r off n = Returns (subvec (raid_flat r) (unat off) (unat n))"
    using w pl raid_shapeD(1) [OF raid_ok_shape [OF assms]]
    by (simp add: raid_read_chunk_def Let_def minion_at_def subvec_raid_flat [OF raid_ok_filled [OF assms]])
qed

lemma read_loop_serves:
  assumes "raid_shape r" and "chunks_serve r v"
    and "unat off + unat rem \<le> raid_capacity r"
    and "unat pos + unat rem \<le> length buffer" and "length buffer < 2 ^ 64"
  shows "raid_read_loop r off rem pos buffer =
    (copy_into buffer (unat pos) (subvec v (unat off) (unat rem)), Returns ())"
  using assms
proof (induction r off rem pos buffer rule: raid_read_loop.induct)
  case (1 r off rem pos buffer)
  show ?case
  proof (cases "rem = 0")
    case True
    then show ?thesis by (subst raid_read_loop.simps) (simp add: subvec_def)
  next
    case False
    let ?n = "chunk_len r off rem"
    let ?c = "subvec v (unat off) (unat ?n)"
    note s = raid_shapeD [OF "1.prems"(1)]
    have n: "unat ?n = min (unat rem) (raid_stripe r - unat off mod raid_stripe r)"
      by (rule unat_chunk_len [OF "1.prems"(1)])
    have n0: "0 < unat ?n" "unat ?n \<le> unat rem"
      using n s(3) False by (simp_all add: unat_gt_0)
    have chunk: "raid_read_chunk r off ?n = Returns ?c"
      using "1.prems"(2,3) n n0 by (simp add: chunks_serve_def)
    have lv: "length v = raid_capacity r" using "1.prems"(2) by (simp add: chunks_serve_def)
    have lc: "length ?c = unat ?n" using lv "1.prems"(3) n0(2) by simp
    have o: "unat (off + ?n) = unat off + unat ?n"
      using "1.prems"(3) n0(2) s(4) by (intro unat_plus_exact) linarith
    have p: "unat (pos + ?n) = unat pos + unat ?n"
      using "1.prems"(4,5) n0(2) by (intro unat_plus_exact) linarith
    have m: "unat (rem - ?n) = unat rem - unat ?n"
      using n0(2) by (intro unat_minus_exact) (simp add: word_le_nat_alt)
    have lb: "length (copy_into buffer (unat pos) ?c) = length buffer"
      using lc "1.prems"(4) n0(2) by simp
    have IH: "raid_read_loop r (off + ?n) (rem - ?n) (pos + ?n) (copy_into buffer (unat pos) ?c) =
       (copy_into (copy_into buffer (unat pos) ?c) (unat pos + unat ?n)
          (subvec v (unat off + unat ?n) (unat rem - unat ?n)), Returns ())"
      using "1.IH" [OF False s(5) refl chunk] "1.prems" n0(2) lb by (simp add: o p m)
    have "copy_into (copy_into buffer (unat pos) ?c) (unat pos + unat ?n)
          (subvec v (unat off + unat ?n) (unat rem - unat ?n))
        = copy_into buffer (unat pos) (subvec v (unat off) (unat rem))"
      using copy_into_append [of "unat pos" ?c "subvec v (unat off + unat ?n) (unat rem - unat ?n)" buffer]
        subvec_split [of v "unat off" "unat ?n" "unat rem - unat ?n"] lc lv "1.prems"(3,4) n0(2)
      by simp
    then show ?thesis
      using False s(5) chunk IH
      by (simp add: raid_read_loop.simps [of r off rem pos buffer] Let_def)
  qed
qed

lemma length_vec_resize [simp]: "length (vec_resize v n) = n"
  by (simp add: vec_resize_def)

lemma copy_into_whole: "length src = length dst \<Longrightarrow> copy_into dst 0 src = src"
  by (simp add: copy_into_def)

lemma RAID_Read_serves:
  assumes "raid_shape r" and "chunks_serve r v"
    and "unat (m_offset d) + unat (m_len d) \<le> raid_capacity r"
  shows "RAID_Read r d = Returns (d\<lparr>m_buffer := subvec v (unat (m_offset d)) (unat (m_len d)),
    m_status := SUCCESS\<rparr>)"
proof -
  have "length v = raid_capacity r" using assms(2) by (simp add: chunks_serve_def)
  then show ?thesis
    using read_loop_serves [OF assms(1-3), of 0 "vec_resize (m_buffer d) (unat (m_len d))"] assms(3)
    by (simp add: RAID_Read_def copy_into_whole)
qed

section \<open>Writing\<close>

text \<open>
  \<open>raid_wrote r r' off c\<close>: from \<open>r\<close> to \<open>r'\<close> only the minions changed, every one still
  answers, the flat vector received \<open>c\<close> at \<open>off\<close>, and mirrors that agreed still agree.
\<close>

definition raid_wrote :: "raid \<Rightarrow> raid \<Rightarrow> nat \<Rightarrow> vec \<Rightarrow> bool" where
  "raid_wrote r r' off c \<longleftrightarrow> r' = r\<lparr>rs_minions := rs_minions r'\<rparr> \<and> raid_ok r' \<and>
     raid_flat r' = copy_into (raid_flat r) off c \<and> (raid_mirrored r \<longrightarrow> raid_mirrored r')"

lemma raid_wrote_fields:
  assumes "raid_wrote r r' off c"
  shows "rs_stripe_size r' = rs_stripe_size r" and "rs_num_primary r' = rs_num_primary r"
    and "rs_offset_sizes r' = rs_offset_sizes r" and "rs_metadata_store r' = rs_metadata_store r"
    and "raid_capacity r' = raid_capacity r"
proof -
  have r': "r' = r\<lparr>rs_minions := rs_minions r'\<rparr>" using assms by (simp add: raid_wrote_def)
  show "rs_stripe_size r' = rs_stripe_size r" "rs_num_primary r' = rs_num_primary r"
    "rs_offset_sizes r' = rs_offset_sizes r" "rs_metadata_store r' = rs_metadata_store r"
    by (subst r', simp)+
  then show "raid_capacity r' = raid_capacity r" by (simp add: raid_capacity_def)
qed

lemma raid_wroteD:
  assumes "raid_wrote r r' off c"
  shows "raid_ok r'" and "raid_flat r' = copy_into (raid_flat r) off c"
    and "raid_mirrored r \<Longrightarrow> raid_mirrored r'"
  using assms by (simp_all add: raid_wrote_def)

lemma raid_wrote_nothing: "raid_ok r \<Longrightarrow> raid_wrote r r off []"
  by (simp add: raid_wrote_def)

lemma raid_wrote_append:
  assumes "raid_ok r" and "raid_wrote r r1 off a" and "raid_wrote r1 r2 (off + length a) b"
    and "off + length a + length b \<le> raid_capacity r"
  shows "raid_wrote r r2 off (a @ b)"
proof -
  have "r2 = r\<lparr>rs_minions := rs_minions r2\<rparr>"
    using assms(2,3) unfolding raid_wrote_def by (metis raid.surjective raid.update_convs(2))
  moreover have "raid_flat r2 = copy_into (raid_flat r) off (a @ b)"
    using assms copy_into_append [of off a b "raid_flat r"]
    by (simp add: raid_wrote_def length_raid_flat raid_ok_filled)
  ultimately show ?thesis
    using assms(2,3) by (simp add: raid_wrote_def)
qed

text \<open>Replacing one minion by a healthy one of the same size keeps the array healthy.\<close>

lemma raid_ok_replace:
  assumes "raid_ok r" and "minion_ok m'" and "minion_Size m' = rs_stripe_size r"
  shows "raid_ok (r\<lparr>rs_minions := (rs_minions r)[i := m']\<rparr>)"
  using assms set_update_subset_insert [of "rs_minions r" i m']
  by (auto simp add: raid_ok_def raid_shape_def raid_capacity_def)

text \<open>A minion that works takes its bytes.\<close>

lemma write_to_ok:
  assumes "raid_shape r" and "unat i < 2 * raid_np r" and "minion_ok (rs_minions r ! unat i)"
    and "unat l + length c \<le> raid_stripe r"
  obtains m' where "raid_minion_write r i l c = (r\<lparr>rs_minions := (rs_minions r)[unat i := m']\<rparr>, Returns ())"
    and "minion_ok m'" and "minion_Size m' = rs_stripe_size r"
    and "minion_content m' = copy_into (minion_content (rs_minions r ! unat i)) (unat l) c"
proof -
  let ?m = "rs_minions r ! unat i"
  have size: "minion_Size ?m = rs_stripe_size r" by (rule raid_shape_size [OF assms(1,2)])
  then obtain m' where "minion_Write ?m l c = (m', Returns ())" "minion_ok m'"
    "minion_Size m' = minion_Size ?m" "minion_content m' = copy_into (minion_content ?m) (unat l) c"
    using min.write_inside [OF assms(3), of l c] assms(4) by auto
  then show thesis
    using that size assms(2) raid_shapeD(1) [OF assms(1)] by (simp add: raid_minion_write_def minion_at_def)
qed

lemma raid_minion_write_ok:
  assumes "raid_ok r" and "unat i < 2 * raid_np r" and "unat l + length c \<le> raid_stripe r"
  obtains m' where
    "raid_minion_write r i l c = (r\<lparr>rs_minions := (rs_minions r)[unat i := m']\<rparr>, Returns ())"
    and "minion_ok m'" and "minion_Size m' = rs_stripe_size r"
    and "minion_content m' = copy_into (minion_content (rs_minions r ! unat i)) (unat l) c"
  by (rule write_to_ok [OF raid_ok_shape [OF assms(1)] assms(2) raid_ok_minion [OF assms(1,2)] assms(3)])

lemma raid_write_chunk_ok:
  assumes "raid_ok r" and "0 < length c" and "unat off + length c \<le> raid_capacity r"
    and "length c \<le> raid_stripe r - unat off mod raid_stripe r"
  obtains r' where "raid_write_chunk r off c = (r', Returns ())" and "raid_wrote r r' (unat off) c"
proof -
  note sh = raid_ok_shape [OF assms(1)]
  note len = raid_shapeD(1) [OF sh]
  obtain p l where pl: "PrimaryIndex r off = Returns p" "LocalOffset r off = Returns l"
    using indices_defined [OF sh] .
  note w = within_stripe [OF sh assms(3,2,4) pl]
  let ?ms = "rs_minions r"
  let ?q = "raid_np r + unat p"
  have p2: "unat p < 2 * raid_np r" using w(1) by simp
  obtain m1 where m1: "raid_minion_write r p l c = (r\<lparr>rs_minions := ?ms[unat p := m1]\<rparr>, Returns ())"
    "minion_ok m1" "minion_Size m1 = rs_stripe_size r"
    "minion_content m1 = copy_into (minion_content (?ms ! unat p)) (unat l) c"
    by (rule raid_minion_write_ok [OF assms(1) p2 w(2)])
  let ?r1 = "r\<lparr>rs_minions := ?ms[unat p := m1]\<rparr>"
  have ok1: "raid_ok ?r1" using raid_ok_replace [OF assms(1) m1(2,3)] .
  have q: "unat (MirrorIndex r p) = ?q" by (rule unat_MirrorIndex [OF sh w(1)])
  obtain m2 where m2: "raid_minion_write ?r1 (MirrorIndex r p) l c
      = (?r1\<lparr>rs_minions := ?ms[unat p := m1, ?q := m2]\<rparr>, Returns ())"
    "minion_ok m2" "minion_Size m2 = rs_stripe_size r"
    "minion_content m2 = copy_into (minion_content (?ms ! ?q)) (unat l) c"
  proof (rule raid_minion_write_ok [OF ok1, of "MirrorIndex r p" l c])
    show "unat (MirrorIndex r p) < 2 * raid_np ?r1" "unat l + length c \<le> raid_stripe ?r1"
      using q w(1,2) by simp_all
  next
    fix m2
    assume "raid_minion_write ?r1 (MirrorIndex r p) l c
        = (?r1\<lparr>rs_minions := (rs_minions ?r1)[unat (MirrorIndex r p) := m2]\<rparr>, Returns ())"
      "minion_ok m2" "minion_Size m2 = rs_stripe_size ?r1"
      "minion_content m2 = copy_into (minion_content (rs_minions ?r1 ! unat (MirrorIndex r p))) (unat l) c"
    then show thesis using that w(1) by (simp add: q)
  qed
  let ?r' = "r\<lparr>rs_minions := ?ms[unat p := m1, ?q := m2]\<rparr>"
  have run: "raid_write_chunk r off c = (?r', Returns ())"
    by (simp add: raid_write_chunk_def pl m1(1) m2(1))
  have ok': "raid_ok ?r'"
    using raid_ok_replace [OF ok1, of m2 ?q] m2(2,3) by simp
  have "take (raid_np r) (?ms[unat p := m1, ?q := m2]) = (take (raid_np r) ?ms)[unat p := m1]"
    by (simp add: take_update_swap list_update_beyond)
  then have "raid_flat ?r' = concat ((map minion_content (take (raid_np r) ?ms))
      [unat p := copy_into (map minion_content (take (raid_np r) ?ms) ! unat p) (unat l) c])"
    using w(1) len by (simp add: raid_flat_def map_update m1(4))
  also have "\<dots> = copy_into (raid_flat r) (unat p * raid_stripe r + unat l) c"
    unfolding raid_flat_def using w(1,2) len
    by (intro copy_into_concat raid_flat_parts [OF raid_ok_filled [OF assms(1)]]) simp_all
  finally have flat: "raid_flat ?r' = copy_into (raid_flat r) (unat off) c"
    by (simp add: w(3))
  have "raid_mirrored r \<Longrightarrow> raid_mirrored ?r'"
    using w(1) len by (auto simp add: raid_mirrored_def nth_list_update m1(4) m2(4))
  then have "raid_wrote r ?r' (unat off) c"
    using ok' flat by (simp add: raid_wrote_def)
  with run show thesis using that by blast
qed

text \<open>A chunk that starts below the capacity ends below it: stripes never straddle the end.\<close>

lemma chunk_below_capacity:
  assumes "x < n * s" and "c \<le> s - x mod s"
  shows "x + c \<le> n * (s :: nat)"
proof -
  have "x div s < n" using stripe_below(1) [OF assms(1)] .
  then have "Suc (x div s) * s \<le> n * s" by (intro mult_le_mono1) simp
  moreover have "x = x div s * s + x mod s" by simp
  moreover have "x mod s < s" using assms(1) by (cases "s = 0") simp_all
  ultimately show ?thesis using assms(2) by (simp only: mult_Suc)
qed

lemma chunk_facts:
  assumes "raid_shape r" and "rem \<noteq> 0"
  shows "0 < unat (chunk_len r off rem)" and "unat (chunk_len r off rem) \<le> unat rem"
    and "unat (chunk_len r off rem) \<le> raid_stripe r - unat off mod raid_stripe r"
    and "unat (rem - chunk_len r off rem) = unat rem - unat (chunk_len r off rem)"
proof -
  show "0 < unat (chunk_len r off rem)" "unat (chunk_len r off rem) \<le> unat rem"
    "unat (chunk_len r off rem) \<le> raid_stripe r - unat off mod raid_stripe r"
    using assms raid_shapeD(3) [OF assms(1)] by (simp_all add: unat_chunk_len unat_gt_0)
  then show "unat (rem - chunk_len r off rem) = unat rem - unat (chunk_len r off rem)"
    by (intro unat_minus_exact) (simp add: word_le_nat_alt)
qed

text \<open>The first round of a request inside the capacity.\<close>

lemma round_facts:
  assumes "raid_shape r" and "rem \<noteq> 0" and "unat off + unat rem \<le> raid_capacity r"
    and "unat pos + unat rem \<le> length buf" and "length buf < 2 ^ 64"
    and "n = chunk_len r off rem"
  shows "0 < unat n" and "unat n \<le> unat rem" and "unat n \<le> raid_stripe r - unat off mod raid_stripe r"
    and "length (subvec buf (unat pos) (unat n)) = unat n"
    and "unat (off + n) = unat off + unat n" and "unat (pos + n) = unat pos + unat n"
    and "unat (rem - n) = unat rem - unat n"
    and "unat (off + n) + unat (rem - n) = unat off + unat rem"
    and "unat (pos + n) + unat (rem - n) = unat pos + unat rem"
proof -
  note f = chunk_facts [OF assms(1,2), of off, folded assms(6)]
  show "0 < unat n" "unat n \<le> unat rem" "unat n \<le> raid_stripe r - unat off mod raid_stripe r"
    "unat (rem - n) = unat rem - unat n" using f by simp_all
  show "length (subvec buf (unat pos) (unat n)) = unat n" using f(2) assms(4) by simp
  show o: "unat (off + n) = unat off + unat n"
    using raid_shapeD(4) [OF assms(1)] assms(3) f(2) by (intro unat_plus_exact) linarith
  show p: "unat (pos + n) = unat pos + unat n"
    using assms(4,5) f(2) by (intro unat_plus_exact) linarith
  show "unat (off + n) + unat (rem - n) = unat off + unat rem"
    "unat (pos + n) + unat (rem - n) = unat pos + unat rem"
    using f(2) by (simp_all add: o p f(4))
qed

text \<open>
  The loop inside the capacity, and the loop of a request that reaches beyond it: the second
  writes what fits and then throws.
\<close>

lemma write_beyond_throws:
  assumes "raid_ok r" and "raid_capacity r \<le> unat off" and "0 < length c"
    and "unat off + length c < 2 ^ 64"
  shows "raid_write_chunk r off c = (r, Throws (Out_of_range ''Write exceeds minion bounds''))"
proof -
  note sh = raid_ok_shape [OF assms(1)]
  obtain p l where pl: "PrimaryIndex r off = Returns p" "LocalOffset r off = Returns l"
    using indices_defined [OF sh] .
  have p: "unat p < raid_np r" by (rule primary_in_range [OF sh pl(1)])
  then have i: "unat p < 2 * raid_np r" "unat p < length (rs_minions r)"
    using raid_shapeD(1) [OF sh] by simp_all
  note l = address_beyond [OF sh assms(2) pl(2)]
  have "minion_Write (rs_minions r ! unat p) l c
      = (rs_minions r ! unat p, Throws (Out_of_range ''Write exceeds minion bounds''))"
  proof (rule min.write_outside [OF raid_ok_minion [OF assms(1) i(1)]])
    show "unat l + length c < 2 ^ 64" using l(2) assms(4) by linarith
    show "unat (minion_Size (rs_minions r ! unat p)) < unat l + length c"
      unfolding raid_shape_size [OF sh i(1)] using l(1) assms(3) by linarith
  qed
  then show ?thesis
    using i(2) by (simp add: raid_write_chunk_def pl raid_minion_write_def minion_at_def)
qed

lemma write_loop_run:
  assumes "raid_ok r" and "unat off + unat rem < 2 ^ 64"
    and "unat pos + unat rem \<le> length buf" and "length buf < 2 ^ 64"
  shows "\<exists>r' oc. raid_write_loop r off rem pos buf = (r', oc) \<and>
    raid_wrote r r' (unat off) (subvec buf (unat pos) (min (unat rem) (raid_capacity r - unat off))) \<and>
    oc = (if rem = 0 \<or> unat off + unat rem \<le> raid_capacity r then Returns ()
          else Throws (Out_of_range ''Write exceeds minion bounds''))"
  using assms
proof (induction r off rem pos buf rule: raid_write_loop.induct)
  case (1 r off rem pos buf)
  note sh = raid_ok_shape [OF "1.prems"(1)]
  note s = raid_shapeD [OF sh]
  show ?case
  proof (cases "rem = 0")
    case True
    with "1.prems"(1) show ?thesis
      by (subst raid_write_loop.simps) (simp add: subvec_def raid_wrote_nothing)
  next
    case False
    let ?n = "chunk_len r off rem"
    let ?c = "subvec buf (unat pos) (unat ?n)"
    note n = chunk_facts [OF sh False, of off]
    have lc: "length ?c = unat ?n" using "1.prems"(3) n(2) by simp
    show ?thesis
    proof (cases "unat off < raid_capacity r")
      case below: True
      have "unat off + unat ?n \<le> raid_capacity r"
        using chunk_below_capacity below n(3) by (simp add: raid_capacity_def)
      then obtain r1 where r1: "raid_write_chunk r off ?c = (r1, Returns ())"
        "raid_wrote r r1 (unat off) ?c"
        using raid_write_chunk_ok [OF "1.prems"(1), of ?c off] lc n(1,3) by auto
      note f = raid_wrote_fields [OF r1(2)]
      have o: "unat (off + ?n) = unat off + unat ?n"
        using "1.prems"(2) n(2) by (intro unat_plus_exact) linarith
      have p: "unat (pos + ?n) = unat pos + unat ?n"
        using "1.prems"(3,4) n(2) by (intro unat_plus_exact) linarith
      have step: "raid_write_loop r off rem pos buf
          = raid_write_loop r1 (off + ?n) (rem - ?n) (pos + ?n) buf"
        using False s(5) r1(1) by (subst raid_write_loop.simps) (simp add: Let_def)
      have ok1: "raid_ok r1" using r1(2) by (simp add: raid_wrote_def)
      have pre: "unat (off + ?n) + unat (rem - ?n) < 2 ^ 64"
        "unat (pos + ?n) + unat (rem - ?n) \<le> length buf"
        using "1.prems"(2,3) n(2) by (simp_all add: o p n(4))
      let ?rest = "subvec buf (unat pos + unat ?n) (min (unat rem - unat ?n) (raid_capacity r - (unat off + unat ?n)))"
      obtain r' oc where run: "raid_write_loop r1 (off + ?n) (rem - ?n) (pos + ?n) buf = (r', oc)"
        and wrote: "raid_wrote r1 r' (unat off + unat ?n) ?rest"
        and oc: "oc = (if rem - ?n = 0 \<or> unat off + unat rem \<le> raid_capacity r then Returns ()
          else Throws (Out_of_range ''Write exceeds minion bounds''))"
        using "1.IH" [OF False s(5) refl refl r1(1) [symmetric] refl ok1 pre "1.prems"(4)] n(2)
        by (auto simp add: o p n(4) f(5))
      have "raid_wrote r r' (unat off) (?c @ ?rest)"
        using wrote lc "1.prems"(1,3) n(2) \<open>unat off + unat ?n \<le> raid_capacity r\<close>
        by (intro raid_wrote_append [OF "1.prems"(1) r1(2)]) simp_all
      moreover have "?c @ ?rest = subvec buf (unat pos) (min (unat rem) (raid_capacity r - unat off))"
      proof -
        have "unat ?n + min (unat rem - unat ?n) (raid_capacity r - (unat off + unat ?n))
            = min (unat rem) (raid_capacity r - unat off)"
          using n(2) \<open>unat off + unat ?n \<le> raid_capacity r\<close> by arith
        then show ?thesis by (simp only: subvec_split [symmetric])
      qed
      moreover have "rem - ?n = 0 \<Longrightarrow> unat off + unat rem \<le> raid_capacity r"
        using n(4) \<open>unat off + unat ?n \<le> raid_capacity r\<close> by simp
      ultimately show ?thesis
        using False run step oc by auto
    next
      case above: False
      then have "raid_write_chunk r off ?c
          = (r, Throws (Out_of_range ''Write exceeds minion bounds''))"
        using lc n(1,2) "1.prems"(2) by (intro write_beyond_throws [OF "1.prems"(1)]) simp_all
      then have "raid_write_loop r off rem pos buf
          = (r, Throws (Out_of_range ''Write exceeds minion bounds''))"
        using False s(5) by (subst raid_write_loop.simps) (simp add: Let_def)
      moreover have "\<not> unat off + unat rem \<le> raid_capacity r"
        using above n(1,2) by linarith
      ultimately show ?thesis
        using False above "1.prems"(1) by (simp add: subvec_def raid_wrote_nothing)
    qed
  qed
qed

end
