(* ===== verification/Raid_Properties.thy ===== *)
theory Raid_Properties
  imports Raid_Correctness
begin

text \<open>
  What the RAID layer promises its callers, as theorems over \<open>RAID_Read\<close>, \<open>RAID_Write\<close> and the
  constructor, with concrete arrays of four small memory minions as witnesses.
\<close>

section \<open>Consequences of the loop lemmas\<close>

lemma RAID_Write_inside:
  assumes "raid_ok r" and "unat (m_offset d) + length (m_buffer d) \<le> raid_capacity r"
  obtains r1 where "raid_wrote r r1 (unat (m_offset d)) (m_buffer d)"
    and "RAID_Write r d = Returns
      (r1\<lparr>rs_offset_sizes := map_put (m_offset d) (vsize (m_buffer d)) (rs_offset_sizes r),
          rs_metadata_store := Store_Save (rs_metadata_store r)
            (map_put (m_offset d) (vsize (m_buffer d)) (rs_offset_sizes r))\<rparr>,
       d\<lparr>m_status := SUCCESS\<rparr>)"
proof -
  let ?n = "length (m_buffer d)"
  have lt: "unat (m_offset d) + ?n < 2 ^ 64"
    using assms(2) raid_shapeD(4) [OF raid_ok_shape [OF assms(1)]] by linarith
  then have n: "unat (vsize (m_buffer d)) = ?n" by (intro unat_vsize) linarith
  have min: "min ?n (raid_capacity r - unat (m_offset d)) = ?n" using assms(2) by simp
  obtain r1 where run: "raid_write_loop r (m_offset d) (vsize (m_buffer d)) 0 (m_buffer d) = (r1, Returns ())"
    and w: "raid_wrote r r1 (unat (m_offset d)) (m_buffer d)"
    using write_loop_run [OF assms(1), of "m_offset d" "vsize (m_buffer d)" 0 "m_buffer d"] lt assms(2)
    by (auto simp add: n min)
  show thesis
    using that [OF w] run by (simp add: RAID_Write_def raid_wrote_fields [OF w] Let_def)
qed

lemma RAID_Write_beyond:
  assumes "raid_ok r" and "m_buffer d \<noteq> []"
    and "raid_capacity r < unat (m_offset d) + length (m_buffer d)"
    and "unat (m_offset d) + length (m_buffer d) < 2 ^ 64"
  obtains r1 where "raid_wrote r r1 (unat (m_offset d))
      (take (raid_capacity r - unat (m_offset d)) (m_buffer d))"
    and "RAID_Write r d = Returns (r1, d\<lparr>m_status := FAILURE\<rparr>)"
proof -
  let ?n = "length (m_buffer d)"
  have n: "unat (vsize (m_buffer d)) = ?n" using assms(4) by (intro unat_vsize) linarith
  have "vsize (m_buffer d) \<noteq> 0" using n assms(2) by auto
  then obtain r1 where run: "raid_write_loop r (m_offset d) (vsize (m_buffer d)) 0 (m_buffer d)
      = (r1, Throws (Out_of_range ''Write exceeds minion bounds''))"
    and w: "raid_wrote r r1 (unat (m_offset d))
      (subvec (m_buffer d) 0 (min ?n (raid_capacity r - unat (m_offset d))))"
    using write_loop_run [OF assms(1), of "m_offset d" "vsize (m_buffer d)" 0 "m_buffer d"] assms(3,4)
    by (auto simp add: n)
  have "subvec (m_buffer d) 0 (min ?n (raid_capacity r - unat (m_offset d)))
      = take (raid_capacity r - unat (m_offset d)) (m_buffer d)"
  proof -
    have "min ?n (raid_capacity r - unat (m_offset d)) = raid_capacity r - unat (m_offset d)"
      using assms(3) by linarith
    then show ?thesis by (simp add: subvec_def)
  qed
  then show thesis
    using that w run by (simp add: RAID_Write_def Let_def)
qed

text \<open>Recording sizes does not touch what the flat vector is made of.\<close>

lemma raid_ok_record:
  "raid_ok r \<Longrightarrow> map_inv sizes \<Longrightarrow> store_reliable st \<Longrightarrow>
    raid_ok (r\<lparr>rs_offset_sizes := sizes, rs_metadata_store := st\<rparr>)"
  by (simp add: raid_ok_def raid_shape_def raid_capacity_def)

lemma raid_flat_record [simp]:
  "raid_flat (r\<lparr>rs_offset_sizes := sizes, rs_metadata_store := st\<rparr>) = raid_flat r"
  "raid_mirrored (r\<lparr>rs_offset_sizes := sizes, rs_metadata_store := st\<rparr>) = raid_mirrored r"
  "raid_capacity (r\<lparr>rs_offset_sizes := sizes, rs_metadata_store := st\<rparr>) = raid_capacity r"
  by (simp_all add: raid_flat_def raid_mirrored_def raid_capacity_def)

section \<open>Runs of writes\<close>

text \<open>Requests served one after the other, with the array each leaves behind.\<close>

fun RAID_Writes :: "raid \<Rightarrow> DriverData list \<Rightarrow> raid outcome" where
  "RAID_Writes r [] = Returns r"
| "RAID_Writes r (d # ds) = obind (RAID_Write r d) (\<lambda>(r1, _). RAID_Writes r1 ds)"

text \<open>Every recorded range lies in the array.\<close>

definition sizes_fit :: "raid \<Rightarrow> bool" where
  "sizes_fit r \<longleftrightarrow> (\<forall>(off, n) \<in> set (rs_offset_sizes r).
     n = 0 \<or> unat off + unat n \<le> raid_capacity r)"

lemma set_map_put: "set (map_put k v m) \<subseteq> insert (k, v) (set m)"
  by (induction m) auto

lemma sizes_fit_record:
  assumes "sizes_fit r" and "raid_capacity r1 = raid_capacity r"
    and "n = 0 \<or> unat off + unat n \<le> raid_capacity r"
  shows "sizes_fit (r1\<lparr>rs_offset_sizes := map_put off n (rs_offset_sizes r), rs_metadata_store := st\<rparr>)"
proof -
  have "\<forall>(o', n') \<in> insert (off, n) (set (rs_offset_sizes r)). n' = 0 \<or> unat o' + unat n' \<le> raid_capacity r"
    using assms(1,3) by (simp add: sizes_fit_def)
  then show ?thesis
    using set_map_put [of off n "rs_offset_sizes r"] assms(2) by (auto simp add: sizes_fit_def)
qed

lemma raid_ok_recorded:
  assumes "raid_ok r" and "raid_ok r1"
  shows "raid_ok (r1\<lparr>rs_offset_sizes := map_put off n (rs_offset_sizes r),
    rs_metadata_store := Store_Save (rs_metadata_store r) (map_put off n (rs_offset_sizes r))\<rparr>)"
proof (rule raid_ok_record [OF assms(2)])
  show "map_inv (map_put off n (rs_offset_sizes r))"
    using raid_shapeD(8) [OF raid_ok_shape [OF assms(1)]] by simp
  show "store_reliable (Store_Save (rs_metadata_store r) (map_put off n (rs_offset_sizes r)))"
    using assms(1) by (intro store.reliable_save) (simp add: raid_ok_def)
qed

text \<open>One request, whatever its range below \<open>2 ^ 64\<close>, keeps health, mirrors and metadata.\<close>

lemma RAID_Write_keeps:
  assumes "raid_ok r" and "unat (m_offset d) + length (m_buffer d) < 2 ^ 64"
  shows "\<exists>r1 d1. RAID_Write r d = Returns (r1, d1) \<and> raid_ok r1 \<and>
    raid_capacity r1 = raid_capacity r \<and> (raid_mirrored r \<longrightarrow> raid_mirrored r1) \<and>
    (sizes_fit r \<longrightarrow> sizes_fit r1)"
proof -
  have n: "unat (vsize (m_buffer d)) = length (m_buffer d)"
    using assms(2) by (intro unat_vsize) linarith
  consider (inside) "unat (m_offset d) + length (m_buffer d) \<le> raid_capacity r"
    | (empty) "m_buffer d = []"
    | (beyond) "m_buffer d \<noteq> []" "raid_capacity r < unat (m_offset d) + length (m_buffer d)"
    by linarith
  then show ?thesis
  proof cases
    case inside
    let ?rec = "\<lambda>r1. r1\<lparr>rs_offset_sizes := map_put (m_offset d) (vsize (m_buffer d)) (rs_offset_sizes r),
            rs_metadata_store := Store_Save (rs_metadata_store r)
              (map_put (m_offset d) (vsize (m_buffer d)) (rs_offset_sizes r))\<rparr>"
    obtain r1 where w: "raid_wrote r r1 (unat (m_offset d)) (m_buffer d)"
      and run: "RAID_Write r d = Returns (?rec r1, d\<lparr>m_status := SUCCESS\<rparr>)"
      by (rule RAID_Write_inside [OF assms(1) inside])
    note cap = raid_wrote_fields(5) [OF w]
    have "raid_ok (?rec r1)" by (rule raid_ok_recorded [OF assms(1) raid_wroteD(1) [OF w]])
    moreover have "sizes_fit r \<longrightarrow> sizes_fit (?rec r1)"
      using inside by (intro impI sizes_fit_record [OF _ cap]) (simp_all add: n)
    ultimately show ?thesis
      using run raid_wroteD(3) [OF w] cap by simp
  next
    case empty
    then have "RAID_Write r d = Returns
        (r\<lparr>rs_offset_sizes := map_put (m_offset d) 0 (rs_offset_sizes r),
            rs_metadata_store := Store_Save (rs_metadata_store r) (map_put (m_offset d) 0 (rs_offset_sizes r))\<rparr>,
         d\<lparr>m_status := SUCCESS\<rparr>)"
      by (simp add: RAID_Write_def raid_write_loop.simps vsize_def Let_def)
    then show ?thesis
      using raid_ok_recorded [OF assms(1) assms(1)] sizes_fit_record [of r r] by simp
  next
    case beyond
    obtain r1 where w: "raid_wrote r r1 (unat (m_offset d))
        (take (raid_capacity r - unat (m_offset d)) (m_buffer d))"
      and run: "RAID_Write r d = Returns (r1, d\<lparr>m_status := FAILURE\<rparr>)"
      by (rule RAID_Write_beyond [OF assms(1) beyond assms(2)])
    show ?thesis
      using run raid_wroteD [OF w] raid_wrote_fields(3,5) [OF w] by (simp add: sizes_fit_def)
  qed
qed

section \<open>A small array for the witnesses\<close>

definition demo_raid :: raid where
  "demo_raid = \<lparr>is_size = 16, rs_minions = replicate 4 (Memory_minion (StorageMinionMemory 4)),
     rs_metadata_store = Memory_store [], rs_stripe_size = 4, rs_num_primary = 2,
     rs_minion_size = 4, rs_offset_sizes = []\<rparr>"

definition demo_write :: "size_t \<Rightarrow> vec \<Rightarrow> DriverData" where
  "demo_write off buf = (new_DriverData WRITE 1 off (vsize buf) SUCCESS)\<lparr>m_buffer := buf\<rparr>"

lemma demo_write_simps [simp]:
  "m_offset (demo_write off buf) = off" "m_buffer (demo_write off buf) = buf"
  "m_status (demo_write off buf) = SUCCESS" "m_len (demo_write off buf) = vsize buf"
  by (simp_all add: demo_write_def)

lemma demo_raid_capacity [simp]: "raid_capacity demo_raid = 8"
  by (simp add: raid_capacity_def demo_raid_def)

lemma demo_raid_ok [simp]: "raid_ok demo_raid"
  by (simp add: raid_ok_def raid_shape_def raid_capacity_def demo_raid_def)

lemma demo_raid_flat [simp]: "raid_flat demo_raid = [0, 0, 0, 0, 0, 0, 0, 0]"
  by (simp add: raid_flat_def demo_raid_def replicate_small)

lemma demo_raid_mirrored [simp]: "raid_mirrored demo_raid"
  by (simp add: raid_mirrored_def demo_raid_def)

section \<open>Properties\<close>

text \<open>The stripe map is a bijection: below the capacity every offset has its own cell (a
  primary and a position in it), every cell of every primary is reached, and no two offsets
  share one.\<close>

theorem raid_address_bijection:
  assumes "raid_shape r"
  shows "bij_betw (\<lambda>off. (PrimaryIndex r off, LocalOffset r off))
    {off. unat off < raid_capacity r}
    (Returns ` {p. unat p < raid_np r} \<times> Returns ` {l. unat l < raid_stripe r})"
proof (rule bij_betwI')
  fix a b :: size_t
  assume ab: "a \<in> {off. unat off < raid_capacity r}" "b \<in> {off. unat off < raid_capacity r}"
  obtain p l where a: "PrimaryIndex r a = Returns p" "LocalOffset r a = Returns l"
    using indices_defined [OF assms] .
  show "(PrimaryIndex r a, LocalOffset r a) = (PrimaryIndex r b, LocalOffset r b) \<longleftrightarrow> a = b"
  proof
    assume "(PrimaryIndex r a, LocalOffset r a) = (PrimaryIndex r b, LocalOffset r b)"
    then have "unat a = unat b"
      using address_below(3) [of a r p l] address_below(3) [of b r p l] a ab by simp
    then show "a = b" by (simp add: word_unat_eq_iff)
  qed simp
next
  fix a :: size_t
  assume "a \<in> {off. unat off < raid_capacity r}"
  moreover obtain p l where "PrimaryIndex r a = Returns p" "LocalOffset r a = Returns l"
    using indices_defined [OF assms] .
  ultimately show "(PrimaryIndex r a, LocalOffset r a)
      \<in> Returns ` {p. unat p < raid_np r} \<times> Returns ` {l. unat l < raid_stripe r}"
    using address_below(2) primary_in_range [OF assms] raid_shapeD(3) [OF assms] by simp
next
  fix c :: "size_t outcome \<times> size_t outcome"
  assume "c \<in> Returns ` {p. unat p < raid_np r} \<times> Returns ` {l. unat l < raid_stripe r}"
  then obtain p l where c: "c = (Returns p, Returns l)" and pl: "unat p < raid_np r" "unat l < raid_stripe r"
    by auto
  let ?n = "unat p * raid_stripe r + unat l"
  have "Suc (unat p) * raid_stripe r \<le> raid_np r * raid_stripe r" using pl(1) by (intro mult_le_mono1) simp
  then have n: "?n < raid_capacity r" using pl(2) by (simp add: raid_capacity_def)
  obtain off :: size_t where off: "unat off = ?n"
  proof
    have "?n < 2 ^ 64" using n raid_shapeD(4) [OF assms] by linarith
    then show "unat (of_nat ?n :: size_t) = ?n" by (simp only: unat_of_nat) simp
  qed
  obtain p' l' where a: "PrimaryIndex r off = Returns p'" "LocalOffset r off = Returns l'"
    using indices_defined [OF assms] .
  have "unat p' = unat p" "unat l' = unat l"
    using address_below(1,2) [OF _ a] n pl(2) by (simp_all add: off)
  then show "\<exists>off \<in> {off. unat off < raid_capacity r}. c = (PrimaryIndex r off, LocalOffset r off)"
    using n a off by (intro bexI [of _ off]) (simp_all add: c word_unat_eq_iff)
qed

theorem raid_address_bijection_witness:
  "bij_betw (\<lambda>off. (PrimaryIndex demo_raid off, LocalOffset demo_raid off))
    {off. unat off < raid_capacity demo_raid}
    (Returns ` {p. unat p < raid_np demo_raid} \<times> Returns ` {l. unat l < raid_stripe demo_raid})"
  by (rule raid_address_bijection) (rule raid_ok_shape [OF demo_raid_ok])

text \<open>C9: A write inside the capacity refines one copy into the flat vector: it reports SUCCESS,
  the flat vector holds the buffer at the offset and is unchanged elsewhere, the size is
  recorded and persisted, mirrors that agreed with their primaries still do, and the array
  stays healthy, however the range falls across stripes.\<close>

theorem raid_write_refines_flat:
  assumes "raid_ok r" and "unat (m_offset d) + length (m_buffer d) \<le> raid_capacity r"
  shows "\<exists>r'. RAID_Write r d = Returns (r', d\<lparr>m_status := SUCCESS\<rparr>) \<and> raid_ok r' \<and>
    raid_flat r' = copy_into (raid_flat r) (unat (m_offset d)) (m_buffer d) \<and>
    rs_offset_sizes r' = map_put (m_offset d) (vsize (m_buffer d)) (rs_offset_sizes r) \<and>
    Store_Load (rs_metadata_store r') = rs_offset_sizes r' \<and>
    (raid_mirrored r \<longrightarrow> raid_mirrored r')"
proof -
  let ?sizes = "map_put (m_offset d) (vsize (m_buffer d)) (rs_offset_sizes r)"
  let ?st = "Store_Save (rs_metadata_store r) ?sizes"
  obtain r1 where w: "raid_wrote r r1 (unat (m_offset d)) (m_buffer d)"
    and run: "RAID_Write r d = Returns
      (r1\<lparr>rs_offset_sizes := ?sizes, rs_metadata_store := ?st\<rparr>, d\<lparr>m_status := SUCCESS\<rparr>)"
    by (rule RAID_Write_inside [OF assms])
  have "Store_Load ?st = ?sizes"
    using assms(1) raid_shapeD(8) [OF raid_ok_shape [OF assms(1)]]
    by (intro store.load_save) (simp_all add: raid_ok_def)
  then show ?thesis
    using run raid_wroteD [OF w] raid_ok_recorded [OF assms(1) raid_wroteD(1) [OF w]] by simp
qed

theorem raid_write_refines_flat_witness:
  "\<exists>r'. RAID_Write demo_raid (demo_write 2 [1, 2, 3, 4, 5])
      = Returns (r', (demo_write 2 [1, 2, 3, 4, 5])\<lparr>m_status := SUCCESS\<rparr>) \<and>
    raid_flat r' = [0, 0, 1, 2, 3, 4, 5, 0] \<and> raid_mirrored r'"
proof -
  have "copy_into [0, 0, 0, 0, 0, 0, 0, 0] 2 [1, 2, 3, 4, 5 :: byte] = [0, 0, 1, 2, 3, 4, 5, 0]"
    by (simp add: copy_into_def)
  then show ?thesis
    using raid_write_refines_flat [of demo_raid "demo_write 2 [1, 2, 3, 4, 5]"] by auto
qed

text \<open>C10: A read inside the capacity of a healthy array returns exactly that range of the flat
  vector, with SUCCESS, whatever the request's buffer held.\<close>

theorem raid_read_refines_flat:
  assumes "raid_ok r" and "unat (m_offset d) + unat (m_len d) \<le> raid_capacity r"
  shows "RAID_Read r d = Returns
    (d\<lparr>m_buffer := subvec (raid_flat r) (unat (m_offset d)) (unat (m_len d)), m_status := SUCCESS\<rparr>)"
  by (rule RAID_Read_serves [OF raid_ok_shape [OF assms(1)] chunks_serve_ok [OF assms(1)] assms(2)])

theorem raid_read_refines_flat_witness:
  "RAID_Read demo_raid (new_DriverData READ 7 3 4 FAILURE) =
    Returns ((new_DriverData READ 7 3 4 FAILURE)\<lparr>m_buffer := subvec (raid_flat demo_raid) 3 4,
      m_status := SUCCESS\<rparr>)"
  using raid_read_refines_flat [of demo_raid "new_DriverData READ 7 3 4 FAILURE"] by simp

text \<open>It is enough that of every pair the primary works, or a mirror that agrees with it.\<close>

lemma chunks_serve_pairs:
  assumes "raid_shape r" and "\<forall>m \<in> set (rs_minions r). minion_sound m"
    and "\<forall>i < raid_np r. minion_ok (rs_minions r ! i) \<or> minion_ok (rs_minions r ! (raid_np r + i)) \<and>
      minion_content (rs_minions r ! (raid_np r + i)) = minion_content (rs_minions r ! i)"
  shows "chunks_serve r (raid_flat r)"
  unfolding chunks_serve_def
proof (intro conjI allI impI)
  have filled: "raid_filled r"
    using assms(1,2) by (auto simp add: raid_filled_def sound_content_length raid_shape_def)
  then show "length (raid_flat r) = raid_capacity r" by (rule length_raid_flat)
  fix off n :: size_t
  assume n: "0 < unat n" "unat off + unat n \<le> raid_capacity r"
    "unat n \<le> raid_stripe r - unat off mod raid_stripe r"
  obtain p l where pl: "PrimaryIndex r off = Returns p" "LocalOffset r off = Returns l"
    using indices_defined [OF assms(1)] .
  note w = within_stripe [OF assms(1) n(2,1,3) pl]
  let ?pm = "rs_minions r ! unat p" and ?mm = "rs_minions r ! (raid_np r + unat p)"
  let ?buf = "replicate (unat n) (0 :: byte)"
  let ?bytes = "subvec (minion_content ?pm) (unat l) (unat n)"
  have in_range: "unat p < length (rs_minions r)" "raid_np r + unat p < length (rs_minions r)"
    using w(1) raid_shapeD(1) [OF assms(1)] by simp_all
  then have sizes: "minion_Size ?pm = rs_stripe_size r" "minion_Size ?mm = rs_stripe_size r"
    using assms(1) by (simp_all add: raid_shape_def)
  have prim: "minion_Read ?pm l ?buf = Returns ?bytes \<or> (\<exists>e. minion_Read ?pm l ?buf = Throws e)"
    using sound_read [of ?pm l ?buf] assms(2) in_range(1) w(2) sizes(1) by simp
  have prim_ok: "minion_Read ?pm l ?buf = Returns ?bytes" if "minion_ok ?pm"
    using min.read_inside [OF that, of l ?buf] w(2) sizes(1) by simp
  have mirr_ok: "minion_Read ?mm l ?buf = Returns ?bytes"
    if "minion_ok ?mm" and "minion_content ?mm = minion_content ?pm"
    using min.read_inside [OF that(1), of l ?buf] w(2) sizes(2) that(2) by simp
  have "minion_ok ?pm \<or> minion_ok ?mm \<and> minion_content ?mm = minion_content ?pm" using assms(3) w(1) by blast
  then have "raid_read_chunk r off n = Returns ?bytes"
    using prim prim_ok mirr_ok in_range
    by (auto simp add: raid_read_chunk_def pl Let_def minion_at_def unat_MirrorIndex [OF assms(1) w(1)])
  then show "raid_read_chunk r off n = Returns (subvec (raid_flat r) (unat off) (unat n))"
    using subvec_raid_flat [OF filled w(1,2)] by (simp add: w(3))
qed

lemma chunks_serve_failover:
  assumes "raid_shape r" and "\<forall>m \<in> set (rs_minions r). minion_sound m" and "raid_mirrored r"
    and "\<forall>i < raid_np r. minion_ok (rs_minions r ! i) \<or> minion_ok (rs_minions r ! (raid_np r + i))"
  shows "chunks_serve r (raid_flat r)"
  using assms(3,4) by (intro chunks_serve_pairs [OF assms(1,2)]) (auto simp add: raid_mirrored_def)

text \<open>C11: Failover: with one working copy of every stripe (the primary or its mirror; the other
  one may fail or serve short reads on any call), an array whose mirrors agree serves every
  read inside the capacity as if all disks worked.\<close>

theorem raid_read_failover:
  assumes "raid_shape r" and "\<forall>m \<in> set (rs_minions r). minion_sound m" and "raid_mirrored r"
    and "\<forall>i < raid_np r. minion_ok (rs_minions r ! i) \<or> minion_ok (rs_minions r ! (raid_np r + i))"
    and "unat (m_offset d) + unat (m_len d) \<le> raid_capacity r"
  shows "RAID_Read r d = Returns
    (d\<lparr>m_buffer := subvec (raid_flat r) (unat (m_offset d)) (unat (m_len d)), m_status := SUCCESS\<rparr>)"
  by (rule RAID_Read_serves [OF assms(1) chunks_serve_failover [OF assms(1-4)] assms(5)])

text \<open>An array of one primary whose disk answers nothing, and its mirror in memory.\<close>

definition demo_broken :: raid where
  "demo_broken = \<lparr>is_size = 8,
     rs_minions = [File_minion \<lparr>mf_fd = 5, mf_file_path = ''m0'', mf_size = 4, mf_offset_sizes = [],
         mf_disk = \<lparr>df_bytes = [1, 2, 3, 4], df_on_read = \<lambda>_ _. Io_error,
           df_on_write = \<lambda>_ _. Io_error\<rparr>\<rparr>,
       Memory_minion \<lparr>mm_data = [1, 2, 3, 4], mm_size = 4, mm_offset_sizes = []\<rparr>],
     rs_metadata_store = Memory_store [], rs_stripe_size = 4, rs_num_primary = 1,
     rs_minion_size = 4, rs_offset_sizes = []\<rparr>"

theorem raid_read_failover_witness:
  "RAID_Read demo_broken (new_DriverData READ 7 1 2 FAILURE) =
    Returns ((new_DriverData READ 7 1 2 FAILURE)\<lparr>m_buffer := [2, 3], m_status := SUCCESS\<rparr>)"
proof -
  have flat: "raid_flat demo_broken = [1, 2, 3, 4]"
    by (simp add: raid_flat_def demo_broken_def file_content_def)
  have "subvec [1, 2, 3, 4 :: byte] 1 2 = [2, 3]"
    by (simp add: subvec_def eval_nat_numeral)
  moreover have "raid_shape demo_broken"
    by (simp add: raid_shape_def demo_broken_def raid_capacity_def)
  moreover have "\<forall>m \<in> set (rs_minions demo_broken). minion_sound m"
    by (simp add: demo_broken_def memory_ok_def)
  moreover have "raid_mirrored demo_broken"
    by (simp add: raid_mirrored_def demo_broken_def file_content_def)
  moreover have "\<forall>i < raid_np demo_broken. minion_ok (rs_minions demo_broken ! i)
      \<or> minion_ok (rs_minions demo_broken ! (raid_np demo_broken + i))"
    by (simp add: demo_broken_def memory_ok_def)
  moreover have "raid_capacity demo_broken = 4"
    by (simp add: raid_capacity_def demo_broken_def)
  ultimately show ?thesis
    using raid_read_failover [of demo_broken "new_DriverData READ 7 1 2 FAILURE"] flat by simp
qed

text \<open>A write that reaches beyond the capacity is refused: it reports FAILURE, and neither
  the recorded sizes nor the persisted metadata change. It is not undone, though: the bytes
  in front of the capacity have been written, to primaries and mirrors alike.\<close>

theorem raid_write_refused:
  assumes "raid_ok r" and "m_buffer d \<noteq> []"
    and "raid_capacity r < unat (m_offset d) + length (m_buffer d)"
    and "unat (m_offset d) + length (m_buffer d) < 2 ^ 64"
  shows "\<exists>r'. RAID_Write r d = Returns (r', d\<lparr>m_status := FAILURE\<rparr>) \<and> raid_ok r' \<and>
    rs_offset_sizes r' = rs_offset_sizes r \<and> rs_metadata_store r' = rs_metadata_store r \<and>
    raid_flat r' = copy_into (raid_flat r) (unat (m_offset d))
      (take (raid_capacity r - unat (m_offset d)) (m_buffer d)) \<and>
    (raid_mirrored r \<longrightarrow> raid_mirrored r')"
proof -
  obtain r1 where w: "raid_wrote r r1 (unat (m_offset d))
      (take (raid_capacity r - unat (m_offset d)) (m_buffer d))"
    and run: "RAID_Write r d = Returns (r1, d\<lparr>m_status := FAILURE\<rparr>)"
    by (rule RAID_Write_beyond [OF assms])
  then show ?thesis
    using run raid_wroteD [OF w] raid_wrote_fields(3,4) [OF w] by simp
qed

theorem raid_write_refused_witness:
  "\<exists>r'. RAID_Write demo_raid (demo_write 6 [1, 2, 3])
      = Returns (r', (demo_write 6 [1, 2, 3])\<lparr>m_status := FAILURE\<rparr>) \<and>
    rs_offset_sizes r' = [] \<and> raid_flat r' = [0, 0, 0, 0, 0, 0, 1, 2]"
proof -
  have "copy_into [0, 0, 0, 0, 0, 0, 0, 0] 6 (take 2 [1, 2, 3 :: byte]) = [0, 0, 0, 0, 0, 0, 1, 2]"
    by (simp add: copy_into_def)
  moreover have "rs_offset_sizes demo_raid = []" by (simp add: demo_raid_def)
  ultimately show ?thesis
    using raid_write_refused [of demo_raid "demo_write 6 [1, 2, 3]"] by auto
qed

text \<open>C13: Any run of write requests with ranges below \<open>2 ^ 64\<close>, accepted or refused, leaves a
  healthy array: no request ends undefined or with an exception, every mirror agrees with its
  primary, and every recorded range lies inside the array.\<close>

theorem raid_run_invariant:
  assumes "raid_ok r" and "raid_mirrored r" and "sizes_fit r"
    and "\<forall>d \<in> set ds. unat (m_offset d) + length (m_buffer d) < 2 ^ 64"
  shows "\<exists>r'. RAID_Writes r ds = Returns r' \<and> raid_ok r' \<and> raid_mirrored r' \<and> sizes_fit r' \<and>
    raid_capacity r' = raid_capacity r"
  using assms
proof (induction ds arbitrary: r)
  case Nil
  then show ?case by simp
next
  case (Cons d ds)
  obtain r1 d1 where r1: "RAID_Write r d = Returns (r1, d1)" "raid_ok r1" "raid_mirrored r1"
    "sizes_fit r1" "raid_capacity r1 = raid_capacity r"
    using RAID_Write_keeps [OF Cons.prems(1), of d] Cons.prems(2-4) by auto
  then obtain r' where "RAID_Writes r1 ds = Returns r'" "raid_ok r'" "raid_mirrored r'"
    "sizes_fit r'" "raid_capacity r' = raid_capacity r1"
    using Cons.IH [OF r1(2-4)] Cons.prems(4) by auto
  then show ?case using r1 by simp
qed

theorem raid_run_invariant_witness:
  "\<exists>r'. RAID_Writes demo_raid [demo_write 2 [1, 2, 3, 4, 5], demo_write 7 [9, 9], demo_write 0 []]
      = Returns r' \<and> raid_ok r' \<and> raid_mirrored r' \<and> sizes_fit r' \<and>
    raid_capacity r' = raid_capacity demo_raid"
  by (rule raid_run_invariant) (simp_all add: sizes_fit_def, simp add: demo_raid_def)

end
