(* ===== verification/Raid_Limits.thy ===== *)
theory Raid_Limits
  imports Raid_Properties
begin

text \<open>
  Where the promises of the RAID layer end on a single thread: a stripe of zero bytes, and an
  offset at the end of the 64-bit range on an array of one primary.
\<close>

section \<open>No stripe\<close>

text \<open>With minions of size zero, which the constructor accepts, every request that carries
  data divides by the stripe size zero.\<close>

theorem raid_zero_stripe:
  assumes "RAIDStorage minions store = Returns r" and "minion_Size (hd minions) = 0"
  shows "(m_len d \<noteq> 0 \<longrightarrow> RAID_Read r d = Undef) \<and>
    (vsize (m_buffer d) \<noteq> 0 \<longrightarrow> RAID_Write r d = Undef)"
proof -
  have "rs_stripe_size r = 0"
    using assms by (auto simp add: RAIDStorage_def Let_def split: if_splits)
  then show ?thesis
    by (auto simp add: RAID_Read_def RAID_Write_def raid_read_loop.simps raid_write_loop.simps Let_def)
qed

theorem raid_zero_stripe_witness:
  "\<exists>r. RAIDStorage (replicate 2 (Memory_minion (StorageMinionMemory 0))) (Memory_store []) = Returns r \<and>
    RAID_Read r (new_DriverData READ 1 0 1 SUCCESS) = Undef"
proof -
  let ?ms = "replicate 2 (Memory_minion (StorageMinionMemory 0))"
  obtain r where r: "RAIDStorage ?ms (Memory_store []) = Returns r"
    by (simp add: RAIDStorage_def vsize_def Let_def)
  moreover have "RAID_Read r (new_DriverData READ 1 0 1 SUCCESS) = Undef"
    using raid_zero_stripe [OF r, of "new_DriverData READ 1 0 1 SUCCESS"] by (simp add: replicate_small)
  ultimately show ?thesis by blast
qed

section \<open>The last offset\<close>

text \<open>With one primary the local offset is the offset.\<close>

lemma LocalOffset_single:
  assumes "raid_shape r" and "rs_num_primary r = 1"
  shows "LocalOffset r off = Returns off" and "PrimaryIndex r off = Returns 0"
proof -
  have "off div rs_stripe_size r * rs_stripe_size r + off mod rs_stripe_size r = off"
    by (rule div_mult_mod_eq)
  then show "LocalOffset r off = Returns off"
    using raid_shapeD(5) [OF assms(1)] assms(2) by (simp add: LocalOffset_def Let_def)
  show "PrimaryIndex r off = Returns 0"
    using raid_shapeD(5) [OF assms(1)] assms(2)
    by (simp add: PrimaryIndex_def Let_def word_unat_eq_iff unat_mod)
qed

lemma memory_wraps:
  assumes "memory_ok m" and "length buf = 1" and "off = 18446744073709551615"
  shows "memory_Read m off buf = Undef" and "snd (memory_Write m off buf) = Undef"
proof -
  have unat_off: "unat off = 18446744073709551615" using assms(3) by simp
  have "vsize buf = 1" using assms(2) by (simp add: vsize_def)
  moreover have "length (mm_data m) < 2 ^ 64"
    using assms(1) unat_lt_size [of "mm_size m"] by (simp add: memory_ok_def)
  moreover have "off + 1 = 0" using assms(3) by (simp add: word_unat_eq_iff unat_word_ariths)
  ultimately show "memory_Read m off buf = Undef" "snd (memory_Write m off buf) = Undef"
    using assms(2) unat_off by (simp_all add: memory_Read_def memory_Write_def)
qed

text \<open>On a healthy array of one primary in memory a request for the single byte at the last
  offset, \<open>2 ^ 64 - 1\<close>, passes the bounds check of the minion, whose sum wraps around to zero,
  and reads or writes outside its vector. A TCP client may send such a request.\<close>

theorem raid_last_offset:
  assumes "raid_ok r" and "rs_num_primary r = 1"
    and "rs_minions r ! 0 = Memory_minion m"
    and "m_offset d = 18446744073709551615" and "m_len d = 1" and "length (m_buffer d) = 1"
  shows "RAID_Read r d = Undef \<and> RAID_Write r d = Undef"
proof -
  note shape = raid_ok_shape [OF assms(1)]
  have "memory_ok m"
    using raid_ok_minion [OF assms(1), of 0] raid_shapeD(2) [OF shape] assms(3) by simp
  note wrap = memory_wraps [OF this]
  have one: "vsize (m_buffer d) = 1" using assms(6) by (simp add: vsize_def)
  have "unat (chunk_len r (m_offset d) 1) = 1"
    using chunk_facts(1,2) [OF shape, of 1 "m_offset d"] by simp
  then have chunk: "chunk_len r (m_offset d) 1 = 1" by (simp add: word_unat_eq_iff)
  have at: "minion_at r 0 = Returns (Memory_minion m)"
    using raid_shapeD(1,2) [OF shape] assms(3) by (simp add: minion_at_def)
  have rchunk: "raid_read_chunk r (m_offset d) 1 = Undef"
    using wrap(1) assms(4) by (simp add: raid_read_chunk_def LocalOffset_single [OF shape assms(2)] at)
  obtain m' where m': "memory_Write m (m_offset d) (subvec (m_buffer d) 0 1) = (m', Undef)"
    using wrap(2) [of "subvec (m_buffer d) 0 1" "m_offset d"] assms(4,6) by (metis prod.collapse length_subvec add_0 order_refl)
  have "snd (raid_write_chunk r (m_offset d) (subvec (m_buffer d) 0 1)) = Undef"
    using m' by (simp add: raid_write_chunk_def LocalOffset_single [OF shape assms(2)] at raid_minion_write_def)
  then obtain r' where wchunk: "raid_write_chunk r (m_offset d) (subvec (m_buffer d) 0 1) = (r', Undef)"
    by (metis prod.collapse)
  have nz: "rs_stripe_size r \<noteq> 0" by (rule raid_shapeD(5) [OF shape])
  have "RAID_Read r d = Undef"
    using nz rchunk assms(5) by (simp add: RAID_Read_def raid_read_loop.simps chunk Let_def)
  moreover have "RAID_Write r d = Undef"
    using nz wchunk by (simp add: RAID_Write_def one raid_write_loop.simps chunk Let_def)
  ultimately show ?thesis ..
qed

definition demo_pair :: raid where
  "demo_pair = \<lparr>is_size = 8, rs_minions = replicate 2 (Memory_minion (StorageMinionMemory 4)),
     rs_metadata_store = Memory_store [], rs_stripe_size = 4, rs_num_primary = 1,
     rs_minion_size = 4, rs_offset_sizes = []\<rparr>"

lemma demo_pair_ok: "raid_ok demo_pair"
  by (simp add: raid_ok_def raid_shape_def raid_capacity_def demo_pair_def)

theorem raid_last_offset_witness:
  "RAID_Read demo_pair (demo_write 18446744073709551615 [7]) = Undef \<and>
   RAID_Write demo_pair (demo_write 18446744073709551615 [7]) = Undef"
  by (rule raid_last_offset [OF demo_pair_ok, where m = "StorageMinionMemory 4"])
     (simp_all add: demo_pair_def vsize_def)

end
