(* ===== verification/Raid_Degraded.thy ===== *)
theory Raid_Degraded
  imports Raid_Properties
begin

text \<open>
  \<^verbatim>\<open>RAIDStorage\<close> with disks that take no writes any more, such as a file system that has been
  remounted read-only. A read falls back to the other minion of a pair; a write needs both.
\<close>

section \<open>Disks that refuse writes\<close>

fun write_dead :: "minion \<Rightarrow> bool" where
  "write_dead (Memory_minion m) \<longleftrightarrow> False"
| "write_dead (File_minion m) \<longleftrightarrow> (\<forall>off n. df_on_write (mf_disk m) off n = Io_error)"

lemma dead_not_ok: "minion_ok m \<Longrightarrow> \<not> write_dead m"
  by (cases m) (auto simp add: file_ok_def disk_answers_def)

lemma ok_sound: "minion_ok m \<Longrightarrow> minion_sound m"
  by (cases m) (simp_all add: file_ok_def)

lemma dead_write:
  assumes "write_dead m" and "unat l + length c \<le> unat (minion_Size m)"
  shows "minion_Write m l c = (m, Throws (Runtime_error ''pwrite failed''))"
proof (cases m)
  case (Memory_minion f)
  then show ?thesis using assms(1) by simp
next
  case (File_minion f)
  then have "sys_pwrite (mf_disk f) c l = (mf_disk f, None)" using assms(1) by (simp add: sys_pwrite_def)
  moreover have "\<not> l + vsize c > mf_size f" using assms(2) File_minion by (intro bound_check_passes) simp
  ultimately show ?thesis using File_minion by (simp add: file_Write_def)
qed

definition dead_at :: "raid \<Rightarrow> nat \<Rightarrow> bool" where
  "dead_at r = nth (map write_dead (rs_minions r))"

text \<open>A pair that takes no writes: its primary or its mirror is dead.\<close>

definition broken :: "raid \<Rightarrow> nat \<Rightarrow> bool" where
  "broken r p \<longleftrightarrow> dead_at r p \<or> dead_at r (raid_np r + p)"

text \<open>
  An array with dead disks: of every pair one minion works in full, and where the mirror takes
  writes it agrees with its primary.
\<close>

definition degraded :: "raid \<Rightarrow> bool" where
  "degraded r \<longleftrightarrow> raid_shape r \<and> store_reliable (rs_metadata_store r) \<and>
     (\<forall>m \<in> set (rs_minions r). minion_ok m \<or> write_dead m \<and> minion_sound m) \<and>
     (\<forall>p < raid_np r. minion_ok (rs_minions r ! p) \<or> minion_ok (rs_minions r ! (raid_np r + p))) \<and>
     (\<forall>p < raid_np r. \<not> write_dead (rs_minions r ! (raid_np r + p)) \<longrightarrow>
        minion_content (rs_minions r ! (raid_np r + p)) = minion_content (rs_minions r ! p))"

lemma degradedD:
  assumes "degraded r"
  shows "raid_shape r" and "\<forall>m \<in> set (rs_minions r). minion_sound m"
    and "i < 2 * raid_np r \<Longrightarrow> dead_at r i \<longleftrightarrow> write_dead (rs_minions r ! i)"
    and "i < 2 * raid_np r \<Longrightarrow> \<not> dead_at r i \<Longrightarrow> minion_ok (rs_minions r ! i)"
    and "raid_filled r"
proof -
  show sh: "raid_shape r" and sound: "\<forall>m \<in> set (rs_minions r). minion_sound m"
    using assms ok_sound by (auto simp add: degraded_def)
  show at: "i < 2 * raid_np r \<Longrightarrow> dead_at r i \<longleftrightarrow> write_dead (rs_minions r ! i)"
    using raid_shapeD(1) [OF sh] by (simp add: dead_at_def)
  show "i < 2 * raid_np r \<Longrightarrow> \<not> dead_at r i \<Longrightarrow> minion_ok (rs_minions r ! i)"
    using at assms raid_shapeD(1) [OF sh] nth_mem [of i "rs_minions r"] by (auto simp add: degraded_def)
  show "raid_filled r"
    using sh sound by (auto simp add: raid_filled_def sound_content_length raid_shape_def)
qed

lemma degraded_serves:
  assumes "degraded r"
  shows "chunks_serve r (raid_flat r)"
proof (rule chunks_serve_pairs [OF degradedD(1,2) [OF assms]])
  show "\<forall>i < raid_np r. minion_ok (rs_minions r ! i) \<or> minion_ok (rs_minions r ! (raid_np r + i)) \<and>
      minion_content (rs_minions r ! (raid_np r + i)) = minion_content (rs_minions r ! i)"
    using assms dead_not_ok by (auto simp add: degraded_def)
qed

section \<open>One round\<close>

definition degraded_wrote :: "raid \<Rightarrow> raid \<Rightarrow> nat \<Rightarrow> vec \<Rightarrow> bool" where
  "degraded_wrote r r' off c \<longleftrightarrow> r' = r\<lparr>rs_minions := rs_minions r'\<rparr> \<and> degraded r' \<and>
     dead_at r' = dead_at r \<and> raid_flat r' = copy_into (raid_flat r) off c"

lemma degraded_wrote_nothing: "degraded r \<Longrightarrow> degraded_wrote r r off []"
  by (simp add: degraded_wrote_def)

lemma degraded_wrote_fields:
  assumes "degraded_wrote r r' off c"
  shows "rs_stripe_size r' = rs_stripe_size r" and "rs_num_primary r' = rs_num_primary r"
    and "rs_offset_sizes r' = rs_offset_sizes r" and "rs_metadata_store r' = rs_metadata_store r"
    and "raid_capacity r' = raid_capacity r" and "broken r' = broken r"
proof -
  have r': "r' = r\<lparr>rs_minions := rs_minions r'\<rparr>" using assms by (simp add: degraded_wrote_def)
  show f: "rs_stripe_size r' = rs_stripe_size r" "rs_num_primary r' = rs_num_primary r"
    "rs_offset_sizes r' = rs_offset_sizes r" "rs_metadata_store r' = rs_metadata_store r"
    by (subst r', simp)+
  show "raid_capacity r' = raid_capacity r" "broken r' = broken r"
    using f assms by (simp_all add: raid_capacity_def broken_def degraded_wrote_def fun_eq_iff)
qed

lemma degraded_wrote_append:
  assumes "degraded r" and "degraded_wrote r r1 off a" and "degraded_wrote r1 r2 (off + length a) b"
    and "off + length a + length b \<le> raid_capacity r"
  shows "degraded_wrote r r2 off (a @ b)"
proof -
  have "r2 = r\<lparr>rs_minions := rs_minions r2\<rparr>"
    using assms(2,3) unfolding degraded_wrote_def by (metis raid.surjective raid.update_convs(2))
  moreover have "raid_flat r2 = copy_into (raid_flat r) off (a @ b)"
    using assms copy_into_append [of off a b "raid_flat r"]
    by (simp add: degraded_wrote_def length_raid_flat degradedD(5))
  ultimately show ?thesis using assms(2,3) by (simp add: degraded_wrote_def)
qed

lemma write_to_dead:
  assumes "raid_shape r" and "unat i < 2 * raid_np r" and "write_dead (rs_minions r ! unat i)"
    and "unat l + length c \<le> raid_stripe r"
  shows "raid_minion_write r i l c = (r, Throws (Runtime_error ''pwrite failed''))"
  using dead_write [OF assms(3), of l c] assms(2,4) raid_shapeD(1) [OF assms(1)] raid_shape_size [OF assms(1,2)]
  by (simp add: raid_minion_write_def minion_at_def)

text \<open>A new primary with the chunk in it, and a mirror that got it too or is dead.\<close>

lemma degraded_update:
  assumes "degraded r" and "p < raid_np r" and "l + length c \<le> raid_stripe r"
    and "\<not> dead_at r p" and "minion_ok m1" and "minion_Size m1 = rs_stripe_size r"
    and "minion_content m1 = copy_into (minion_content (rs_minions r ! p)) l c"
    and "ms = (rs_minions r)[p := m1] \<and> dead_at r (raid_np r + p) \<or>
      (\<exists>m2. ms = (rs_minions r)[p := m1, raid_np r + p := m2] \<and> \<not> dead_at r (raid_np r + p) \<and> minion_ok m2 \<and>
        minion_Size m2 = rs_stripe_size r \<and>
        minion_content m2 = copy_into (minion_content (rs_minions r ! (raid_np r + p))) l c)"
  shows "degraded_wrote r (r\<lparr>rs_minions := ms\<rparr>) (p * raid_stripe r + l) c"
proof -
  let ?ms = "rs_minions r" and ?q = "raid_np r + p"
  note sh = degradedD(1) [OF assms(1)]
  note len = raid_shapeD(1) [OF sh]
  have len': "length ms = length ?ms" using assms(8) by auto
  have other: "ms ! i = ?ms ! i" if "i \<noteq> p" "i \<noteq> ?q" for i using assms(8) that by auto
  have prim: "ms ! p = m1" using assms(2,8) len by auto
  have mirr: "if dead_at r ?q then ms ! ?q = ?ms ! ?q
      else minion_ok (ms ! ?q) \<and> minion_Size (ms ! ?q) = rs_stripe_size r \<and>
        minion_content (ms ! ?q) = copy_into (minion_content (?ms ! ?q)) l c"
    using assms(2,8) len by auto
  have usable: "minion_Size (ms ! i) = rs_stripe_size r \<and> (minion_ok (ms ! i) \<or> write_dead (ms ! i) \<and> minion_sound (ms ! i)) \<and>
      (write_dead (ms ! i) \<longleftrightarrow> write_dead (?ms ! i))" if i: "i < 2 * raid_np r" for i
  proof -
    have "minion_Size (?ms ! i) = rs_stripe_size r" by (rule raid_shape_size [OF sh i])
    moreover have "minion_ok (?ms ! i) \<or> write_dead (?ms ! i) \<and> minion_sound (?ms ! i)"
      using assms(1) i len nth_mem [of i ?ms] by (auto simp add: degraded_def)
    moreover have "\<not> write_dead (?ms ! p)" using assms(2,4) degradedD(3) [OF assms(1), of p] by simp
    moreover have "dead_at r ?q \<longleftrightarrow> write_dead (?ms ! ?q)" using assms(2) degradedD(3) [OF assms(1), of ?q] by simp
    ultimately show ?thesis
      using other [of i] prim mirr assms(5,6) dead_not_ok by (cases "i = p \<or> i = ?q") (auto split: if_splits)
  qed
  have shape: "raid_shape (r\<lparr>rs_minions := ms\<rparr>)"
    using sh usable len len' by (auto simp add: raid_shape_def raid_capacity_def in_set_conv_nth)
  have same_dead: "dead_at (r\<lparr>rs_minions := ms\<rparr>) = dead_at r"
  proof -
    have "map write_dead ms = map write_dead ?ms" using usable len len' by (intro nth_equalityI) simp_all
    then show ?thesis by (simp add: dead_at_def)
  qed
  have "degraded (r\<lparr>rs_minions := ms\<rparr>)"
    unfolding degraded_def
  proof (intro conjI allI impI ballI)
    show "raid_shape (r\<lparr>rs_minions := ms\<rparr>)" by (rule shape)
    show "store_reliable (rs_metadata_store (r\<lparr>rs_minions := ms\<rparr>))" using assms(1) by (simp add: degraded_def)
    show "minion_ok m \<or> write_dead m \<and> minion_sound m" if "m \<in> set (rs_minions (r\<lparr>rs_minions := ms\<rparr>))" for m
      using that usable len len' by (auto simp add: in_set_conv_nth)
    fix i
    assume "i < raid_np (r\<lparr>rs_minions := ms\<rparr>)"
    then have i: "i < raid_np r" by simp
    have old: "minion_ok (?ms ! i) \<or> minion_ok (?ms ! (raid_np r + i))"
      "\<not> write_dead (?ms ! (raid_np r + i)) \<Longrightarrow> minion_content (?ms ! (raid_np r + i)) = minion_content (?ms ! i)"
      using assms(1) i by (auto simp add: degraded_def)
    show "minion_ok (rs_minions (r\<lparr>rs_minions := ms\<rparr>) ! i) \<or>
        minion_ok (rs_minions (r\<lparr>rs_minions := ms\<rparr>) ! (raid_np (r\<lparr>rs_minions := ms\<rparr>) + i))"
      using old(1) other [of i] other [of "raid_np r + i"] prim assms(2,5) i by (cases "i = p") auto
    show "minion_content (rs_minions (r\<lparr>rs_minions := ms\<rparr>) ! (raid_np (r\<lparr>rs_minions := ms\<rparr>) + i)) =
        minion_content (rs_minions (r\<lparr>rs_minions := ms\<rparr>) ! i)"
      if "\<not> write_dead (rs_minions (r\<lparr>rs_minions := ms\<rparr>) ! (raid_np (r\<lparr>rs_minions := ms\<rparr>) + i))"
    proof (cases "i = p")
      case True
      have "\<not> write_dead (?ms ! ?q)" using that usable [of ?q] assms(2) True by simp
      then show ?thesis
        using True old(2) mirr prim assms(2,7) degradedD(3) [OF assms(1), of ?q] by simp
    next
      case False
      then show ?thesis using that old(2) other [of i] other [of "raid_np r + i"] i assms(2) by simp
    qed
  qed
  moreover have "raid_flat (r\<lparr>rs_minions := ms\<rparr>) = copy_into (raid_flat r) (p * raid_stripe r + l) c"
  proof -
    let ?cs = "map minion_content (take (raid_np r) ?ms)"
    have "map minion_content (take (raid_np r) ms) = ?cs[p := copy_into (?cs ! p) l c]"
      using other prim assms(2,7) len len' by (intro nth_equalityI) (auto simp add: nth_list_update)
    then have "raid_flat (r\<lparr>rs_minions := ms\<rparr>) = concat (?cs[p := copy_into (?cs ! p) l c])"
      by (simp add: raid_flat_def)
    also have "\<dots> = copy_into (raid_flat r) (p * raid_stripe r + l) c"
      unfolding raid_flat_def using assms(2,3) len
      by (intro copy_into_concat raid_flat_parts [OF degradedD(5) [OF assms(1)]]) simp_all
    finally show ?thesis .
  qed
  ultimately show ?thesis using same_dead by (simp add: degraded_wrote_def)
qed

lemma degraded_chunk:
  assumes "degraded r" and "0 < length c" and "unat off + length c \<le> raid_capacity r"
    and "length c \<le> raid_stripe r - unat off mod raid_stripe r" and "p = unat off div raid_stripe r"
  shows "\<exists>r'. raid_write_chunk r off c =
      (r', if broken r p then Throws (Runtime_error ''pwrite failed'') else Returns ()) \<and>
    degraded_wrote r r' (unat off) (if dead_at r p then [] else c)"
proof -
  note sh = degradedD(1) [OF assms(1)]
  obtain i l where pl: "PrimaryIndex r off = Returns i" "LocalOffset r off = Returns l"
    using indices_defined [OF sh] .
  note w = within_stripe [OF sh assms(3,2,4) pl]
  have i: "unat i = p" using address_below(1) [OF _ pl] assms(2,3,5) by simp
  then have i2: "unat i < 2 * raid_np r" using w(1) by simp
  have q: "unat (MirrorIndex r i) = raid_np r + p" using unat_MirrorIndex [OF sh w(1)] i by simp
  show ?thesis
  proof (cases "dead_at r p")
    case True
    then have "raid_minion_write r i l c = (r, Throws (Runtime_error ''pwrite failed''))"
      using degradedD(3) [OF assms(1) i2] i w(2) by (intro write_to_dead [OF sh i2]) simp_all
    then show ?thesis
      using True degraded_wrote_nothing [OF assms(1)] by (simp add: raid_write_chunk_def pl broken_def)
  next
    case False
    then have ok: "minion_ok (rs_minions r ! unat i)" using degradedD(4) [OF assms(1) i2] i by simp
    obtain m1 where m1: "raid_minion_write r i l c = (r\<lparr>rs_minions := (rs_minions r)[unat i := m1]\<rparr>, Returns ())"
      "minion_ok m1" "minion_Size m1 = rs_stripe_size r"
      "minion_content m1 = copy_into (minion_content (rs_minions r ! unat i)) (unat l) c"
      by (rule write_to_ok [OF sh i2 ok w(2)])
    let ?r1 = "r\<lparr>rs_minions := (rs_minions r)[unat i := m1]\<rparr>"
    have sh1: "raid_shape ?r1"
      using sh m1(3) set_update_subset_insert [of "rs_minions r" "unat i" m1]
      by (auto simp add: raid_shape_def raid_capacity_def)
    have q2: "unat (MirrorIndex r i) < 2 * raid_np ?r1" using q i w(1) by simp
    have here: "rs_minions ?r1 ! unat (MirrorIndex r i) = rs_minions r ! (raid_np r + p)"
      using q i w(1) by simp
    have dead_q: "dead_at r (raid_np r + p) \<longleftrightarrow> write_dead (rs_minions r ! (raid_np r + p))"
      using degradedD(3) [OF assms(1), of "raid_np r + p"] w(1) i by simp
    note update = degraded_update [OF assms(1), of p "unat l" c m1]
    show ?thesis
    proof (cases "dead_at r (raid_np r + p)")
      case True
      have "raid_minion_write ?r1 (MirrorIndex r i) l c = (?r1, Throws (Runtime_error ''pwrite failed''))"
        using True w(2) here dead_q by (intro write_to_dead [OF sh1 q2]) simp_all
      moreover have "degraded_wrote r ?r1 (p * raid_stripe r + unat l) c"
        using update [of "(rs_minions r)[p := m1]"] True False w(1,2) m1(2-4) i by simp
      ultimately show ?thesis
        using True False m1(1) w(3) i by (simp add: raid_write_chunk_def pl broken_def)
    next
      case alive: False
      then have ok2: "minion_ok (rs_minions ?r1 ! unat (MirrorIndex r i))"
        using degradedD(4) [OF assms(1), of "raid_np r + p"] w(1) i here by simp
      have fits: "unat l + length c \<le> raid_stripe ?r1" using w(2) by simp
      obtain m2 where m2: "raid_minion_write ?r1 (MirrorIndex r i) l c =
          (?r1\<lparr>rs_minions := (rs_minions ?r1)[unat (MirrorIndex r i) := m2]\<rparr>, Returns ())"
        "minion_ok m2" "minion_Size m2 = rs_stripe_size ?r1"
        "minion_content m2 = copy_into (minion_content (rs_minions ?r1 ! unat (MirrorIndex r i))) (unat l) c"
        by (rule write_to_ok [OF sh1 q2 ok2 fits])
      let ?r2 = "r\<lparr>rs_minions := (rs_minions r)[p := m1, raid_np r + p := m2]\<rparr>"
      have "degraded_wrote r ?r2 (p * raid_stripe r + unat l) c"
        using update [of "(rs_minions r)[p := m1, raid_np r + p := m2]"] alive False w(1,2) m1(2-4) m2(2-4) i here
        by auto
      then show ?thesis
        using alive False m1(1) m2(1) w(3) i q by (simp add: raid_write_chunk_def pl broken_def)
    qed
  qed
qed

section \<open>The loop\<close>

text \<open>
  How many of \<open>n\<close> bytes from \<open>off\<close> reach the primaries: all in front of the first broken pair, and
  those of its chunk when it is the mirror that is dead.
\<close>

fun reached :: "raid \<Rightarrow> nat \<Rightarrow> nat \<Rightarrow> nat" where
  "reached r off 0 = 0"
| "reached r off (Suc n) =
     (if dead_at r (off div raid_stripe r) then 0
      else if dead_at r (raid_np r + off div raid_stripe r) then min (Suc n) (raid_stripe r - off mod raid_stripe r)
      else Suc (reached r (Suc off) n))"

definition meets_broken :: "raid \<Rightarrow> nat \<Rightarrow> nat \<Rightarrow> bool" where
  "meets_broken r off n \<longleftrightarrow> (\<exists>x < n. broken r ((off + x) div raid_stripe r))"

lemma same_stripe:
  assumes "x < s - off mod s"
  shows "(off + x) div s = off div (s :: nat)"
proof (rule div_nat_eqI)
  show "s * (off div s) \<le> off + x" using mult_div_mod_eq [of s off] by linarith
  show "off + x < s * Suc (off div s)" using assms mult_div_mod_eq [of s off] unfolding mult_Suc_right by linarith
qed

lemma reached_round:
  assumes "\<not> broken r (off div raid_stripe r)" and "c \<le> raid_stripe r - off mod raid_stripe r" and "c \<le> n"
  shows "reached r off n = c + reached r (off + c) (n - c)"
  using assms
proof (induction c arbitrary: off n)
  case (Suc c)
  then obtain m where n: "n = Suc m" by (cases n) auto
  have first: "reached r off n = Suc (reached r (Suc off) m)" using Suc.prems(1) n by (simp add: broken_def)
  show ?case
  proof (cases "c = 0")
    case True
    then show ?thesis using first n by simp
  next
    case False
    have "Suc off div raid_stripe r = off div raid_stripe r"
      using same_stripe [of 1 "raid_stripe r" off] Suc.prems(2) False by simp
    moreover have "Suc off mod raid_stripe r = Suc (off mod raid_stripe r)"
      using Suc.prems(2) False by (simp add: mod_Suc)
    ultimately have "reached r (Suc off) m = c + reached r (Suc off + c) (m - c)"
      using Suc.prems n by (intro Suc.IH) auto
    then show ?thesis using first n by simp
  qed
qed simp

lemma reached_broken:
  assumes "broken r (off div raid_stripe r)" and "0 < n"
  shows "reached r off n =
    (if dead_at r (off div raid_stripe r) then 0 else min n (raid_stripe r - off mod raid_stripe r))"
  using assms by (cases n) (auto simp add: broken_def)

lemma reached_cong:
  assumes "degraded_wrote r r' off' c"
  shows "reached r' off n = reached r off n" and "meets_broken r' off n \<longleftrightarrow> meets_broken r off n"
proof -
  note f = degraded_wrote_fields [OF assms]
  have "dead_at r' = dead_at r" using assms by (simp add: degraded_wrote_def)
  then show "reached r' off n = reached r off n" by (induction n arbitrary: off) (simp_all add: f)
  show "meets_broken r' off n \<longleftrightarrow> meets_broken r off n" by (simp add: meets_broken_def f)
qed

lemma meets_broken_round:
  assumes "\<not> broken r (off div raid_stripe r)" and "c \<le> raid_stripe r - off mod raid_stripe r" and "c \<le> n"
  shows "meets_broken r off n \<longleftrightarrow> meets_broken r (off + c) (n - c)"
proof
  assume "meets_broken r off n"
  then obtain x where x: "x < n" "broken r ((off + x) div raid_stripe r)" by (auto simp add: meets_broken_def)
  have "c \<le> x"
  proof (rule ccontr)
    assume "\<not> c \<le> x"
    then show False using same_stripe [of x "raid_stripe r" off] x(2) assms(1,2) by simp
  qed
  then show "meets_broken r (off + c) (n - c)"
    using x by (auto simp add: meets_broken_def intro!: exI [of _ "x - c"])
next
  assume "meets_broken r (off + c) (n - c)"
  then obtain x where "x < n - c" "broken r ((off + c + x) div raid_stripe r)" by (auto simp add: meets_broken_def)
  then show "meets_broken r off n"
    using assms(3) by (auto simp add: meets_broken_def add.assoc intro!: exI [of _ "c + x"])
qed

lemma degraded_loop:
  assumes "degraded r" and "unat off + unat rem \<le> raid_capacity r"
    and "unat pos + unat rem \<le> length buf" and "length buf < 2 ^ 64"
  shows "\<exists>r'. raid_write_loop r off rem pos buf =
      (r', if meets_broken r (unat off) (unat rem) then Throws (Runtime_error ''pwrite failed'') else Returns ()) \<and>
    degraded_wrote r r' (unat off) (subvec buf (unat pos) (reached r (unat off) (unat rem)))"
  using assms
proof (induction r off rem pos buf rule: raid_write_loop.induct)
  case (1 r off rem pos buf)
  note sh = degradedD(1) [OF "1.prems"(1)]
  note s = raid_shapeD [OF sh]
  show ?case
  proof (cases "rem = 0")
    case True
    with "1.prems"(1) show ?thesis
      by (subst raid_write_loop.simps) (simp add: subvec_def degraded_wrote_nothing meets_broken_def)
  next
    case False
    let ?n = "chunk_len r off rem"
    let ?c = "subvec buf (unat pos) (unat ?n)"
    let ?p = "unat off div raid_stripe r"
    note n = round_facts [OF sh False "1.prems"(2-4) refl]
    have len: "unat ?n = min (unat rem) (raid_stripe r - unat off mod raid_stripe r)" by (rule unat_chunk_len [OF sh])
    have fits: "unat off + length ?c \<le> raid_capacity r" using n(2,4) "1.prems"(2) by linarith
    obtain r1 where r1: "raid_write_chunk r off ?c =
        (r1, if broken r ?p then Throws (Runtime_error ''pwrite failed'') else Returns ())"
      "degraded_wrote r r1 (unat off) (if dead_at r ?p then [] else ?c)"
      using degraded_chunk [OF "1.prems"(1) _ fits _ refl] n(1,3,4) by auto
    show ?thesis
    proof (cases "broken r ?p")
      case True
      have "meets_broken r (unat off) (unat rem)"
        using True n(1,2) by (auto simp add: meets_broken_def intro!: exI [of _ 0])
      moreover have "raid_write_loop r off rem pos buf = (r1, Throws (Runtime_error ''pwrite failed''))"
        using True False s(5) r1(1) by (subst raid_write_loop.simps) (simp add: Let_def)
      moreover have "reached r (unat off) (unat rem) = (if dead_at r ?p then 0 else unat ?n)"
        using reached_broken [OF True, of "unat rem"] n(1,2) len by simp
      moreover have "degraded_wrote r r1 (unat off) (subvec buf (unat pos) (if dead_at r ?p then 0 else unat ?n))"
        using r1(2) by (cases "dead_at r ?p") (simp_all add: subvec_def)
      ultimately show ?thesis by simp
    next
      case whole: False
      then have alive: "\<not> dead_at r ?p" by (simp add: broken_def)
      have w: "degraded_wrote r r1 (unat off) ?c" using r1(2) alive by simp
      have chunk: "raid_write_chunk r off ?c = (r1, Returns ())" using r1(1) whole by simp
      note f = degraded_wrote_fields [OF w]
      have step: "raid_write_loop r off rem pos buf = raid_write_loop r1 (off + ?n) (rem - ?n) (pos + ?n) buf"
        using False s(5) chunk by (subst raid_write_loop.simps) (simp add: Let_def)
      have d1: "degraded r1" using w by (simp add: degraded_wrote_def)
      have pre: "unat (off + ?n) + unat (rem - ?n) \<le> raid_capacity r1"
        "unat (pos + ?n) + unat (rem - ?n) \<le> length buf"
        using "1.prems"(2,3) n(8,9) f(5) by simp_all
      obtain r' where r': "raid_write_loop r1 (off + ?n) (rem - ?n) (pos + ?n) buf =
          (r', if meets_broken r1 (unat off + unat ?n) (unat rem - unat ?n)
            then Throws (Runtime_error ''pwrite failed'') else Returns ())"
        "degraded_wrote r1 r' (unat off + unat ?n)
          (subvec buf (unat pos + unat ?n) (reached r1 (unat off + unat ?n) (unat rem - unat ?n)))"
        using "1.IH" [OF False s(5) refl refl chunk [symmetric] refl d1 pre "1.prems"(4)]
        by (auto simp add: n(5-7))
      have le: "unat ?n \<le> raid_stripe r - unat off mod raid_stripe r" by (rule n(3))
      let ?rest = "reached r (unat off + unat ?n) (unat rem - unat ?n)"
      have short: "reached r a b \<le> b" for a b
        by (induction b arbitrary: a) auto
      have "degraded_wrote r r' (unat off) (?c @ subvec buf (unat pos + unat ?n) ?rest)"
      proof (rule degraded_wrote_append [OF "1.prems"(1) w])
        show "degraded_wrote r1 r' (unat off + length ?c) (subvec buf (unat pos + unat ?n) ?rest)"
          using r'(2) n(4) reached_cong(1) [OF w] by simp
        have "length (subvec buf (unat pos + unat ?n) ?rest) \<le> unat rem - unat ?n"
          using short [of "unat off + unat ?n" "unat rem - unat ?n"] by (simp add: subvec_def)
        then show "unat off + length ?c + length (subvec buf (unat pos + unat ?n) ?rest) \<le> raid_capacity r"
          using "1.prems"(2) n(2,4) by linarith
      qed
      moreover have "?c @ subvec buf (unat pos + unat ?n) ?rest =
          subvec buf (unat pos) (reached r (unat off) (unat rem))"
        unfolding reached_round [OF whole le n(2)] by (simp only: subvec_split [symmetric])
      ultimately show ?thesis
        using step r'(1) reached_cong(2) [OF w] meets_broken_round [OF whole le n(2)] by simp
    qed
  qed
qed

lemma reached_all: "\<not> meets_broken r off n \<Longrightarrow> reached r off n = n"
proof (induction n arbitrary: off)
  case (Suc n)
  have "\<not> broken r (off div raid_stripe r)" using Suc.prems by (auto simp add: meets_broken_def dest: spec [of _ 0])
  moreover have "\<not> meets_broken r (Suc off) n" using Suc.prems by (auto simp add: meets_broken_def dest: spec [of _ "Suc x" for x])
  ultimately show ?case using Suc.IH by (simp add: broken_def)
qed simp

lemma degraded_recorded:
  assumes "degraded r" and "degraded_wrote r r1 off' c"
  shows "degraded (r1\<lparr>rs_offset_sizes := map_put off n (rs_offset_sizes r1),
      rs_metadata_store := Store_Save (rs_metadata_store r1) (map_put off n (rs_offset_sizes r1))\<rparr>)"
proof -
  have d1: "degraded r1" using assms(2) by (simp add: degraded_wrote_def)
  have "map_inv (map_put off n (rs_offset_sizes r1))" using raid_shapeD(8) [OF degradedD(1) [OF d1]] by simp
  moreover from this have "store_reliable (Store_Save (rs_metadata_store r1) (map_put off n (rs_offset_sizes r1)))"
    using d1 by (intro store.reliable_save) (simp_all add: degraded_def)
  ultimately show ?thesis using d1 by (simp add: degraded_def raid_shape_def raid_capacity_def)
qed

section \<open>Property\<close>

text \<open>C12: with dead disks a write needs both minions of every pair it meets. A write inside the capacity
  of an array in which one minion of every pair works reports SUCCESS if no pair it meets is broken,
  and FAILURE otherwise. The bytes in front of the first broken pair are written all the same, and
  those of its chunk too when it is the mirror that is dead; the recorded sizes change with a
  success only. The array stays one in which every read inside the capacity succeeds, and reads
  return what has reached the primaries, that of failed writes included.\<close>

theorem raid_degraded_write:
  assumes "degraded r" and "unat (m_offset q) + length (m_buffer q) \<le> raid_capacity r"
  shows "\<exists>r'. RAID_Write r q = Returns (r', q\<lparr>m_status :=
      if meets_broken r (unat (m_offset q)) (length (m_buffer q)) then FAILURE else SUCCESS\<rparr>) \<and>
    degraded r' \<and> dead_at r' = dead_at r \<and>
    raid_flat r' = copy_into (raid_flat r) (unat (m_offset q))
      (take (reached r (unat (m_offset q)) (length (m_buffer q))) (m_buffer q)) \<and>
    rs_offset_sizes r' = (if meets_broken r (unat (m_offset q)) (length (m_buffer q)) then rs_offset_sizes r
      else map_put (m_offset q) (vsize (m_buffer q)) (rs_offset_sizes r)) \<and>
    (\<not> meets_broken r (unat (m_offset q)) (length (m_buffer q)) \<longrightarrow>
       reached r (unat (m_offset q)) (length (m_buffer q)) = length (m_buffer q)) \<and>
    (\<forall>d. unat (m_offset d) + unat (m_len d) \<le> raid_capacity r \<longrightarrow> RAID_Read r' d = Returns
       (d\<lparr>m_buffer := subvec (raid_flat r') (unat (m_offset d)) (unat (m_len d)), m_status := SUCCESS\<rparr>))"
proof -
  let ?off = "unat (m_offset q)" and ?n = "length (m_buffer q)"
  have lt: "?off + ?n < 2 ^ 64"
    using assms(2) raid_shapeD(4) [OF degradedD(1) [OF assms(1)]] by linarith
  then have n: "unat (vsize (m_buffer q)) = ?n" by (intro unat_vsize) linarith
  obtain r1 where run: "raid_write_loop r (m_offset q) (vsize (m_buffer q)) 0 (m_buffer q) =
      (r1, if meets_broken r ?off ?n then Throws (Runtime_error ''pwrite failed'') else Returns ())"
    and w: "degraded_wrote r r1 ?off (take (reached r ?off ?n) (m_buffer q))"
    using degraded_loop [OF assms(1), of "m_offset q" "vsize (m_buffer q)" 0 "m_buffer q"] assms(2) lt
    by (auto simp add: n subvec_def)
  note f = degraded_wrote_fields [OF w]
  let ?r2 = "if meets_broken r ?off ?n then r1
    else r1\<lparr>rs_offset_sizes := map_put (m_offset q) (vsize (m_buffer q)) (rs_offset_sizes r1),
           rs_metadata_store := Store_Save (rs_metadata_store r1)
             (map_put (m_offset q) (vsize (m_buffer q)) (rs_offset_sizes r1))\<rparr>"
  have "RAID_Write r q = Returns (?r2, q\<lparr>m_status := if meets_broken r ?off ?n then FAILURE else SUCCESS\<rparr>)"
    using run by (simp add: RAID_Write_def Let_def)
  moreover have deg: "degraded ?r2"
    using degraded_recorded [OF assms(1) w] w by (simp add: degraded_wrote_def)
  moreover have "dead_at ?r2 = dead_at r" "raid_capacity ?r2 = raid_capacity r"
    using w f(5) by (simp_all add: degraded_wrote_def dead_at_def)
  moreover have "raid_flat ?r2 = copy_into (raid_flat r) ?off (take (reached r ?off ?n) (m_buffer q))"
    using w by (simp add: degraded_wrote_def)
  moreover have "rs_offset_sizes ?r2 = (if meets_broken r ?off ?n then rs_offset_sizes r
      else map_put (m_offset q) (vsize (m_buffer q)) (rs_offset_sizes r))"
    using f(3) by simp
  moreover have "RAID_Read ?r2 d = Returns (d\<lparr>m_buffer := subvec (raid_flat ?r2) (unat (m_offset d)) (unat (m_len d)),
      m_status := SUCCESS\<rparr>)" if "unat (m_offset d) + unat (m_len d) \<le> raid_capacity ?r2" for d
    by (rule RAID_Read_serves [OF degradedD(1) [OF deg] degraded_serves [OF deg] that])
  ultimately show ?thesis using reached_all [of r ?off ?n] by (intro exI [of _ ?r2]) simp
qed

text \<open>Two pairs, of which the mirror of the first is dead: the write fails, and is read all the same.\<close>

definition demo_degraded :: raid where
  "demo_degraded = \<lparr>is_size = 16,
     rs_minions = [Memory_minion (StorageMinionMemory 4), Memory_minion (StorageMinionMemory 4),
       File_minion \<lparr>mf_fd = 5, mf_file_path = ''m2'', mf_size = 4, mf_offset_sizes = [],
         mf_disk = \<lparr>df_bytes = [0, 0, 0, 0], df_on_read = \<lambda>_ _. Io_full, df_on_write = \<lambda>_ _. Io_error\<rparr>\<rparr>,
       Memory_minion (StorageMinionMemory 4)],
     rs_metadata_store = Memory_store [], rs_stripe_size = 4, rs_num_primary = 2,
     rs_minion_size = 4, rs_offset_sizes = []\<rparr>"

lemma demo_degraded_fields [simp]:
  "raid_np demo_degraded = 2" "raid_stripe demo_degraded = 4" "raid_capacity demo_degraded = 8"
  "rs_offset_sizes demo_degraded = []" "dead_at demo_degraded = nth [False, False, True, False]"
  by (simp_all add: demo_degraded_def raid_capacity_def dead_at_def)

lemma demo_degraded_flat [simp]: "raid_flat demo_degraded = [0, 0, 0, 0, 0, 0, 0, 0]"
  by (simp add: raid_flat_def demo_degraded_def StorageMinionMemory_def replicate_small)

lemma demo_degraded_holds: "degraded demo_degraded"
proof -
  have two: "(\<forall>p < Suc (Suc 0). P p) \<longleftrightarrow> P 0 \<and> P (Suc 0)" for P by (auto simp add: less_Suc_eq)
  have minions: "rs_minions demo_degraded ! 0 = Memory_minion (StorageMinionMemory 4)"
    "rs_minions demo_degraded ! 1 = Memory_minion (StorageMinionMemory 4)"
    "rs_minions demo_degraded ! 3 = Memory_minion (StorageMinionMemory 4)"
    "write_dead (rs_minions demo_degraded ! 2)"
    by (simp_all add: demo_degraded_def)
  have "raid_shape demo_degraded"
    by (simp add: raid_shape_def raid_capacity_def demo_degraded_def StorageMinionMemory_def)
  moreover have "\<forall>m \<in> set (rs_minions demo_degraded). minion_ok m \<or> write_dead m \<and> minion_sound m"
    by (simp add: demo_degraded_def memory_ok_def StorageMinionMemory_def)
  moreover have "store_reliable (rs_metadata_store demo_degraded)" by (simp add: demo_degraded_def)
  moreover have "minion_ok (Memory_minion (StorageMinionMemory 4))"
    by (simp add: memory_ok_def StorageMinionMemory_def)
  ultimately show ?thesis using minions by (simp add: degraded_def two numeral_2_eq_2 numeral_3_eq_3)
qed

lemma raid_degraded_write_witness:
  "\<exists>r'. RAID_Write demo_degraded (demo_write 2 [1, 2, 3, 4]) =
      Returns (r', (demo_write 2 [1, 2, 3, 4])\<lparr>m_status := FAILURE\<rparr>) \<and>
    rs_offset_sizes r' = [] \<and> raid_flat r' = [0, 0, 1, 2, 0, 0, 0, 0] \<and>
    RAID_Read r' (new_DriverData READ 7 1 4 FAILURE) =
      Returns ((new_DriverData READ 7 1 4 FAILURE)\<lparr>m_buffer := [0, 1, 2, 0], m_status := SUCCESS\<rparr>)"
proof -
  let ?q = "demo_write 2 [1, 2, 3, 4]" and ?d = "new_DriverData READ 7 1 4 FAILURE"
  have broken: "broken demo_degraded (2 div raid_stripe demo_degraded)" by (simp add: broken_def)
  have "meets_broken demo_degraded 2 4"
    unfolding meets_broken_def using broken by (intro exI [of _ 0]) simp
  moreover have "reached demo_degraded 2 4 = 2" using reached_broken [OF broken, of 4] by simp
  moreover have len: "length (m_buffer ?q) = 4" "unat (m_offset ?q) = 2" by simp_all
  ultimately obtain r' where r': "RAID_Write demo_degraded ?q = Returns (r', ?q\<lparr>m_status := FAILURE\<rparr>)"
    "raid_flat r' = copy_into [0, 0, 0, 0, 0, 0, 0, 0] 2 (take 2 [1, 2, 3, 4])" "rs_offset_sizes r' = []"
    "\<forall>d. unat (m_offset d) + unat (m_len d) \<le> 8 \<longrightarrow> RAID_Read r' d = Returns
       (d\<lparr>m_buffer := subvec (raid_flat r') (unat (m_offset d)) (unat (m_len d)), m_status := SUCCESS\<rparr>)"
    using raid_degraded_write [OF demo_degraded_holds, of ?q] by auto
  have flat: "raid_flat r' = [0, 0, 1, 2, 0, 0, 0, 0]" unfolding r'(2) by (simp add: copy_into_def)
  have "subvec [0, 0, 1, 2, 0, 0, 0, 0 :: byte] 1 4 = [0, 1, 2, 0]" by (simp add: subvec_def numeral_eq_Suc)
  then have "RAID_Read r' ?d = Returns (?d\<lparr>m_buffer := [0, 1, 2, 0], m_status := SUCCESS\<rparr>)"
    using r'(4) [rule_format, of ?d] flat by (simp add: new_DriverData_def)
  with r'(1,3) flat show ?thesis by blast
qed

end
