(* ===== verification/Raid_Concurrency.thy ===== *)
theory Raid_Concurrency
  imports Raid_Properties
begin

text \<open>
  Two write requests at the same time. \<open>RAIDStorage\<close> takes no lock around a request: each minion
  locks its own operation, so requests on several threads interleave at the writes to single
  minions. \<open>write_plan\<close> lists the minion writes of a request in the order of the loop, and
  \<open>raid_step\<close> is one thread making its next one. For requests on disjoint ranges every
  interleaving ends as if they had run one after the other; for overlapping ones a mirror may
  end up different from its primary for ever.
\<close>

section \<open>The minion writes of a request\<close>

type_synonym minion_write = "size_t \<times> size_t \<times> vec"

definition chunk_writes :: "raid \<Rightarrow> size_t \<Rightarrow> vec \<Rightarrow> minion_write list" where
  "chunk_writes r offset chunk =
     (case (PrimaryIndex r offset, LocalOffset r offset) of
        (Returns p, Returns l) \<Rightarrow> [(p, l, chunk), (MirrorIndex r p, l, chunk)]
      | _ \<Rightarrow> [])"

function write_plan :: "raid \<Rightarrow> size_t \<Rightarrow> size_t \<Rightarrow> size_t \<Rightarrow> vec \<Rightarrow> minion_write list" where
  "write_plan r offset remaining buf_pos buffer =
     (if remaining = 0 \<or> rs_stripe_size r = 0 then []
      else let to_write = chunk_len r offset remaining;
               chunk = subvec buffer (unat buf_pos) (unat to_write)
           in chunk_writes r offset chunk @
              write_plan r (offset + to_write) (remaining - to_write) (buf_pos + to_write) buffer)"
  by pat_completeness auto
termination
  by (relation "measure (\<lambda>(r, offset, remaining, buf_pos, buffer). unat remaining)")
     (simp_all add: chunk_len_decreases)

declare write_plan.simps [simp del]

fun run_writes :: "raid \<Rightarrow> minion_write list \<Rightarrow> raid \<times> unit outcome" where
  "run_writes r [] = (r, Returns ())"
| "run_writes r ((i, l, c) # ws) = sthen (raid_minion_write r i l c) (\<lambda>r1. run_writes r1 ws)"

inductive raid_step :: "raid \<times> minion_write list list \<Rightarrow> raid \<times> minion_write list list \<Rightarrow> bool" where
  raid_step: "k < length ts \<Longrightarrow> ts ! k = (i, l, c) # rest \<Longrightarrow>
     raid_minion_write r i l c = (r', Returns ()) \<Longrightarrow> raid_step (r, ts) (r', ts[k := rest])"

inductive_cases raid_stepE: "raid_step (r, ts) (r', ts')"

section \<open>The plan is what the loop does\<close>

lemma run_writes_append: "run_writes r (as @ bs) = sthen (run_writes r as) (\<lambda>r1. run_writes r1 bs)"
  by (induction as arbitrary: r) (auto simp add: sthen_assoc)

lemma run_writes_chunk:
  assumes "raid_shape r"
  shows "run_writes r (chunk_writes r off c) = raid_write_chunk r off c"
proof -
  obtain p l where "PrimaryIndex r off = Returns p" "LocalOffset r off = Returns l"
    using indices_defined [OF assms] .
  then show ?thesis by (simp add: chunk_writes_def raid_write_chunk_def)
qed

lemma chunk_writes_cong:
  assumes "rs_stripe_size r' = rs_stripe_size r" and "rs_num_primary r' = rs_num_primary r"
  shows "chunk_writes r' off c = chunk_writes r off c"
  using assms by (simp add: chunk_writes_def PrimaryIndex_def LocalOffset_def MirrorIndex_def)

lemma write_plan_cong:
  assumes "rs_stripe_size r' = rs_stripe_size r" and "rs_num_primary r' = rs_num_primary r"
  shows "write_plan r' off rem pos buf = write_plan r off rem pos buf"
  using assms
proof (induction r off rem pos buf rule: write_plan.induct)
  case (1 r off rem pos buf)
  have n: "chunk_len r' off rem = chunk_len r off rem" using "1.prems" by (simp add: chunk_len_def)
  show ?case
  proof (cases "rem = 0 \<or> rs_stripe_size r = 0")
    case True
    then show ?thesis using "1.prems" by (simp add: write_plan.simps)
  next
    case False
    from "1.IH" [OF False refl refl "1.prems"] False "1.prems" show ?thesis
      by (simp add: write_plan.simps [of r' off rem] write_plan.simps [of r off rem] n
          chunk_writes_cong [OF "1.prems"] Let_def)
  qed
qed

text \<open>On a healthy array the plan of a request inside the capacity, carried out in order, is the loop.\<close>

lemma run_plan:
  assumes "raid_ok r" and "unat off + unat rem \<le> raid_capacity r"
    and "unat pos + unat rem \<le> length buf" and "length buf < 2 ^ 64"
  shows "run_writes r (write_plan r off rem pos buf) = raid_write_loop r off rem pos buf"
  using assms
proof (induction r off rem pos buf rule: raid_write_loop.induct)
  case (1 r off rem pos buf)
  note sh = raid_ok_shape [OF "1.prems"(1)]
  show ?case
  proof (cases "rem = 0")
    case True
    then show ?thesis by (simp add: write_plan.simps raid_write_loop.simps)
  next
    case False
    let ?n = "chunk_len r off rem"
    let ?c = "subvec buf (unat pos) (unat ?n)"
    note n = round_facts [OF sh False "1.prems"(2-4) refl]
    obtain r1 where r1: "raid_write_chunk r off ?c = (r1, Returns ())" "raid_wrote r r1 (unat off) ?c"
      by (rule raid_write_chunk_ok [OF "1.prems"(1), of ?c off]) (use n "1.prems"(2) in simp_all)
    note f = raid_wrote_fields [OF r1(2)]
    have "run_writes r1 (write_plan r1 (off + ?n) (rem - ?n) (pos + ?n) buf) =
        raid_write_loop r1 (off + ?n) (rem - ?n) (pos + ?n) buf"
      by (rule "1.IH" [OF False raid_shapeD(5) [OF sh] refl refl r1(1) [symmetric] refl raid_wroteD(1) [OF r1(2)]])
         (use n "1.prems"(2-4) in \<open>simp_all add: f(5)\<close>)
    then show ?thesis
      using False raid_shapeD(5) [OF sh] r1(1)
      by (simp add: write_plan.simps [of r] raid_write_loop.simps [of r off] Let_def run_writes_append
          run_writes_chunk [OF sh] write_plan_cong [OF f(1,2)])
  qed
qed

section \<open>Where a request writes\<close>

text \<open>A write into the minions whose cells are the flat addresses from \<open>a\<close> up to \<open>b\<close>.\<close>

fun in_cells :: "raid \<Rightarrow> nat \<Rightarrow> nat \<Rightarrow> minion_write \<Rightarrow> bool" where
  "in_cells r a b (i, l, c) \<longleftrightarrow> unat i < 2 * raid_np r \<and> unat l + length c \<le> raid_stripe r \<and>
     a \<le> unat i mod raid_np r * raid_stripe r + unat l \<and>
     unat i mod raid_np r * raid_stripe r + unat l + length c \<le> b"

lemma in_cells_mono: "in_cells r a b w \<Longrightarrow> a' \<le> a \<Longrightarrow> b \<le> b' \<Longrightarrow> in_cells r a' b' w"
  by (cases w) auto

lemma chunk_in_cells:
  assumes "raid_shape r" and "unat off + length c \<le> raid_capacity r" and "0 < length c"
    and "length c \<le> raid_stripe r - unat off mod raid_stripe r"
  shows "\<forall>w \<in> set (chunk_writes r off c). in_cells r (unat off) (unat off + length c) w"
proof -
  obtain p l where pl: "PrimaryIndex r off = Returns p" "LocalOffset r off = Returns l"
    using indices_defined [OF assms(1)] .
  note w = within_stripe [OF assms(1,2,3,4) pl]
  show ?thesis
    using w unat_MirrorIndex [OF assms(1) w(1)] by (simp add: chunk_writes_def pl)
qed

lemma plan_in_cells:
  assumes "raid_shape r" and "unat off + unat rem \<le> raid_capacity r"
    and "unat pos + unat rem \<le> length buf" and "length buf < 2 ^ 64"
  shows "\<forall>w \<in> set (write_plan r off rem pos buf). in_cells r (unat off) (unat off + unat rem) w"
  using assms
proof (induction r off rem pos buf rule: write_plan.induct)
  case (1 r off rem pos buf)
  show ?case
  proof (cases "rem = 0")
    case True
    then show ?thesis by (simp add: write_plan.simps)
  next
    case False
    let ?n = "chunk_len r off rem"
    let ?c = "subvec buf (unat pos) (unat ?n)"
    note n = round_facts [OF "1.prems"(1) False "1.prems"(2-4) refl]
    note s = raid_shapeD(5) [OF "1.prems"(1)]
    have "\<forall>w \<in> set (chunk_writes r off ?c). in_cells r (unat off) (unat off + length ?c) w"
      using n "1.prems"(1,2) by (intro chunk_in_cells) simp_all
    moreover have "\<forall>w \<in> set (write_plan r (off + ?n) (rem - ?n) (pos + ?n) buf).
        in_cells r (unat (off + ?n)) (unat (off + ?n) + unat (rem - ?n)) w"
      using n "1.prems" False s by (intro "1.IH") simp_all
    ultimately show ?thesis
      using False s n
      by (auto simp add: write_plan.simps [of r off] Let_def elim!: in_cells_mono)
  qed
qed

section \<open>Contents\<close>

definition contents :: "raid \<Rightarrow> vec list" where
  "contents r = map minion_content (rs_minions r)"

fun apply_write :: "minion_write \<Rightarrow> vec list \<Rightarrow> vec list" where
  "apply_write (i, l, c) cs = cs[unat i := copy_into (cs ! unat i) (unat l) c]"

fun apart :: "minion_write \<Rightarrow> minion_write \<Rightarrow> bool" where
  "apart (i, l, c) (i', l', c') \<longleftrightarrow>
     i \<noteq> i' \<or> unat l + length c \<le> unat l' \<or> unat l' + length c' \<le> unat l"

text \<open>The shape of the contents: \<open>n\<close> vectors of length \<open>s\<close>.\<close>

definition cells_ok :: "raid \<Rightarrow> vec list \<Rightarrow> bool" where
  "cells_ok r cs \<longleftrightarrow> length cs = 2 * raid_np r \<and> (\<forall>v \<in> set cs. length v = raid_stripe r)"

lemma cells_ok_contents: "raid_ok r \<Longrightarrow> cells_ok r (contents r)"
  using raid_ok_filled [of r] by (auto simp add: cells_ok_def contents_def raid_filled_def raid_shape_def)

lemma cells_ok_apply: "cells_ok r cs \<Longrightarrow> in_cells r a b w \<Longrightarrow> cells_ok r (apply_write w cs)"
  by (cases w) (auto simp add: cells_ok_def dest!: set_update_subset_insert [THEN subsetD])

lemma apply_commute:
  assumes "cells_ok r cs" and "in_cells r a b w" and "in_cells r a' b' w'" and "apart w w'"
  shows "apply_write w (apply_write w' cs) = apply_write w' (apply_write w cs)"
proof -
  obtain i l c where w: "w = (i, l, c)" by (cases w)
  obtain i' l' c' where w': "w' = (i', l', c')" by (cases w')
  have i: "unat i < length cs" "unat i' < length cs"
    using assms(1-3) by (simp_all add: w w' cells_ok_def)
  show ?thesis
  proof (cases "i = i'")
    case True
    have len: "length (cs ! unat i) = raid_stripe r"
      using assms(1) i(1) by (simp add: cells_ok_def)
    have "copy_into (copy_into (cs ! unat i) (unat l') c') (unat l) c =
        copy_into (copy_into (cs ! unat i) (unat l) c) (unat l') c'"
      using assms(2-4) len True by (intro copy_into_commute) (auto simp add: w w')
    then show ?thesis using i True by (simp add: w w')
  next
    case False
    then have "unat i \<noteq> unat i'" by (simp add: word_unat_eq_iff)
    then show ?thesis using i by (simp add: w w' list_update_swap)
  qed
qed

text \<open>A write moves past writes it is apart from.\<close>

lemma apply_past:
  assumes "cells_ok r cs" and "in_cells r a b w" and "\<forall>x \<in> set xs. in_cells r a' b' x \<and> apart w x"
  shows "fold apply_write xs (apply_write w cs) = apply_write w (fold apply_write xs cs)"
  using assms
proof (induction xs arbitrary: cs)
  case Nil
  then show ?case by simp
next
  case (Cons x xs)
  have "apply_write x (apply_write w cs) = apply_write w (apply_write x cs)"
    using Cons.prems apply_commute [of r cs a b w a' b' x] by simp
  moreover have "cells_ok r (apply_write x cs)"
    using Cons.prems(1,3) by (intro cells_ok_apply [of r cs a' b']) simp_all
  ultimately show ?case using Cons.IH [of "apply_write x cs"] Cons.prems by simp
qed

section \<open>Runs\<close>

definition same_geometry :: "raid \<Rightarrow> raid \<Rightarrow> bool" where
  "same_geometry r r' \<longleftrightarrow> rs_stripe_size r' = rs_stripe_size r \<and> rs_num_primary r' = rs_num_primary r"

lemma in_cells_geometry: "same_geometry r r' \<Longrightarrow> in_cells r' a b w = in_cells r a b w"
  by (cases w) (simp add: same_geometry_def)

lemma cells_ok_geometry: "same_geometry r r' \<Longrightarrow> cells_ok r' cs = cells_ok r cs"
  by (simp add: same_geometry_def cells_ok_def)

lemma minion_write_contents:
  assumes "raid_ok r" and "in_cells r a b (i, l, c)" and "raid_minion_write r i l c = (r', oc)"
  shows "oc = Returns ()" and "raid_ok r'" and "contents r' = apply_write (i, l, c) (contents r)"
    and "same_geometry r r'"
proof -
  have i: "unat i < 2 * raid_np r" and l: "unat l + length c \<le> raid_stripe r"
    using assms(2) by simp_all
  obtain m' where m': "raid_minion_write r i l c = (r\<lparr>rs_minions := (rs_minions r)[unat i := m']\<rparr>, Returns ())"
    "minion_ok m'" "minion_Size m' = rs_stripe_size r"
    "minion_content m' = copy_into (minion_content (rs_minions r ! unat i)) (unat l) c"
    by (rule raid_minion_write_ok [OF assms(1) i l])
  then have r': "r' = r\<lparr>rs_minions := (rs_minions r)[unat i := m']\<rparr>" and oc: "oc = Returns ()"
    using assms(3) by simp_all
  show "oc = Returns ()" by (rule oc)
  show "raid_ok r'" unfolding r' by (rule raid_ok_replace [OF assms(1) m'(2,3)])
  show "contents r' = apply_write (i, l, c) (contents r)"
    using i raid_shapeD(1) [OF raid_ok_shape [OF assms(1)]] by (simp add: contents_def r' map_update m'(4))
  show "same_geometry r r'" by (simp add: same_geometry_def r')
qed

lemma run_contents:
  assumes "raid_ok r" and "\<forall>w \<in> set ws. in_cells r a b w"
  shows "\<exists>r'. run_writes r ws = (r', Returns ()) \<and> raid_ok r' \<and> same_geometry r r' \<and>
    contents r' = fold apply_write ws (contents r)"
  using assms
proof (induction ws arbitrary: r)
  case Nil
  then show ?case by (simp add: same_geometry_def)
next
  case (Cons w ws)
  obtain i l c where w: "w = (i, l, c)" by (cases w)
  obtain r1 oc where step: "raid_minion_write r i l c = (r1, oc)" by fastforce
  have "in_cells r a b (i, l, c)" using Cons.prems(2) w by simp
  note s = minion_write_contents [OF Cons.prems(1) this step]
  obtain r' where "run_writes r1 ws = (r', Returns ())" "raid_ok r'" "same_geometry r1 r'"
    "contents r' = fold apply_write ws (contents r1)"
    using Cons.IH [OF s(2)] Cons.prems(2) by (auto simp add: in_cells_geometry [OF s(4)])
  then show ?case using step s by (simp add: w same_geometry_def)
qed

text \<open>What two threads have left to do, in one order, leads to the same contents all along.\<close>

definition pending ::
  "raid \<Rightarrow> nat \<Rightarrow> nat \<Rightarrow> nat \<Rightarrow> nat \<Rightarrow> vec list \<Rightarrow> raid \<times> minion_write list list \<Rightarrow> bool" where
  "pending r0 a b a' b' goal x \<longleftrightarrow> (\<exists>r ws ws'. x = (r, [ws, ws']) \<and> raid_ok r \<and> same_geometry r0 r \<and>
     (\<forall>w \<in> set ws. in_cells r0 a b w) \<and> (\<forall>w \<in> set ws'. in_cells r0 a' b' w \<and> (\<forall>v \<in> set ws. apart w v)) \<and>
     fold apply_write (ws @ ws') (contents r) = goal)"

lemma pending_step:
  assumes "pending r0 a b a' b' goal x" and "raid_step x y"
  shows "pending r0 a b a' b' goal y"
proof -
  obtain r ws ws' where x: "x = (r, [ws, ws'])" "raid_ok r" "same_geometry r0 r"
    "\<forall>w \<in> set ws. in_cells r0 a b w" "\<forall>w \<in> set ws'. in_cells r0 a' b' w \<and> (\<forall>v \<in> set ws. apart w v)"
    "fold apply_write (ws @ ws') (contents r) = goal"
    using assms(1) by (auto simp add: pending_def)
  obtain r1 ts where y: "y = (r1, ts)" by (cases y)
  from assms(2) obtain k i l c rest where step: "k < 2" "[ws, ws'] ! k = (i, l, c) # rest"
    "raid_minion_write r i l c = (r1, Returns ())" "ts = [ws, ws'][k := rest]"
    unfolding x(1) y by (elim raid_stepE) (rule that; simp)
  have geo: "in_cells r a b w = in_cells r0 a b w" for a b w by (rule in_cells_geometry [OF x(3)])
  consider "k = 0" | "k = 1" using step(1) by linarith
  then show ?thesis
  proof cases
    case 1
    then have ws: "ws = (i, l, c) # rest" using step(2) by simp
    then have "in_cells r a b (i, l, c)" using x(4) unfolding geo by simp
    note m = minion_write_contents [OF x(2) this step(3)]
    have "fold apply_write (rest @ ws') (contents r1) = goal" using x(6) ws m(3) by simp
    then show ?thesis
      using x(3-5) m(2,4) 1 step(4) ws unfolding pending_def y
      by (intro exI [of _ r1] exI [of _ rest] exI [of _ ws']) (auto simp add: same_geometry_def)
  next
    case 2
    then have ws': "ws' = (i, l, c) # rest" using step(2) by simp
    then have cells: "in_cells r a' b' (i, l, c)" using x(5) unfolding geo by simp
    note m = minion_write_contents [OF x(2) cells step(3)]
    have "fold apply_write ws (apply_write (i, l, c) (contents r)) =
        apply_write (i, l, c) (fold apply_write ws (contents r))"
      using x(4,5) ws'
      by (intro apply_past [OF cells_ok_contents [OF x(2)] cells, where a' = a and b' = b])
         (simp add: geo del: in_cells.simps)
    then have "fold apply_write (ws @ rest) (contents r1) = goal" using x(6) ws' m(3) by simp
    then show ?thesis
      using x(3-5) m(2,4) 2 step(4) ws' unfolding pending_def y
      by (intro exI [of _ r1] exI [of _ ws] exI [of _ rest]) (auto simp add: same_geometry_def)
  qed
qed

lemma pending_run:
  "raid_step\<^sup>*\<^sup>* x y \<Longrightarrow> pending r0 a b a' b' goal x \<Longrightarrow> pending r0 a b a' b' goal y"
  by (induction rule: rtranclp_induct) (auto dest: pending_step)

lemma pending_progress:
  assumes "pending r0 a b a' b' goal (r, ts)" and "ts \<noteq> [[], []]"
  shows "\<exists>y. raid_step (r, ts) y"
proof -
  obtain ws ws' where ts: "ts = [ws, ws']" "raid_ok r" "same_geometry r0 r"
    "\<forall>w \<in> set ws. in_cells r a b w" "\<forall>w \<in> set ws'. in_cells r a' b' w"
    using assms(1) by (auto simp add: pending_def in_cells_geometry)
  have "\<exists>k i l c rest a b. k < length ts \<and> ts ! k = (i, l, c) # rest \<and> in_cells r a b (i, l, c)"
  proof (cases ws)
    case (Cons w rest)
    then show ?thesis
      using ts(1,4) by (cases w) (rule exI [of _ 0]; force)
  next
    case Nil
    then obtain w rest where "ws' = w # rest" using assms(2) ts(1) by (cases ws') auto
    then show ?thesis
      using ts(1,5) by (cases w) (rule exI [of _ 1]; force)
  qed
  then obtain k i l c rest a b where k: "k < length ts" "ts ! k = (i, l, c) # rest" "in_cells r a b (i, l, c)"
    by blast
  obtain r1 oc where w: "raid_minion_write r i l c = (r1, oc)" by fastforce
  have "oc = Returns ()" by (rule minion_write_contents(1) [OF ts(2) k(3) w])
  then show ?thesis using raid_step [OF k(1,2)] w by blast
qed

section \<open>Requests\<close>

definition request_writes :: "raid \<Rightarrow> DriverData \<Rightarrow> minion_write list" where
  "request_writes r d = write_plan r (m_offset d) (vsize (m_buffer d)) 0 (m_buffer d)"

lemma request_facts:
  assumes "raid_ok r" and "unat (m_offset d) + length (m_buffer d) \<le> raid_capacity r"
  shows "\<forall>w \<in> set (request_writes r d).
      in_cells r (unat (m_offset d)) (unat (m_offset d) + length (m_buffer d)) w"
    and "\<exists>r'. run_writes r (request_writes r d) = (r', Returns ()) \<and>
      raid_wrote r r' (unat (m_offset d)) (m_buffer d)"
proof -
  have lt: "length (m_buffer d) < 2 ^ 64"
    using raid_shapeD(4) [OF raid_ok_shape [OF assms(1)]] assms(2) by linarith
  then have n: "unat (vsize (m_buffer d)) = length (m_buffer d)" by (rule unat_vsize)
  show "\<forall>w \<in> set (request_writes r d).
      in_cells r (unat (m_offset d)) (unat (m_offset d) + length (m_buffer d)) w"
    using plan_in_cells [OF raid_ok_shape [OF assms(1)], of "m_offset d" "vsize (m_buffer d)" 0 "m_buffer d"]
      assms(2) lt by (simp add: n request_writes_def)
  have bound: "unat (m_offset d) + unat (vsize (m_buffer d)) < 2 ^ 64"
    using raid_shapeD(4) [OF raid_ok_shape [OF assms(1)]] assms(2) n by linarith
  obtain r' where "raid_write_loop r (m_offset d) (vsize (m_buffer d)) 0 (m_buffer d) = (r', Returns ())"
    "raid_wrote r r' (unat (m_offset d)) (subvec (m_buffer d) 0 (length (m_buffer d)))"
    using write_loop_run [OF assms(1) bound, of 0 "m_buffer d"] assms(2) lt by (auto simp add: n min_absorb1)
  then show "\<exists>r'. run_writes r (request_writes r d) = (r', Returns ()) \<and>
      raid_wrote r r' (unat (m_offset d)) (m_buffer d)"
    using run_plan [OF assms(1), of "m_offset d" "vsize (m_buffer d)" 0 "m_buffer d"] assms(2) lt
    by (simp add: n request_writes_def)
qed

text \<open>The flat vector and the agreement of the mirrors are functions of the contents.\<close>

lemma contents_determine:
  assumes "raid_ok r" and "raid_ok r'" and "same_geometry r r'" and "contents r = contents r'"
  shows "raid_flat r = raid_flat r'" and "raid_mirrored r \<longleftrightarrow> raid_mirrored r'"
proof -
  have np: "raid_np r' = raid_np r" using assms(3) by (simp add: same_geometry_def)
  show "raid_flat r = raid_flat r'"
    using assms(4) np by (simp add: raid_flat_def contents_def take_map [symmetric])
  have "contents x ! i = minion_content (rs_minions x ! i)" if "raid_ok x" "i < 2 * raid_np x" for x i
    using that raid_shapeD(1) [OF raid_ok_shape [OF that(1)]] by (simp add: contents_def)
  then show "raid_mirrored r \<longleftrightarrow> raid_mirrored r'"
    using assms(1,2,4) np by (simp add: raid_mirrored_def) (metis index_sum_lt trans_less_add1 mult_2)
qed

lemma cells_apart:
  assumes "in_cells r a b w" and "in_cells r a' b' w'" and "b \<le> a' \<or> b' \<le> a"
  shows "apart w w'"
  using assms by (cases w; cases w') auto

lemma disjoint_pending:
  assumes "raid_ok r"
    and "unat (m_offset d) + length (m_buffer d) \<le> raid_capacity r"
    and "unat (m_offset e) + length (m_buffer e) \<le> raid_capacity r"
    and "unat (m_offset d) + length (m_buffer d) \<le> unat (m_offset e) \<or>
      unat (m_offset e) + length (m_buffer e) \<le> unat (m_offset d)"
  shows "pending r (unat (m_offset d)) (unat (m_offset d) + length (m_buffer d))
      (unat (m_offset e)) (unat (m_offset e) + length (m_buffer e))
      (fold apply_write (request_writes r d @ request_writes r e) (contents r))
      (r, [request_writes r d, request_writes r e])"
proof -
  note fd = request_facts(1) [OF assms(1,2)] and fe = request_facts(1) [OF assms(1,3)]
  have "apart w v" if "w \<in> set (request_writes r e)" "v \<in> set (request_writes r d)" for w v
    using cells_apart [of r _ _ w _ _ v] fd fe that assms(4) by blast
  then show ?thesis
    using assms(1) fd fe by (simp add: pending_def same_geometry_def)
qed

lemma chunk_request:
  assumes "raid_shape r" and "0 < length (m_buffer d)"
    and "unat (m_offset d) + length (m_buffer d) \<le> raid_capacity r"
    and "length (m_buffer d) \<le> raid_stripe r - unat (m_offset d) mod raid_stripe r"
  shows "request_writes r d = chunk_writes r (m_offset d) (m_buffer d)"
proof -
  have lt: "length (m_buffer d) < 2 ^ 64" using raid_shapeD(4) [OF assms(1)] assms(3) by linarith
  note n = unat_vsize [OF this]
  have nz: "vsize (m_buffer d) \<noteq> 0" using n assms(2) by auto
  have "chunk_len r (m_offset d) (vsize (m_buffer d)) = vsize (m_buffer d)"
    using unat_chunk_len [OF assms(1), of "m_offset d" "vsize (m_buffer d)"] assms(4)
    by (simp add: n word_unat_eq_iff)
  then show ?thesis
    using raid_shapeD(5) [OF assms(1)] nz
    by (simp add: request_writes_def write_plan.simps [of r "m_offset d"] n Let_def)
       (simp add: write_plan.simps)
qed

text \<open>An order of all the writes of two threads, each thread's own kept, is a run.\<close>

lemma shuffled_steps:
  assumes "run_writes r ws = (r', Returns ())" and "ws \<in> shuffles as bs"
  shows "raid_step\<^sup>*\<^sup>* (r, [as, bs]) (r', [[], []])"
  using assms
proof (induction ws arbitrary: r as bs)
  case Nil
  then show ?case by simp
next
  case (Cons w ws)
  obtain i l c where w: "w = (i, l, c)" by (cases w)
  obtain r1 oc where "raid_minion_write r i l c = (r1, oc)" by fastforce
  with Cons.prems(1) w have r1: "raid_minion_write r i l c = (r1, Returns ())"
    "run_writes r1 ws = (r', Returns ())"
    by (cases oc; simp)+
  from Cons.prems(2) consider as' where "as = w # as'" "ws \<in> shuffles as' bs"
    | bs' where "bs = w # bs'" "ws \<in> shuffles as bs'"
    by (cases as; cases bs) (auto simp add: Cons_in_shuffles_iff)
  then show ?case
  proof cases
    case 1
    then have "raid_step (r, [as, bs]) (r1, [as', bs])"
      using raid_step [of 0 "[as, bs]" i l c as' r r1] r1(1) w by simp
    then show ?thesis using Cons.IH [OF r1(2) 1(2)] by (rule converse_rtranclp_into_rtranclp)
  next
    case 2
    then have "raid_step (r, [as, bs]) (r1, [as, bs'])"
      using raid_step [of 1 "[as, bs]" i l c bs' r r1] r1(1) w by simp
    then show ?thesis using Cons.IH [OF r1(2) 2(2)] by (rule converse_rtranclp_into_rtranclp)
  qed
qed

lemma append_in_shuffles: "as @ bs \<in> shuffles as bs"
proof (induction as)
  case (Cons a as)
  then show ?case by (cases bs) (auto simp add: Cons_in_shuffles_iff)
qed simp

section \<open>Properties\<close>

text \<open>Writers on disjoint ranges do not disturb each other: however the minion writes of two
  requests inside the capacity interleave, no state on the way is stuck, and at the end the
  array is healthy, its mirrors agree and its flat vector holds both payloads.\<close>

theorem raid_disjoint_writers:
  assumes "raid_ok r" and "raid_mirrored r"
    and "unat (m_offset d) + length (m_buffer d) \<le> raid_capacity r"
    and "unat (m_offset e) + length (m_buffer e) \<le> raid_capacity r"
    and "unat (m_offset d) + length (m_buffer d) \<le> unat (m_offset e) \<or>
      unat (m_offset e) + length (m_buffer e) \<le> unat (m_offset d)"
    and "raid_step\<^sup>*\<^sup>* (r, [request_writes r d, request_writes r e]) (r', ts)"
  shows "(if ts \<noteq> [[], []] then \<exists>y. raid_step (r', ts) y
     else raid_ok r' \<and> raid_mirrored r' \<and> raid_flat r' =
       copy_into (copy_into (raid_flat r) (unat (m_offset d)) (m_buffer d)) (unat (m_offset e)) (m_buffer e))"
proof -
  let ?goal = "fold apply_write (request_writes r d @ request_writes r e) (contents r)"
  have pend: "pending r (unat (m_offset d)) (unat (m_offset d) + length (m_buffer d))
      (unat (m_offset e)) (unat (m_offset e) + length (m_buffer e)) ?goal (r', ts)"
    using pending_run [OF assms(6) disjoint_pending [OF assms(1,3,4,5)]] .
  show ?thesis
  proof (cases "ts = [[], []]")
    case False
    then show ?thesis using pending_progress [OF pend] by simp
  next
    case True
    then have r': "raid_ok r'" "same_geometry r r'" "contents r' = ?goal"
      using pend by (auto simp add: pending_def)
    obtain r1 where r1: "run_writes r (request_writes r d) = (r1, Returns ())"
      "raid_wrote r r1 (unat (m_offset d)) (m_buffer d)"
      using request_facts(2) [OF assms(1,3)] by blast
    note f1 = raid_wrote_fields [OF r1(2)] and ok1 = raid_wroteD(1) [OF r1(2)]
    have plan: "request_writes r1 e = request_writes r e"
      by (simp add: request_writes_def write_plan_cong [OF f1(1,2)])
    obtain r2 where r2: "run_writes r1 (request_writes r e) = (r2, Returns ())"
      "raid_wrote r1 r2 (unat (m_offset e)) (m_buffer e)"
      using request_facts(2) [OF ok1, of e] assms(4) f1(5) by (auto simp add: plan)
    note f2 = raid_wrote_fields [OF r2(2)]
    have geo: "same_geometry r r1" "same_geometry r r2" by (simp_all add: same_geometry_def f1 f2)
    have "contents r1 = fold apply_write (request_writes r d) (contents r)"
      using run_contents [OF assms(1) request_facts(1) [OF assms(1,3)]] r1(1) by auto
    moreover have "contents r2 = fold apply_write (request_writes r e) (contents r1)"
    proof -
      have "\<forall>w \<in> set (request_writes r e). in_cells r1 (unat (m_offset e)) (unat (m_offset e) + length (m_buffer e)) w"
        using request_facts(1) [OF assms(1,4)] unfolding in_cells_geometry [OF geo(1)] .
      from run_contents [OF ok1 this] r2(1) show ?thesis by auto
    qed
    ultimately have "contents r2 = contents r'" using r'(3) by simp
    moreover have "same_geometry r2 r'" using geo r'(2) by (simp add: same_geometry_def)
    ultimately have "raid_flat r2 = raid_flat r'" "raid_mirrored r2 = raid_mirrored r'"
      using contents_determine [OF raid_wroteD(1) [OF r2(2)] r'(1)] by simp_all
    then show ?thesis
      using True r'(1) raid_wroteD(2,3) [OF r2(2)] raid_wroteD(2,3) [OF r1(2)] assms(2) by simp
  qed
qed

theorem raid_disjoint_writers_witness:
  "\<exists>r'. raid_step\<^sup>*\<^sup>* (demo_raid, [request_writes demo_raid (demo_write 2 [1, 2, 3]),
      request_writes demo_raid (demo_write 5 [4])]) (r', [[], []]) \<and>
    raid_mirrored r' \<and> raid_flat r' = [0, 0, 1, 2, 3, 4, 0, 0]"
proof -
  let ?d = "demo_write 2 [1, 2, 3]" and ?e = "demo_write 5 [4]"
  let ?ws = "request_writes demo_raid ?d @ request_writes demo_raid ?e"
  have "\<forall>w \<in> set ?ws. in_cells demo_raid 0 8 w"
    using request_facts(1) [of demo_raid ?d] request_facts(1) [of demo_raid ?e]
    by (auto elim!: in_cells_mono)
  then obtain r' where "run_writes demo_raid ?ws = (r', Returns ())"
    using run_contents [of demo_raid ?ws 0 8] by auto
  then have "raid_step\<^sup>*\<^sup>* (demo_raid, [request_writes demo_raid ?d, request_writes demo_raid ?e]) (r', [[], []])"
    by (rule shuffled_steps) (rule append_in_shuffles)
  with raid_disjoint_writers [of demo_raid ?d ?e, OF _ _ _ _ _ this] show ?thesis
    by (auto simp add: copy_into_def)
qed

text \<open>C20: Writers on the same range may leave a mirror that differs from its primary: for any two
  different payloads of one length inside a stripe there is a run of both requests that ends
  with both having succeeded, every disk healthy, and the mirrors not in agreement, so that a
  later failover changes what is read.\<close>


theorem raid_writers_diverge:
  assumes "raid_ok r" and "m_offset d = m_offset e" and "length (m_buffer d) = length (m_buffer e)"
    and "m_buffer d \<noteq> m_buffer e"
    and "unat (m_offset d) + length (m_buffer d) \<le> raid_capacity r"
    and "length (m_buffer d) \<le> raid_stripe r - unat (m_offset d) mod raid_stripe r"
  shows "\<exists>r'. raid_step\<^sup>*\<^sup>* (r, [request_writes r d, request_writes r e]) (r', [[], []]) \<and>
    raid_ok r' \<and> \<not> raid_mirrored r'"
proof -
  note sh = raid_ok_shape [OF assms(1)]
  let ?c = "m_buffer d" and ?e = "m_buffer e"
  have pos: "0 < length ?c" using assms(3,4) by (cases ?c) auto
  obtain p l where pl: "PrimaryIndex r (m_offset d) = Returns p" "LocalOffset r (m_offset d) = Returns l"
    using indices_defined [OF sh] .
  note w = within_stripe [OF sh assms(5) pos assms(6) pl]
  let ?q = "MirrorIndex r p"
  note q = unat_MirrorIndex [OF sh w(1)]
  have plans: "request_writes r d = [(p, l, ?c), (?q, l, ?c)]" "request_writes r e = [(p, l, ?e), (?q, l, ?e)]"
    using chunk_request [OF sh, of d] chunk_request [OF sh, of e] pos assms(2,3,5,6) pl
    by (simp_all add: chunk_writes_def)
  let ?ws = "[(p, l, ?c), (p, l, ?e), (?q, l, ?e), (?q, l, ?c)]"
  have "\<forall>v \<in> set ?ws. in_cells r 0 (raid_capacity r) v"
    using w q assms(3,5) by simp
  from run_contents [OF assms(1) this] obtain r' where r': "run_writes r ?ws = (r', Returns ())" "raid_ok r'"
    "same_geometry r r'" "contents r' = fold apply_write ?ws (contents r)"
    by blast
  have "?ws \<in> shuffles (request_writes r d) (request_writes r e)"
    unfolding plans by (simp add: Cons_in_shuffles_iff)
  then have run: "raid_step\<^sup>*\<^sup>* (r, [request_writes r d, request_writes r e]) (r', [[], []])"
    by (rule shuffled_steps [OF r'(1)])
  have len: "length (contents r) = 2 * raid_np r"
    "\<And>i. i < 2 * raid_np r \<Longrightarrow> length (contents r ! i) = raid_stripe r"
    using cells_ok_contents [OF assms(1)] by (simp_all add: cells_ok_def)
  have ends: "contents r' ! unat p = copy_into (contents r ! unat p) (unat l) ?e"
    "contents r' ! unat ?q = copy_into (contents r ! unat ?q) (unat l) ?c"
    using r'(4) len w(1,2) q assms(3) by (simp_all add: nth_list_update copy_into_overwrite)
  have "\<not> raid_mirrored r'"
  proof
    assume "raid_mirrored r'"
    then have "minion_content (rs_minions r' ! (raid_np r + unat p)) = minion_content (rs_minions r' ! unat p)"
      using r'(3) w(1) by (simp add: raid_mirrored_def same_geometry_def)
    then have "contents r' ! unat ?q = contents r' ! unat p"
      using raid_shapeD(1) [OF raid_ok_shape [OF r'(2)]] r'(3) w(1) q
      by (simp add: contents_def same_geometry_def)
    then have "subvec (contents r' ! unat ?q) (unat l) (length ?c) = subvec (contents r' ! unat p) (unat l) (length ?e)"
      using assms(3) by simp
    moreover have "subvec (contents r' ! unat ?q) (unat l) (length ?c) = ?c"
      unfolding ends by (rule subvec_copy_into_same) (use len(2) w(1,2) q in simp)
    moreover have "subvec (contents r' ! unat p) (unat l) (length ?e) = ?e"
      unfolding ends by (rule subvec_copy_into_same) (use len(2) w(1,2) assms(3) in simp)
    ultimately show False using assms(4) by simp
  qed
  with run r'(2) show ?thesis by blast
qed

theorem raid_writers_diverge_witness:
  "\<exists>r'. raid_step\<^sup>*\<^sup>* (demo_raid, [request_writes demo_raid (demo_write 1 [1]),
      request_writes demo_raid (demo_write 1 [2])]) (r', [[], []]) \<and> raid_ok r' \<and> \<not> raid_mirrored r'"
proof -
  have "raid_stripe demo_raid = 4" by (simp add: demo_raid_def)
  then show ?thesis
    by (intro raid_writers_diverge) simp_all
qed

end
