(* ===== verification/Local_Storage.thy ===== *)
theory Local_Storage
  imports Raid_Properties
begin

text \<open>
  \<^verbatim>\<open>LocalStorage\<close> (\<^verbatim>\<open>services/local_storage/src/LocalStorage.cpp\<close>), one vector in memory, and the
  interface \<^verbatim>\<open>IStorage\<close> the mediator talks to, with its two implementations as a datatype. The
  locale \<open>istorage\<close> states what both promise for requests inside their bounds; where they
  differ is a request out of bounds: \<^verbatim>\<open>RAIDStorage\<close> reports FAILURE, \<^verbatim>\<open>LocalStorage\<close> throws.
\<close>

section \<open>LocalStorage\<close>

record local_storage =
  ls_storage :: vec
  ls_offset_sizes :: "(size_t, size_t) omap"

definition LocalStorage :: "size_t \<Rightarrow> local_storage" where
  "LocalStorage nbytes = \<lparr>ls_storage = replicate (unat nbytes) 0, ls_offset_sizes = []\<rparr>"

text \<open>As in the minions, the bounds check adds two \<open>size_t\<close> values.\<close>

definition Local_Read :: "local_storage \<Rightarrow> DriverData \<Rightarrow> DriverData outcome" where
  "Local_Read s d =
     (if m_offset d + vsize (m_buffer d) > vsize (ls_storage s)
      then Throws (Out_of_range ''Read exceeds storage bounds'')
      else if unat (m_offset d) + length (m_buffer d) > length (ls_storage s) then Undef
      else Returns (d\<lparr>m_buffer :=
             subvec (ls_storage s) (unat (m_offset d)) (length (m_buffer d))\<rparr>))"

definition Local_Write :: "local_storage \<Rightarrow> DriverData \<Rightarrow> (local_storage \<times> DriverData) outcome" where
  "Local_Write s d =
     (if m_offset d + vsize (m_buffer d) > vsize (ls_storage s)
      then Throws (Out_of_range ''Write exceeds storage bounds'')
      else if unat (m_offset d) + length (m_buffer d) > length (ls_storage s) then Undef
      else Returns (s\<lparr>ls_storage := copy_into (ls_storage s) (unat (m_offset d)) (m_buffer d),
                      ls_offset_sizes := map_put (m_offset d) (vsize (m_buffer d)) (ls_offset_sizes s)\<rparr>,
                    d))"

definition Local_GetDataSize :: "local_storage \<Rightarrow> size_t \<Rightarrow> size_t" where
  "Local_GetDataSize s offset = size_at (ls_offset_sizes s) offset"

definition Local_ListOffsets :: "local_storage \<Rightarrow> (size_t \<times> size_t) list" where
  "Local_ListOffsets s = map (\<lambda>(offset, size). (offset, size)) (ls_offset_sizes s)"

section \<open>IStorage: dynamic dispatch\<close>

datatype storage = Raid_storage raid | Local_storage local_storage

fun Storage_Read :: "storage \<Rightarrow> DriverData \<Rightarrow> DriverData outcome" where
  "Storage_Read (Raid_storage r) d = RAID_Read r d"
| "Storage_Read (Local_storage s) d = Local_Read s d"

fun Storage_Write :: "storage \<Rightarrow> DriverData \<Rightarrow> (storage \<times> DriverData) outcome" where
  "Storage_Write (Raid_storage r) d =
     obind (RAID_Write r d) (\<lambda>(r', d'). Returns (Raid_storage r', d'))"
| "Storage_Write (Local_storage s) d =
     obind (Local_Write s d) (\<lambda>(s', d'). Returns (Local_storage s', d'))"

fun Storage_GetDataSize :: "storage \<Rightarrow> size_t \<Rightarrow> size_t" where
  "Storage_GetDataSize (Raid_storage r) offset = RAID_GetDataSize r offset"
| "Storage_GetDataSize (Local_storage s) offset = Local_GetDataSize s offset"

fun Storage_ListOffsets :: "storage \<Rightarrow> (size_t \<times> size_t) list" where
  "Storage_ListOffsets (Raid_storage r) = RAID_ListOffsets r"
| "Storage_ListOffsets (Local_storage s) = Local_ListOffsets s"

section \<open>The contract of a storage\<close>

definition local_ok :: "local_storage \<Rightarrow> bool" where
  "local_ok s \<longleftrightarrow> length (ls_storage s) < 2 ^ 64 \<and> map_inv (ls_offset_sizes s)"

fun storage_ok :: "storage \<Rightarrow> bool" where
  "storage_ok (Raid_storage r) = raid_ok r"
| "storage_ok (Local_storage s) = local_ok s"

fun storage_flat :: "storage \<Rightarrow> vec" where
  "storage_flat (Raid_storage r) = raid_flat r"
| "storage_flat (Local_storage s) = ls_storage s"

text \<open>A request as a driver makes it: SUCCESS so far, a buffer of the announced length.\<close>

definition fresh_request :: "DriverData \<Rightarrow> bool" where
  "fresh_request d \<longleftrightarrow> m_status d = SUCCESS \<and> length (m_buffer d) = unat (m_len d)"

definition in_bounds :: "DriverData \<Rightarrow> vec \<Rightarrow> bool" where
  "in_bounds d v \<longleftrightarrow> unat (m_offset d) + length (m_buffer d) \<le> length v"

locale istorage =
  fixes rd :: "'s \<Rightarrow> DriverData \<Rightarrow> DriverData outcome"
    and wr :: "'s \<Rightarrow> DriverData \<Rightarrow> ('s \<times> DriverData) outcome"
    and data_size :: "'s \<Rightarrow> size_t \<Rightarrow> size_t"
    and offsets :: "'s \<Rightarrow> (size_t \<times> size_t) list"
    and flat :: "'s \<Rightarrow> vec"
    and ok :: "'s \<Rightarrow> bool"
  assumes read_inside: "ok s \<Longrightarrow> fresh_request d \<Longrightarrow> in_bounds d (flat s) \<Longrightarrow>
      rd s d = Returns (d\<lparr>m_buffer := subvec (flat s) (unat (m_offset d)) (length (m_buffer d))\<rparr>)"
    and write_inside: "ok s \<Longrightarrow> fresh_request d \<Longrightarrow> in_bounds d (flat s) \<Longrightarrow>
      \<exists>s'. wr s d = Returns (s', d) \<and> ok s' \<and>
           flat s' = copy_into (flat s) (unat (m_offset d)) (m_buffer d) \<and>
           offsets s' = map_put (m_offset d) (vsize (m_buffer d)) (offsets s)"
    and size_listed: "data_size s off = size_at (offsets s) off"
    and offsets_sorted: "ok s \<Longrightarrow> map_inv (offsets s)"
begin

lemma write_result:
  assumes "ok s" and "fresh_request d" and "in_bounds d (flat s)" and "wr s d = Returns (s', d')"
  shows "d' = d" and "ok s'" and "flat s' = copy_into (flat s) (unat (m_offset d)) (m_buffer d)"
    and "offsets s' = map_put (m_offset d) (vsize (m_buffer d)) (offsets s)"
    and "length (flat s') = length (flat s)"
  using write_inside [OF assms(1-3)] assms(3,4) by (auto simp add: in_bounds_def)

lemma read_after_write:
  assumes "ok s" and "fresh_request d" and "in_bounds d (flat s)" and "wr s d = Returns (s', d')"
    and "fresh_request q" and "m_offset q = m_offset d" and "m_len q = m_len d"
  shows "rd s' q = Returns (q\<lparr>m_buffer := m_buffer d\<rparr>)"
proof -
  note w = write_result [OF assms(1-4)]
  have len: "length (m_buffer q) = length (m_buffer d)"
    using assms(2,5,7) by (simp add: fresh_request_def)
  have "in_bounds q (flat s')" using assms(3,6) len w(5) by (simp add: in_bounds_def)
  then show ?thesis
    using read_inside [OF w(2) assms(5)] assms(3,6) len
    by (simp add: w(3) subvec_copy_into_same in_bounds_def)
qed

text \<open>The size recorded for an offset is that of its last write.\<close>

lemma size_after_write:
  assumes "ok s" and "fresh_request d" and "in_bounds d (flat s)" and "wr s d = Returns (s', d')"
  shows "data_size s' off = (if off = m_offset d then vsize (m_buffer d) else data_size s off)"
  using write_result [OF assms] by (simp add: size_listed)

fun writes :: "'s \<Rightarrow> DriverData list \<Rightarrow> 's outcome" where
  "writes s [] = Returns s"
| "writes s (d # ds) = obind (wr s d) (\<lambda>(s1, _). writes s1 ds)"

text \<open>A run of writes is one fold over the vector, and one over the recorded sizes.\<close>

lemma writes_fold:
  assumes "ok s" and "\<forall>d \<in> set ds. fresh_request d \<and> in_bounds d (flat s)"
  shows "\<exists>s'. writes s ds = Returns s' \<and> ok s' \<and>
    flat s' = fold (\<lambda>d v. copy_into v (unat (m_offset d)) (m_buffer d)) ds (flat s) \<and>
    offsets s' = fold (\<lambda>d. map_put (m_offset d) (vsize (m_buffer d))) ds (offsets s)"
  using assms
proof (induction ds arbitrary: s)
  case Nil
  then show ?case by simp
next
  case (Cons d ds)
  obtain s1 where s1: "wr s d = Returns (s1, d)" "ok s1"
    "flat s1 = copy_into (flat s) (unat (m_offset d)) (m_buffer d)"
    "offsets s1 = map_put (m_offset d) (vsize (m_buffer d)) (offsets s)"
    using write_inside [of s d] Cons.prems by auto
  have "length (flat s1) = length (flat s)"
    using Cons.prems(2) s1(3) by (simp add: in_bounds_def)
  then have "\<forall>d \<in> set ds. fresh_request d \<and> in_bounds d (flat s1)"
    using Cons.prems(2) by (simp add: in_bounds_def)
  then obtain s' where "writes s1 ds = Returns s'" "ok s'"
    "flat s' = fold (\<lambda>d v. copy_into v (unat (m_offset d)) (m_buffer d)) ds (flat s1)"
    "offsets s' = fold (\<lambda>d. map_put (m_offset d) (vsize (m_buffer d))) ds (offsets s1)"
    using Cons.IH [of s1] s1(2) by auto
  then show ?case using s1 by simp
qed

text \<open>Bytes stay until a later write touches them.\<close>

lemma fold_keeps_range:
  assumes "\<forall>d \<in> set ds. unat (m_offset d) + length (m_buffer d) \<le> length v \<and>
      (unat (m_offset d) + length (m_buffer d) \<le> p \<or> p + n \<le> unat (m_offset d))"
    and "p + n \<le> length v"
  shows "subvec (fold (\<lambda>d v. copy_into v (unat (m_offset d)) (m_buffer d)) ds v) p n = subvec v p n"
  using assms
proof (induction ds arbitrary: v)
  case Nil
  then show ?case by simp
next
  case (Cons d ds)
  let ?v = "copy_into v (unat (m_offset d)) (m_buffer d)"
  have "length ?v = length v" using Cons.prems(1) by simp
  then have "subvec (fold (\<lambda>d v. copy_into v (unat (m_offset d)) (m_buffer d)) ds ?v) p n = subvec ?v p n"
    using Cons.prems by (intro Cons.IH) simp_all
  also have "subvec ?v p n = subvec v p n"
    using Cons.prems by (intro subvec_copy_into_other) auto
  finally show ?case by simp
qed

lemma read_latest:
  assumes "ok s" and "\<forall>x \<in> set (before @ d # after). fresh_request x \<and> in_bounds x (flat s)"
    and "\<forall>x \<in> set after. unat (m_offset x) + length (m_buffer x) \<le> unat (m_offset d) \<or>
      unat (m_offset d) + length (m_buffer d) \<le> unat (m_offset x)"
    and "fresh_request q" and "m_offset q = m_offset d" and "m_len q = m_len d"
  shows "\<exists>s'. writes s (before @ d # after) = Returns s' \<and> ok s' \<and>
    rd s' q = Returns (q\<lparr>m_buffer := m_buffer d\<rparr>)"
proof -
  let ?put = "\<lambda>d v. copy_into v (unat (m_offset d)) (m_buffer d)"
  obtain s' where s': "writes s (before @ d # after) = Returns s'" "ok s'"
    "flat s' = fold ?put (before @ d # after) (flat s)"
    using writes_fold [OF assms(1,2)] by blast
  have len: "length (fold ?put xs v) = length v" if "\<forall>x \<in> set xs. in_bounds x v" for xs v
    using that by (induction xs arbitrary: v) (auto simp add: in_bounds_def)
  let ?v = "?put d (fold ?put before (flat s))"
  have before: "length (fold ?put before (flat s)) = length (flat s)"
    using assms(2) by (intro len) auto
  then have v: "length ?v = length (flat s)" using assms(2) by (simp add: in_bounds_def)
  have flat: "flat s' = fold ?put after ?v" using s'(3) by simp
  have qlen: "length (m_buffer q) = length (m_buffer d)"
    using assms(2,4,6) by (simp add: fresh_request_def)
  have "length (flat s') = length (flat s)"
    using len [of after ?v] assms(2) v flat by (simp add: in_bounds_def)
  then have "in_bounds q (flat s')" using assms(2,5) qlen by (simp add: in_bounds_def)
  moreover have "subvec (flat s') (unat (m_offset d)) (length (m_buffer d)) = m_buffer d"
  proof -
    have "subvec (flat s') (unat (m_offset d)) (length (m_buffer d))
        = subvec ?v (unat (m_offset d)) (length (m_buffer d))"
      unfolding flat using assms(2,3) v by (intro fold_keeps_range) (auto simp add: in_bounds_def)
    also have "\<dots> = m_buffer d"
      using assms(2) before by (intro subvec_copy_into_same) (simp add: in_bounds_def)
    finally show ?thesis .
  qed
  ultimately show ?thesis
    using s'(1,2) read_inside [OF s'(2) assms(4)] by (simp add: assms(5) qlen)
qed

end

section \<open>Both implementations keep it\<close>

lemma pairs_id [simp]: "map (\<lambda>(a, b). (a, b)) xs = xs"
  by (induction xs) auto

lemma RAID_ListOffsets_eq [simp]: "RAID_ListOffsets r = rs_offset_sizes r"
  by (simp add: RAID_ListOffsets_def)

lemma fresh_status [simp]: "fresh_request d \<Longrightarrow> d\<lparr>m_status := SUCCESS\<rparr> = d"
  by (simp add: fresh_request_def)

lemma raid_storage_contract:
  "istorage RAID_Read RAID_Write RAID_GetDataSize RAID_ListOffsets raid_flat raid_ok"
proof (unfold_locales, goal_cases)
  case (1 s d)
  then have cap: "unat (m_offset d) + unat (m_len d) \<le> raid_capacity s"
    and "length (m_buffer d) = unat (m_len d)"
    by (simp_all add: in_bounds_def fresh_request_def length_raid_flat raid_ok_filled)
  moreover have "d\<lparr>m_buffer := b, m_status := SUCCESS\<rparr> = d\<lparr>m_buffer := b\<rparr>" for b
    using 1(2) by (simp add: fresh_request_def)
  ultimately show ?case
    using RAID_Read_serves [OF raid_ok_shape [OF 1(1)] chunks_serve_ok [OF 1(1)] cap] by simp
next
  case (2 s d)
  then have "unat (m_offset d) + length (m_buffer d) \<le> raid_capacity s"
    by (simp add: in_bounds_def length_raid_flat raid_ok_filled)
  then obtain r1 where w: "raid_wrote s r1 (unat (m_offset d)) (m_buffer d)"
    and run: "RAID_Write s d = Returns
      (r1\<lparr>rs_offset_sizes := map_put (m_offset d) (vsize (m_buffer d)) (rs_offset_sizes s),
          rs_metadata_store := Store_Save (rs_metadata_store s)
            (map_put (m_offset d) (vsize (m_buffer d)) (rs_offset_sizes s))\<rparr>,
       d\<lparr>m_status := SUCCESS\<rparr>)"
    by (rule RAID_Write_inside [OF 2(1)])
  show ?case
    using run raid_wroteD(2) [OF w] raid_ok_recorded [OF 2(1) raid_wroteD(1) [OF w]] 2(2) by simp
next
  case (3 s off)
  then show ?case by (simp add: RAID_GetDataSize_def)
next
  case (4 s)
  then show ?case by (simp add: raid_ok_def raid_shape_def)
qed

interpretation raidst: istorage RAID_Read RAID_Write RAID_GetDataSize RAID_ListOffsets raid_flat raid_ok
  by (rule raid_storage_contract)

lemma local_storage_contract:
  "istorage Local_Read Local_Write Local_GetDataSize Local_ListOffsets ls_storage local_ok"
proof (unfold_locales, goal_cases)
  case (1 s d)
  then have "unat (m_offset d) + length (m_buffer d) \<le> unat (vsize (ls_storage s))"
    by (simp add: in_bounds_def local_ok_def unat_vsize)
  with 1 show ?case by (simp add: Local_Read_def bound_check_passes in_bounds_def)
next
  case (2 s d)
  then have "unat (m_offset d) + length (m_buffer d) \<le> unat (vsize (ls_storage s))"
    by (simp add: in_bounds_def local_ok_def unat_vsize)
  with 2 show ?case
    by (simp add: Local_Write_def bound_check_passes in_bounds_def local_ok_def Local_ListOffsets_def)
next
  case (3 s off)
  then show ?case by (simp add: Local_GetDataSize_def Local_ListOffsets_def)
next
  case (4 s)
  then show ?case by (simp add: local_ok_def Local_ListOffsets_def)
qed

interpretation localst: istorage Local_Read Local_Write Local_GetDataSize Local_ListOffsets ls_storage local_ok
  by (rule local_storage_contract)

lemma storage_contract:
  "istorage Storage_Read Storage_Write Storage_GetDataSize Storage_ListOffsets storage_flat storage_ok"
proof (unfold_locales, goal_cases)
  case (1 s d)
  then show ?case by (cases s) (simp_all add: raidst.read_inside localst.read_inside)
next
  case (2 s d)
  show ?case
  proof (cases s)
    case (Raid_storage r)
    with 2 obtain r' where "RAID_Write r d = Returns (r', d)" "raid_ok r'"
      "raid_flat r' = copy_into (raid_flat r) (unat (m_offset d)) (m_buffer d)"
      "RAID_ListOffsets r' = map_put (m_offset d) (vsize (m_buffer d)) (RAID_ListOffsets r)"
      using raidst.write_inside [of r d] by auto
    with Raid_storage show ?thesis by simp
  next
    case (Local_storage l)
    with 2 obtain l' where "Local_Write l d = Returns (l', d)" "local_ok l'"
      "ls_storage l' = copy_into (ls_storage l) (unat (m_offset d)) (m_buffer d)"
      "Local_ListOffsets l' = map_put (m_offset d) (vsize (m_buffer d)) (Local_ListOffsets l)"
      using localst.write_inside [of l d] by auto
    with Local_storage show ?thesis by simp
  qed
next
  case (3 s off)
  then show ?case by (cases s) (simp_all add: raidst.size_listed localst.size_listed)
next
  case (4 s)
  then show ?case by (cases s) (auto dest: raidst.offsets_sorted localst.offsets_sorted)
qed

interpretation stor: istorage
  Storage_Read Storage_Write Storage_GetDataSize Storage_ListOffsets storage_flat storage_ok
  by (rule storage_contract)

section \<open>Properties\<close>

fun Storage_Writes :: "storage \<Rightarrow> DriverData list \<Rightarrow> storage outcome" where
  "Storage_Writes s [] = Returns s"
| "Storage_Writes s (d # ds) = obind (Storage_Write s d) (\<lambda>(s1, _). Storage_Writes s1 ds)"

lemma Storage_Writes_eq: "Storage_Writes s ds = stor.writes s ds"
  by (induction ds arbitrary: s) (auto intro: arg_cong [where f = "obind _"])

text \<open>Read your writes, on either storage: in a run of writes inside the bounds, the bytes of a
  write that no later one overlaps are what a read of its range returns at the end of the run,
  whatever was written before.\<close>

theorem storage_reads_latest_write:
  assumes "storage_ok s"
    and "\<forall>x \<in> set (before @ d # after). fresh_request x \<and> in_bounds x (storage_flat s)"
    and "\<forall>x \<in> set after. unat (m_offset x) + length (m_buffer x) \<le> unat (m_offset d) \<or>
      unat (m_offset d) + length (m_buffer d) \<le> unat (m_offset x)"
    and "fresh_request q" and "m_offset q = m_offset d" and "m_len q = m_len d"
  shows "\<exists>s'. Storage_Writes s (before @ d # after) = Returns s' \<and>
    Storage_Read s' q = Returns (q\<lparr>m_buffer := m_buffer d\<rparr>)"
  using stor.read_latest [OF assms] unfolding Storage_Writes_eq by blast

theorem storage_reads_latest_write_witness:
  "\<exists>s'. Storage_Writes (Raid_storage demo_raid)
      ([demo_write 2 [1, 2, 3, 4, 5]] @ demo_write 3 [8, 9] # [demo_write 5 [7]]) = Returns s' \<and>
    Storage_Read s' (demo_write 3 [0, 0]) = Returns ((demo_write 3 [0, 0])\<lparr>m_buffer := [8, 9]\<rparr>)"
  using storage_reads_latest_write [of "Raid_storage demo_raid" "[demo_write 2 [1, 2, 3, 4, 5]]"
      "demo_write 3 [8, 9]" "[demo_write 5 [7]]" "demo_write 3 [0, 0]"]
  by (simp add: fresh_request_def in_bounds_def vsize_def)

text \<open>A run of writes inside the bounds leaves in \<open>ListOffsets\<close>, for every offset, the size of
  the last write there (sizes do not add up), in ascending order of the offsets, and
  \<open>GetDataSize\<close> agrees with it.\<close>

theorem storage_lists_last_sizes:
  assumes "storage_ok s" and "\<forall>x \<in> set (before @ d # after). fresh_request x \<and> in_bounds x (storage_flat s)"
    and "\<forall>x \<in> set after. m_offset x \<noteq> m_offset d"
  shows "\<exists>s'. Storage_Writes s (before @ d # after) = Returns s' \<and>
    sorted_wrt (<) (map fst (Storage_ListOffsets s')) \<and>
    (m_offset d, vsize (m_buffer d)) \<in> set (Storage_ListOffsets s') \<and>
    Storage_GetDataSize s' (m_offset d) = vsize (m_buffer d)"
proof -
  let ?put = "\<lambda>d. map_put (m_offset d) (vsize (m_buffer d))"
  obtain s' where s': "Storage_Writes s (before @ d # after) = Returns s'" "storage_ok s'"
    "Storage_ListOffsets s' = fold ?put (before @ d # after) (Storage_ListOffsets s)"
    using stor.writes_fold [OF assms(1,2)] unfolding Storage_Writes_eq by blast
  have inv: "map_inv (Storage_ListOffsets s')" by (rule stor.offsets_sorted [OF s'(2)])
  have keep: "map_of (fold ?put xs m) (m_offset d) = map_of m (m_offset d)"
    if "\<forall>x \<in> set xs. m_offset x \<noteq> m_offset d" for xs and m :: "(size_t, size_t) omap"
    using that by (induction xs arbitrary: m) auto
  have look: "map_of (Storage_ListOffsets s') (m_offset d) = Some (vsize (m_buffer d))"
    using keep [OF assms(3)] by (simp add: s'(3))
  then have "Storage_GetDataSize s' (m_offset d) = vsize (m_buffer d)"
    by (simp add: stor.size_listed size_at_def)
  then show ?thesis
    using s'(1) inv look by (auto simp add: map_inv_def dest: map_of_SomeD)
qed

theorem storage_lists_last_sizes_witness:
  "\<exists>s'. Storage_Writes (Local_storage (LocalStorage 8))
      ([demo_write 2 [1, 2, 3]] @ demo_write 2 [8] # [demo_write 1 [7]]) = Returns s' \<and>
    Storage_GetDataSize s' 2 = 1"
  using storage_lists_last_sizes [of "Local_storage (LocalStorage 8)" "[demo_write 2 [1, 2, 3]]"
      "demo_write 2 [8]" "[demo_write 1 [7]]"]
  by (auto simp add: fresh_request_def in_bounds_def vsize_def LocalStorage_def local_ok_def)

text \<open>Out of bounds the two storages part: \<open>RAIDStorage\<close> reports FAILURE, so that the client gets
  an error reply, while \<open>LocalStorage\<close> throws \<^verbatim>\<open>std::out_of_range\<close> and leaves the request as
  it was.\<close>

theorem storage_out_of_bounds:
  assumes "raid_ok r" and "local_ok s" and "m_buffer d \<noteq> []"
    and "raid_capacity r < unat (m_offset d) + length (m_buffer d)"
    and "length (ls_storage s) < unat (m_offset d) + length (m_buffer d)"
    and "unat (m_offset d) + length (m_buffer d) < 2 ^ 64"
  shows "(\<exists>r'. Storage_Write (Raid_storage r) d = Returns (Raid_storage r', d\<lparr>m_status := FAILURE\<rparr>)) \<and>
    Storage_Write (Local_storage s) d = Throws (Out_of_range ''Write exceeds storage bounds'') \<and>
    Storage_Read (Local_storage s) d = Throws (Out_of_range ''Read exceeds storage bounds'')"
proof -
  obtain r1 where "RAID_Write r d = Returns (r1, d\<lparr>m_status := FAILURE\<rparr>)"
    by (rule RAID_Write_beyond [OF assms(1,3,4,6)])
  moreover have "m_offset d + vsize (m_buffer d) > vsize (ls_storage s)"
    using assms(2,5,6) by (simp add: bound_check_exact local_ok_def unat_vsize)
  ultimately show ?thesis by (simp add: Local_Write_def Local_Read_def)
qed

theorem storage_out_of_bounds_witness:
  "(\<exists>r'. Storage_Write (Raid_storage demo_raid) (demo_write 7 [1, 2])
      = Returns (Raid_storage r', (demo_write 7 [1, 2])\<lparr>m_status := FAILURE\<rparr>)) \<and>
    Storage_Write (Local_storage (LocalStorage 8)) (demo_write 7 [1, 2])
      = Throws (Out_of_range ''Write exceeds storage bounds'')"
  using storage_out_of_bounds [of demo_raid "LocalStorage 8" "demo_write 7 [1, 2]"]
  by (simp add: LocalStorage_def local_ok_def)

end
