(* ===== verification/Socket_Stream.thy ===== *)
theory Socket_Stream
  imports Lds_Prelude
begin

text \<open>
  Stream sockets as both drivers use them. What the peer sent arrives in segments of the
  kernel's choosing, then the connection is at its end, reset or quiet; a \<open>read\<close> returns at
  most one segment. A \<open>write\<close> takes as many bytes as the kernel likes, fails, or raises
  \<^verbatim>\<open>SIGPIPE\<close>, which the program neither blocks nor ignores, so that the process ends.

  The loops \<open>ReadAll\<close>/\<open>WriteAll\<close> of the two drivers differ only in their exceptions, which are
  parameters here. The locales \<open>stream_reader\<close> and \<open>stream_writer\<close> say what a driver may
  rely on; they speak of the byte stream, not of segments.
\<close>

section \<open>A connected socket\<close>

datatype stream_end = Eof | Reset | Quiet

datatype write_answer = Takes nat | Write_error | Broken_pipe

text \<open>
  \<open>sk_in\<close> the segments that were not read yet, \<open>sk_end\<close> what comes after them, \<open>sk_out\<close> the
  bytes handed to the kernel, \<open>sk_wr\<close> its answers to the next \<open>write\<close>s (it takes everything
  once they are used up), \<open>sk_errno\<close> what \<^verbatim>\<open>strerror(errno)\<close> says after a failure.
\<close>

record socket =
  sk_in :: "vec list"
  sk_end :: stream_end
  sk_out :: vec
  sk_wr :: "write_answer list"
  sk_errno :: string

datatype read_result = Got vec | Read_error | Read_waits

definition sys_read :: "socket \<Rightarrow> nat \<Rightarrow> socket \<times> read_result" where
  "sys_read s n =
     (case sk_in s of
        [] \<Rightarrow> (s, case sk_end s of Eof \<Rightarrow> Got [] | Reset \<Rightarrow> Read_error | Quiet \<Rightarrow> Read_waits)
      | seg # segs \<Rightarrow>
          (s\<lparr>sk_in := if length seg \<le> n then segs else drop n seg # segs\<rparr>, Got (take n seg)))"

datatype write_result = Wrote nat | Write_failed | Killed

definition sys_write :: "socket \<Rightarrow> vec \<Rightarrow> socket \<times> write_result" where
  "sys_write s bs =
     (case sk_wr s of
        [] \<Rightarrow> (s\<lparr>sk_out := sk_out s @ bs\<rparr>, Wrote (length bs))
      | Takes k # ws \<Rightarrow> (s\<lparr>sk_out := sk_out s @ take k bs, sk_wr := ws\<rparr>, Wrote (min k (length bs)))
      | Write_error # ws \<Rightarrow> (s\<lparr>sk_wr := ws\<rparr>, Write_failed)
      | Broken_pipe # ws \<Rightarrow> (s\<lparr>sk_wr := ws\<rparr>, Killed))"

section \<open>The loops\<close>

function read_loop ::
  "(string \<Rightarrow> exn) \<Rightarrow> (string \<Rightarrow> exn) \<Rightarrow> socket \<Rightarrow> nat \<Rightarrow> socket \<times> vec outcome" where
  "read_loop failed at_end s remaining =
     (if remaining = 0 then (s, Returns [])
      else case sys_read s remaining of
             (s1, Read_error) \<Rightarrow> (s1, Throws (failed (sk_errno s1)))
           | (s1, Read_waits) \<Rightarrow> (s1, Blocks)
           | (s1, Got bs) \<Rightarrow>
               if bs = [] then (s1, Throws (at_end (sk_errno s1)))
               else case read_loop failed at_end s1 (remaining - length bs) of
                      (s2, oc) \<Rightarrow> (s2, obind oc (\<lambda>more. Returns (bs @ more))))"
  by pat_completeness auto
termination
  by (relation "measure (\<lambda>(failed, at_end, s, n). n)") auto

function write_loop ::
  "(string \<Rightarrow> exn) \<Rightarrow> (string \<Rightarrow> exn) \<Rightarrow> socket \<Rightarrow> vec \<Rightarrow> socket \<times> unit outcome" where
  "write_loop failed at_end s bs =
     (if bs = [] then (s, Returns ())
      else case sys_write s bs of
             (s1, Write_failed) \<Rightarrow> (s1, Throws (failed (sk_errno s1)))
           | (s1, Killed) \<Rightarrow> (s1, Dies)
           | (s1, Wrote n) \<Rightarrow>
               if n = 0 then (s1, Throws (at_end (sk_errno s1)))
               else write_loop failed at_end s1 (drop n bs))"
  by pat_completeness auto
termination
  by (relation "measure (\<lambda>(failed, at_end, s, bs). length bs)") auto

declare read_loop.simps [simp del] write_loop.simps [simp del]

section \<open>Streams\<close>

definition stream :: "socket \<Rightarrow> vec" where
  "stream s = concat (sk_in s)"

definition sock_wf :: "socket \<Rightarrow> bool" where
  "sock_wf s \<longleftrightarrow> [] \<notin> set (sk_in s)"

text \<open>\<open>s'\<close> is \<open>s\<close> after its first \<open>n\<close> bytes have been read.\<close>

definition consumed :: "socket \<Rightarrow> nat \<Rightarrow> socket \<Rightarrow> bool" where
  "consumed s n s' \<longleftrightarrow> sock_wf s' \<and> stream s' = drop n (stream s) \<and> s' = s\<lparr>sk_in := sk_in s'\<rparr>"

text \<open>How a read of more bytes than there are ends.\<close>

definition short_outcome :: "(string \<Rightarrow> exn) \<Rightarrow> (string \<Rightarrow> exn) \<Rightarrow> socket \<Rightarrow> vec outcome" where
  "short_outcome failed at_end s =
     (case sk_end s of
        Eof \<Rightarrow> Throws (at_end (sk_errno s))
      | Reset \<Rightarrow> Throws (failed (sk_errno s))
      | Quiet \<Rightarrow> Blocks)"

text \<open>The kernel takes at least one byte of every write.\<close>

definition accepting :: "socket \<Rightarrow> bool" where
  "accepting s \<longleftrightarrow> (\<forall>w \<in> set (sk_wr s). \<exists>k > 0. w = Takes k)"

named_theorems stream_simps \<open>what a read or a write leaves of the stream\<close>

lemma consumedD:
  assumes "consumed s n s'"
  shows "sock_wf s'" and "stream s' = drop n (stream s)" and "sk_end s' = sk_end s"
    and "sk_out s' = sk_out s" and "sk_wr s' = sk_wr s" and "sk_errno s' = sk_errno s"
proof -
  show "sock_wf s'" "stream s' = drop n (stream s)" using assms by (simp_all add: consumed_def)
  obtain segs where "s' = s\<lparr>sk_in := segs\<rparr>" using assms by (auto simp add: consumed_def)
  then show "sk_end s' = sk_end s" "sk_out s' = sk_out s" "sk_wr s' = sk_wr s"
    "sk_errno s' = sk_errno s" by simp_all
qed

lemma consumed_zero: "sock_wf s \<Longrightarrow> consumed s 0 s"
  by (simp add: consumed_def)

lemma consumed_trans:
  assumes "consumed s n s1" and "consumed s1 m s2"
  shows "consumed s (n + m) s2"
proof -
  have "s1 = s\<lparr>sk_in := sk_in s1\<rparr>" "s2 = s1\<lparr>sk_in := sk_in s2\<rparr>"
    using assms by (simp_all add: consumed_def)
  then have "s2 = s\<lparr>sk_in := sk_in s2\<rparr>" by (metis socket.update_convs(1) socket.surjective)
  then show ?thesis
    using assms by (simp add: consumed_def add.commute)
qed

section \<open>What a driver may rely on\<close>

locale stream_reader =
  fixes read_all :: "socket \<Rightarrow> nat \<Rightarrow> socket \<times> vec outcome"
    and short :: "socket \<Rightarrow> vec outcome"
  assumes read_enough: "sock_wf s \<Longrightarrow> n \<le> length (stream s) \<Longrightarrow>
      \<exists>s'. read_all s n = (s', Returns (take n (stream s))) \<and> consumed s n s'"
    and read_short: "sock_wf s \<Longrightarrow> length (stream s) < n \<Longrightarrow>
      \<exists>s'. read_all s n = (s', short s) \<and> consumed s (length (stream s)) s'"
    and short_no_value: "short s \<noteq> Returns bs"
begin

lemma read_front:
  assumes "sock_wf s" and "stream s = a @ b" and "length a = n"
  obtains s' where "read_all s n = (s', Returns a)" and "consumed s n s'" and "stream s' = b"
    and "sock_wf s'"
proof -
  have n: "n \<le> length (stream s)" "take n (stream s) = a" "drop n (stream s) = b"
    using assms(2,3) by simp_all
  obtain s' where s': "read_all s n = (s', Returns (take n (stream s)))" "consumed s n s'"
    using read_enough [OF assms(1) n(1)] by blast
  then show thesis using that [of s'] consumedD(1,2) [OF s'(2)] n by simp
qed

lemma read_returns:
  assumes "sock_wf s" and "read_all s n = (s', Returns bs)"
  shows "n \<le> length (stream s)" and "bs = take n (stream s)" and "consumed s n s'"
proof -
  show n: "n \<le> length (stream s)"
  proof (rule ccontr)
    assume "\<not> n \<le> length (stream s)"
    then obtain s2 where "read_all s n = (s2, short s)"
      using read_short [OF assms(1)] by (meson not_le)
    then have "short s = Returns bs" using assms(2) by simp
    then show False using short_no_value by blast
  qed
  show "bs = take n (stream s)" "consumed s n s'"
    using read_enough [OF assms(1) n] assms(2) by auto
qed

text \<open>How the kernel cuts the stream into segments is of no consequence.\<close>

lemma segmentation_irrelevant:
  assumes "sock_wf s" and "sock_wf t" and "stream s = stream t" and "short s = short t"
  shows "snd (read_all s n) = snd (read_all t n)"
    and "stream (fst (read_all s n)) = stream (fst (read_all t n))"
proof -
  have "snd (read_all s n) = snd (read_all t n) \<and>
    stream (fst (read_all s n)) = stream (fst (read_all t n))"
  proof (cases "n \<le> length (stream s)")
    case True
    then show ?thesis
      using read_enough [OF assms(1) True] read_enough [OF assms(2), of n] assms(3)
      by (auto simp add: consumed_def)
  next
    case False
    then show ?thesis
      using read_short [OF assms(1), of n] read_short [OF assms(2), of n] assms(3,4)
      by (auto simp add: consumed_def)
  qed
  then show "snd (read_all s n) = snd (read_all t n)"
    and "stream (fst (read_all s n)) = stream (fst (read_all t n))" by simp_all
qed

end

locale stream_writer =
  fixes write_all :: "socket \<Rightarrow> vec \<Rightarrow> socket \<times> unit outcome"
  assumes sent_prefix: "write_all s bs = (s', oc) \<Longrightarrow>
      \<exists>k. sk_out s' = sk_out s @ take k bs \<and> (oc = Returns () \<longrightarrow> length bs \<le> k)"
    and reads_unchanged: "write_all s bs = (s', oc) \<Longrightarrow> sk_in s' = sk_in s \<and> sk_end s' = sk_end s"
    and accepted: "accepting s \<Longrightarrow> \<exists>s'. write_all s bs = (s', Returns ()) \<and> accepting s'"
begin

lemma sends_all:
  assumes "accepting s"
  obtains s' where "write_all s bs = (s', Returns ())" and "accepting s'"
    and "sk_out s' = sk_out s @ bs" and "sk_in s' = sk_in s" and "sk_end s' = sk_end s"
proof -
  obtain s' where s': "write_all s bs = (s', Returns ())" "accepting s'"
    using accepted [OF assms] by blast
  then show thesis
    using sent_prefix [OF s'(1)] reads_unchanged [OF s'(1)] that by auto
qed

lemma sent_all: "write_all s bs = (s', Returns ()) \<Longrightarrow> sk_out s' = sk_out s @ bs"
  using sent_prefix [of s bs s' "Returns ()"] by auto

end

section \<open>The loops keep it\<close>

lemma sys_read_got:
  assumes "sock_wf s" and "sk_in s \<noteq> []" and "0 < n"
  obtains bs s' where "sys_read s n = (s', Got bs)" and "bs \<noteq> []" and "length bs \<le> n"
    and "length bs \<le> length (stream s)" and "bs = take (length bs) (stream s)"
    and "consumed s (length bs) s'"
proof -
  obtain seg segs where segs: "sk_in s = seg # segs" using assms(2) by (cases "sk_in s") auto
  have ne: "seg \<noteq> []" "[] \<notin> set segs" using assms(1) segs by (auto simp add: sock_wf_def)
  let ?s' = "s\<lparr>sk_in := if length seg \<le> n then segs else drop n seg # segs\<rparr>"
  have "consumed s (length (take n seg)) ?s'"
    using ne by (auto simp add: consumed_def sock_wf_def stream_def segs min_def)
  moreover have "take n seg = take (length (take n seg)) (stream s)"
    by (simp add: stream_def segs min_def)
  moreover have "sys_read s n = (?s', Got (take n seg))"
    by (simp add: sys_read_def segs)
  moreover have "take n seg \<noteq> []" "length (take n seg) \<le> n" "length (take n seg) \<le> length (stream s)"
    using ne(1) assms(3) by (simp_all add: stream_def segs)
  ultimately show thesis using that by blast
qed

lemma read_loop_step:
  assumes "sys_read s n = (s1, Got bs)" and "bs \<noteq> []" and "0 < n"
  shows "read_loop f e s n =
    (fst (read_loop f e s1 (n - length bs)),
     obind (snd (read_loop f e s1 (n - length bs))) (\<lambda>more. Returns (bs @ more)))"
  using assms by (subst read_loop.simps) (simp add: case_prod_unfold)

lemma read_loop_run:
  assumes "sock_wf s"
  shows "\<exists>s'. read_loop f e s n =
      (s', if n \<le> length (stream s) then Returns (take n (stream s)) else short_outcome f e s) \<and>
    consumed s (min n (length (stream s))) s'"
  using assms
proof (induction n arbitrary: s rule: less_induct)
  case (less n)
  show ?case
  proof (cases "n = 0")
    case True
    then show ?thesis by (simp add: read_loop.simps consumed_zero less.prems)
  next
    case pos: False
    show ?thesis
    proof (cases "sk_in s = []")
      case True
      then have "stream s = []" by (simp add: stream_def)
      then show ?thesis
        using True pos less.prems
        by (subst read_loop.simps)
           (auto simp add: sys_read_def short_outcome_def consumed_zero split: stream_end.splits)
    next
      case False
      obtain bs s1 where bs: "sys_read s n = (s1, Got bs)" "bs \<noteq> []" "length bs \<le> n"
        "length bs \<le> length (stream s)" "bs = take (length bs) (stream s)" "consumed s (length bs) s1"
        using sys_read_got [OF less.prems False] pos by blast
      have lt: "n - length bs < n" using bs(2) pos by (cases bs) auto
      note c = consumedD [OF bs(6)]
      obtain s2 where s2: "read_loop f e s1 (n - length bs) =
          (s2, if n - length bs \<le> length (stream s1) then Returns (take (n - length bs) (stream s1))
               else short_outcome f e s1)"
        "consumed s1 (min (n - length bs) (length (stream s1))) s2"
        using less.IH [OF lt c(1)] by blast
      have min: "length bs + min (n - length bs) (length (stream s1)) = min n (length (stream s))"
        using bs(3,4) c(2) by simp
      have take: "bs @ take (n - length bs) (stream s1) = take n (stream s)"
      proof -
        have "take n (stream s) = take (length bs) (stream s) @ take (n - length bs) (drop (length bs) (stream s))"
          using bs(3) by (metis take_add le_add_diff_inverse)
        then show ?thesis using bs(5) c(2) by simp
      qed
      have le: "n - length bs \<le> length (stream s1) \<longleftrightarrow> n \<le> length (stream s)"
        using bs(3,4) c(2) by auto
      have "short_outcome f e s1 = short_outcome f e s"
        by (simp only: short_outcome_def c(3,6))
      then have "read_loop f e s n =
        (s2, if n \<le> length (stream s) then Returns (take n (stream s)) else short_outcome f e s)"
      proof (cases "n \<le> length (stream s)")
        case True
        then show ?thesis using read_loop_step [OF bs(1,2), of f e] pos s2(1) take le by simp
      next
        case short: False
        have "obind (short_outcome f e s) (\<lambda>more. Returns (bs @ more)) = short_outcome f e s"
          by (simp add: short_outcome_def split: stream_end.splits)
        with short show ?thesis
          using read_loop_step [OF bs(1,2), of f e] pos s2(1) le \<open>short_outcome f e s1 = _\<close> by simp
      qed
      then show ?thesis
        using consumed_trans [OF bs(6) s2(2)] min by auto
    qed
  qed
qed

lemma read_loop_reader: "stream_reader (read_loop f e) (short_outcome f e)"
proof (unfold_locales, goal_cases)
  case (1 s n)
  then show ?case using read_loop_run [of s f e n] by (auto simp add: min_def)
next
  case (2 s n)
  then show ?case using read_loop_run [of s f e n] by (auto simp add: min_def)
next
  case (3 s bs)
  then show ?case by (simp add: short_outcome_def split: stream_end.splits)
qed

lemma sys_write_sent:
  "sys_write s bs = (s', r) \<Longrightarrow>
    sk_out s' = sk_out s @ take (case r of Wrote n \<Rightarrow> n | _ \<Rightarrow> 0) bs"
  by (auto simp add: sys_write_def min_def split: list.splits write_answer.splits)

lemma write_loop_prefix:
  "write_loop f e s bs = (s', oc) \<Longrightarrow>
    (\<exists>k. sk_out s' = sk_out s @ take k bs \<and> (oc = Returns () \<longrightarrow> length bs \<le> k)) \<and>
    sk_in s' = sk_in s \<and> sk_end s' = sk_end s"
proof (induction bs arbitrary: s rule: length_induct)
  case (1 bs)
  show ?case
  proof (cases "bs = []")
    case True
    with 1(2) show ?thesis by (auto simp add: write_loop.simps)
  next
    case False
    obtain s1 r where r: "sys_write s bs = (s1, r)" by fastforce
    have s1: "sk_in s1 = sk_in s" "sk_end s1 = sk_end s"
      using r by (auto simp add: sys_write_def split: list.splits write_answer.splits)
    show ?thesis
    proof (cases "\<exists>n > 0. r = Wrote n")
      case True
      then obtain n where n: "0 < n" "r = Wrote n" by blast
      have out: "sk_out s1 = sk_out s @ take n bs" using sys_write_sent [OF r] n(2) by simp
      have "write_loop f e s1 (drop n bs) = (s', oc)"
        using 1(2) False r n by (simp add: write_loop.simps [of f e s bs])
      moreover have "length (drop n bs) < length bs" using n(1) False by simp
      ultimately obtain k where "sk_out s' = sk_out s1 @ take k (drop n bs)"
        "oc = Returns () \<longrightarrow> length (drop n bs) \<le> k" "sk_in s' = sk_in s1" "sk_end s' = sk_end s1"
        using 1(1) by blast
      then show ?thesis
        using out s1 by (intro conjI exI [of _ "n + k"]) (auto simp add: take_add)
    next
      case no: False
      then have zero: "n = 0" if "r = Wrote n" for n using that by simp
      have "sk_out s1 = sk_out s"
        using sys_write_sent [OF r] zero by (cases r) simp_all
      moreover have "s' = s1" "oc \<noteq> Returns ()"
        using 1(2) False r zero
        by (auto simp add: write_loop.simps [of f e s bs] split: write_result.splits if_splits)
      ultimately show ?thesis using s1 by (intro conjI exI [of _ 0]) auto
    qed
  qed
qed

lemma write_loop_outcome:
  "write_loop f e s bs = (s', oc) \<Longrightarrow> oc \<noteq> Blocks \<and> oc \<noteq> Undef \<and> (oc = Dies \<longrightarrow> Broken_pipe \<in> set (sk_wr s))"
proof (induction bs arbitrary: s rule: length_induct)
  case (1 bs)
  obtain s1 r where r: "sys_write s bs = (s1, r)" by fastforce
  have answers: "set (sk_wr s1) \<subseteq> set (sk_wr s)" "r = Killed \<longrightarrow> Broken_pipe \<in> set (sk_wr s)"
    using r by (auto simp add: sys_write_def split: list.splits write_answer.splits)
  show ?case
  proof (cases "bs \<noteq> [] \<and> (\<exists>n > 0. r = Wrote n)")
    case True
    then obtain n where n: "bs \<noteq> []" "0 < n" "r = Wrote n" by blast
    then have "write_loop f e s1 (drop n bs) = (s', oc)"
      using 1(2) r by (simp add: write_loop.simps [of f e s bs])
    moreover have "length (drop n bs) < length bs" using n by simp
    ultimately show ?thesis using 1(1) answers(1) by blast
  next
    case False
    show ?thesis
    proof (cases "bs = []")
      case True
      then show ?thesis using 1(2) by (auto simp add: write_loop.simps)
    next
      case ne: False
      then have "r = Wrote n \<Longrightarrow> n = 0" for n using False by auto
      then show ?thesis
        using 1(2) r answers(2) ne by (cases r) (auto simp add: write_loop.simps [of f e s bs])
    qed
  qed
qed

lemma write_loop_answers:
  "write_loop f e s bs = (s', oc) \<Longrightarrow> set (sk_wr s') \<subseteq> set (sk_wr s)"
proof (induction bs arbitrary: s rule: length_induct)
  case (1 bs)
  obtain s1 r where r: "sys_write s bs = (s1, r)" by fastforce
  have sub: "set (sk_wr s1) \<subseteq> set (sk_wr s)"
    using r by (auto simp add: sys_write_def split: list.splits write_answer.splits)
  show ?case
  proof (cases "bs \<noteq> [] \<and> (\<exists>n > 0. r = Wrote n)")
    case True
    then obtain n where n: "bs \<noteq> []" "0 < n" "r = Wrote n" by blast
    then have "write_loop f e s1 (drop n bs) = (s', oc)"
      using 1(2) r by (simp add: write_loop.simps [of f e s bs])
    moreover have "length (drop n bs) < length bs" using n by simp
    ultimately show ?thesis using 1(1) sub by blast
  next
    case False
    then have "r = Wrote n \<Longrightarrow> bs \<noteq> [] \<Longrightarrow> n = 0" for n by auto
    then show ?thesis
      using 1(2) r sub by (cases r; cases "bs = []") (auto simp add: write_loop.simps [of f e s bs] write_loop.simps [of f e s "[]"])
  qed
qed

lemma sys_write_accepting:
  assumes "accepting s" and "bs \<noteq> []"
  obtains s1 n where "sys_write s bs = (s1, Wrote n)" and "0 < n" and "accepting s1"
proof (cases "sk_wr s")
  case Nil
  then show ?thesis using that assms by (simp add: sys_write_def accepting_def)
next
  case (Cons w ws)
  then obtain k where "w = Takes k" "0 < k" using assms(1) by (auto simp add: accepting_def)
  then show ?thesis
    using that [of "s\<lparr>sk_out := sk_out s @ take k bs, sk_wr := ws\<rparr>" "min k (length bs)"] Cons assms
    by (simp add: sys_write_def accepting_def)
qed

lemma write_loop_accepted:
  "accepting s \<Longrightarrow> \<exists>s'. write_loop f e s bs = (s', Returns ()) \<and> accepting s'"
proof (induction bs arbitrary: s rule: length_induct)
  case (1 bs)
  show ?case
  proof (cases "bs = []")
    case True
    with 1(2) show ?thesis by (simp add: write_loop.simps)
  next
    case False
    obtain s1 n where w: "sys_write s bs = (s1, Wrote n)" "0 < n" "accepting s1"
      by (rule sys_write_accepting [OF 1(2) False])
    have "length (drop n bs) < length bs" using w(2) False by simp
    then show ?thesis
      using 1(1) w by (simp add: write_loop.simps [of f e s bs] False)
  qed
qed

lemma write_loop_writer: "stream_writer (write_loop f e)"
  by unfold_locales (use write_loop_prefix write_loop_accepted in \<open>blast+\<close>)

end
