(* ===== verification/Tcp_Driver.thy ===== *)
theory Tcp_Driver
  imports Socket_Stream Ordered_Map Driver_Data
begin

text \<open>
  \<^verbatim>\<open>TCPDriverComm\<close> (\<^verbatim>\<open>services/communication_protocols/tcp\<close>): the driver that accepts clients,
  reads their requests off the wire, replies to them, and appends every write to an allocation
  table kept in the file \<^verbatim>\<open>.tcp_allocations\<close>.

  The state is the object's fields together with what the kernel holds for it: the open
  sockets and the allocation file. \<^verbatim>\<open>m_client_writes\<close> is a field no function uses, and is left
  out. Each operation that takes a lock takes it for one access to one container, so the lock
  has no effect on a single thread; concurrent use is the subject of the server theory.
\<close>

section \<open>State\<close>

record tcp_driver =
  td_listen_fd :: int
  td_port :: "16 word"
  td_client_fds :: "(int, unit) omap"
  td_fd_to_ip :: "(int, string) omap"
  td_allocations :: "(size_t, vec) omap"
  td_sockets :: "int \<Rightarrow> socket option"
  td_alloc_file :: "vec option"
  td_alloc_in_opens :: bool
  td_alloc_out_opens :: bool
  td_alloc_reaches :: "nat option"

section \<open>Reading and writing\<close>

definition tcp_read_loop :: "socket \<Rightarrow> nat \<Rightarrow> socket \<times> vec outcome" where
  "tcp_read_loop = read_loop (\<lambda>m. Driver_error (''Read failed: '' @ m))
                             (\<lambda>_. Driver_error ''Client disconnected'')"

definition tcp_write_loop :: "socket \<Rightarrow> vec \<Rightarrow> socket \<times> unit outcome" where
  "tcp_write_loop = write_loop (\<lambda>m. Driver_error (''Write failed: '' @ m))
                               (\<lambda>_. Driver_error ''Write failed - client disconnected'')"

text \<open>On a descriptor that is not open the first \<open>read\<close> or \<open>write\<close> fails.\<close>

definition tcp_ReadAll :: "tcp_driver \<Rightarrow> int \<Rightarrow> nat \<Rightarrow> tcp_driver \<times> vec outcome" where
  "tcp_ReadAll d fd count =
     (case td_sockets d fd of
        None \<Rightarrow> (d, if count = 0 then Returns []
                    else Throws (Driver_error ''Read failed: Bad file descriptor''))
      | Some s \<Rightarrow>
          (case tcp_read_loop s count of
             (s1, oc) \<Rightarrow> (d\<lparr>td_sockets := (td_sockets d)(fd \<mapsto> s1)\<rparr>, oc)))"

definition tcp_WriteAll :: "tcp_driver \<Rightarrow> int \<Rightarrow> vec \<Rightarrow> tcp_driver \<times> unit outcome" where
  "tcp_WriteAll d fd buf =
     (case td_sockets d fd of
        None \<Rightarrow> (d, if buf = [] then Returns ()
                    else Throws (Driver_error ''Write failed: Bad file descriptor''))
      | Some s \<Rightarrow>
          (case tcp_write_loop s buf of
             (s1, oc) \<Rightarrow> (d\<lparr>td_sockets := (td_sockets d)(fd \<mapsto> s1)\<rparr>, oc)))"

section \<open>Allocations\<close>

text \<open>\<^verbatim>\<open>m_allocations[offset]\<close> makes an empty entry where there is none.\<close>

definition GetAllocation :: "tcp_driver \<Rightarrow> size_t \<Rightarrow> vec" where
  "GetAllocation d offset =
     (case map_of (td_allocations d) offset of Some data \<Rightarrow> data | None \<Rightarrow> [])"

definition UpdateAllocation :: "tcp_driver \<Rightarrow> size_t \<Rightarrow> vec \<Rightarrow> tcp_driver" where
  "UpdateAllocation d offset data =
     (let old = (case map_of (td_allocations d) offset of Some v \<Rightarrow> v | None \<Rightarrow> [])
      in d\<lparr>td_allocations := map_put offset (old @ data) (td_allocations d)\<rparr>)"

definition alloc_record :: "size_t \<times> vec \<Rightarrow> vec" where
  "alloc_record e = be_bytes 8 (fst e) @ be_bytes 8 (vsize (snd e)) @ snd e"

definition alloc_bytes :: "(size_t, vec) omap \<Rightarrow> vec" where
  "alloc_bytes m = concat (map alloc_record m)"

definition SaveAllocations :: "tcp_driver \<Rightarrow> tcp_driver" where
  "SaveAllocations d =
     (if \<not> td_alloc_out_opens d then d
      else d\<lparr>td_alloc_file := Some (case td_alloc_reaches d of
                                      None \<Rightarrow> alloc_bytes (td_allocations d)
                                    | Some k \<Rightarrow> take k (alloc_bytes (td_allocations d)))\<rparr>)"

text \<open>
  The loop of \<^verbatim>\<open>LoadAllocations\<close> on the bytes left in the file. \<^verbatim>\<open>std::vector<char> data(size)\<close>
  refuses a size of \<open>2 ^ 63\<close> or more; memory is not limited otherwise. A last record that is
  short has set \<open>eofbit\<close>, which the check lets pass: it is kept, filled up with zeros.
\<close>

function load_records :: "vec \<Rightarrow> (size_t, vec) omap \<Rightarrow> (size_t, vec) omap \<times> unit outcome" where
  "load_records file allocs =
     (if length file < 8 then (allocs, Returns ())
      else if length (drop 8 file) < 8 then (allocs, Returns ())
      else
        let offset = be_word (take 8 file);
            size = unat (be_word (take 8 (drop 8 file)) :: size_t);
            rest = drop 16 file
        in if 2 ^ 63 \<le> size
           then (allocs, Throws (Length_error ''cannot create std::vector larger than max_size()''))
           else if length rest < size
           then (map_put offset (rest @ replicate (size - length rest) 0) allocs, Returns ())
           else load_records (drop size rest) (map_put offset (take size rest) allocs))"
  by pat_completeness auto
termination
  by (relation "measure (\<lambda>(file, allocs). length file)") auto

declare load_records.simps [simp del]

definition LoadAllocations :: "tcp_driver \<Rightarrow> tcp_driver \<times> unit outcome" where
  "LoadAllocations d =
     (case (if td_alloc_in_opens d then td_alloc_file d else None) of
        None \<Rightarrow> (d, Returns ())
      | Some file \<Rightarrow>
          (case load_records file (td_allocations d) of
             (allocs, oc) \<Rightarrow> (d\<lparr>td_allocations := allocs\<rparr>, oc)))"

section \<open>Clients\<close>

definition GetClientIP :: "tcp_driver \<Rightarrow> int \<Rightarrow> string" where
  "GetClientIP d fd = (case map_of (td_fd_to_ip d) fd of Some ip \<Rightarrow> ip | None \<Rightarrow> '''')"

definition RecordClientIP :: "tcp_driver \<Rightarrow> int \<Rightarrow> string \<Rightarrow> tcp_driver" where
  "RecordClientIP d fd ip = d\<lparr>td_fd_to_ip := map_put fd ip (td_fd_to_ip d)\<rparr>"

definition ForgetClientIP :: "tcp_driver \<Rightarrow> int \<Rightarrow> tcp_driver" where
  "ForgetClientIP d fd = d\<lparr>td_fd_to_ip := map_erase fd (td_fd_to_ip d)\<rparr>"

text \<open>What \<open>accept\<close> may answer: a new descriptor with its connection and peer address, or \<open>-1\<close>.\<close>

datatype accept_answer = Accepted int string socket | Accept_failed

definition AcceptNextClient :: "tcp_driver \<Rightarrow> accept_answer \<Rightarrow> tcp_driver \<times> int" where
  "AcceptNextClient d answer =
     (case (td_sockets d (td_listen_fd d), answer) of
        (Some _, Accepted new_fd client_ip sock) \<Rightarrow>
          (RecordClientIP
             (d\<lparr>td_sockets := (td_sockets d)(new_fd \<mapsto> sock),
                td_client_fds := map_put new_fd () (td_client_fds d)\<rparr>) new_fd client_ip, new_fd)
      | _ \<Rightarrow> (d, -1))"

definition TCP_TryAccept :: "tcp_driver \<Rightarrow> accept_answer \<Rightarrow> int \<Rightarrow> tcp_driver \<times> int" where
  "TCP_TryAccept d answer fd =
     (if fd \<noteq> td_listen_fd d then (d, -1) else AcceptNextClient d answer)"

definition TCP_RemoveClientFD :: "tcp_driver \<Rightarrow> int \<Rightarrow> tcp_driver" where
  "TCP_RemoveClientFD d fd =
     (let d1 = d\<lparr>td_client_fds := map_erase fd (td_client_fds d)\<rparr>;
          d2 = ForgetClientIP d1 fd
      in d2\<lparr>td_sockets := (td_sockets d2)(fd := None)\<rparr>)"

definition TCP_GetFD :: "tcp_driver \<Rightarrow> int" where
  "TCP_GetFD d = td_listen_fd d"

definition TCP_Disconnect :: "tcp_driver \<Rightarrow> tcp_driver" where
  "TCP_Disconnect d = d"

section \<open>Construction and destruction\<close>

record listen_answers =
  la_fd :: int
  la_setsockopt_ok :: bool
  la_bind_ok :: bool
  la_listen_ok :: bool
  la_errno :: string

text \<open>A listening socket: a \<open>read\<close> on it fails.\<close>

definition listen_socket :: socket where
  "listen_socket = \<lparr>sk_in = [], sk_end = Reset, sk_out = [], sk_wr = [],
     sk_errno = ''Transport endpoint is not connected''\<rparr>"

text \<open>\<open>env\<close> holds the file system and the descriptors of the process. \<^verbatim>\<open>htons\<close> keeps 16 bits.\<close>

definition TCPDriverComm :: "listen_answers \<Rightarrow> tcp_driver \<Rightarrow> int \<Rightarrow> tcp_driver \<times> unit outcome" where
  "TCPDriverComm la env port =
     (let d = env\<lparr>td_listen_fd := la_fd la, td_port := of_int port, td_client_fds := [],
                  td_fd_to_ip := [], td_allocations := []\<rparr>
      in if la_fd la < 0
         then (env, Throws (Driver_error (''Failed to create listen socket: '' @ la_errno la)))
         else if \<not> la_setsockopt_ok la
         then (env, Throws (Driver_error (''Failed to set SO_REUSEADDR: '' @ la_errno la)))
         else if \<not> la_bind_ok la
         then (env, Throws (Driver_error (''Failed to bind to port '' @
                 (if port < 0 then ''-'' else '''') @ to_string (nat \<bar>port\<bar>) @ '': '' @ la_errno la)))
         else if \<not> la_listen_ok la
         then (env, Throws (Driver_error (''Failed to listen: '' @ la_errno la)))
         else LoadAllocations
                (d\<lparr>td_sockets := (td_sockets d)(la_fd la \<mapsto> listen_socket)\<rparr>))"

definition TCP_destroy :: "tcp_driver \<Rightarrow> tcp_driver" where
  "TCP_destroy d =
     (let closed = (\<lambda>fd. if fd \<in> fst ` set (td_client_fds d) then None else td_sockets d fd);
          d1 = d\<lparr>td_sockets := closed, td_client_fds := []\<rparr>
      in if 0 \<le> td_listen_fd d1
         then d1\<lparr>td_sockets := (td_sockets d1)(td_listen_fd d1 := None), td_listen_fd := -1\<rparr>
         else d1)"

section \<open>Requests\<close>

text \<open>The packed header on the wire, 24 bytes in network order.\<close>

record RequestHeader =
  rh_type :: u32
  rh_handle :: size_t
  rh_offset :: size_t
  rh_len :: u32

definition parse_request :: "vec \<Rightarrow> RequestHeader" where
  "parse_request bs =
     \<lparr>rh_type = be_word (subvec bs 0 4), rh_handle = be_word (subvec bs 4 8),
      rh_offset = be_word (subvec bs 12 8), rh_len = be_word (subvec bs 20 4)\<rparr>"

definition TCP_ReceiveRequest :: "tcp_driver \<Rightarrow> int \<Rightarrow> tcp_driver \<times> DriverData outcome" where
  "TCP_ReceiveRequest d fd =
     sbind (tcp_ReadAll d fd 24) (\<lambda>d1 bytes.
       let h = parse_request bytes;
           ret = (new_DriverData (action_of (rh_type h)) (rh_handle h) (rh_offset h)
                    (ucast (rh_len h)) SUCCESS)\<lparr>m_source_fd := fd\<rparr>
       in if rh_type h = action_code WRITE
          then sbind (tcp_ReadAll d1 fd (unat (rh_len h))) (\<lambda>d2 data.
                 (SaveAllocations (UpdateAllocation d2 (rh_offset h) data),
                  Returns (ret\<lparr>m_buffer := data\<rparr>)))
          else (d1, Returns ret))"

section \<open>Replies\<close>

definition reply_len :: "DriverData \<Rightarrow> u32" where
  "reply_len q =
     (if m_status q = SUCCESS
      then case m_type q of
             READ \<Rightarrow> of_nat (length (m_buffer q))
           | LIST_OFFSETS \<Rightarrow> of_nat (length (m_buffer q))
           | GET_SIZE \<Rightarrow> ucast (m_len q)
           | _ \<Rightarrow> 0
      else 0)"

definition sends_payload :: "DriverData \<Rightarrow> bool" where
  "sends_payload q \<longleftrightarrow>
     m_status q = SUCCESS \<and> m_type q \<in> {READ, LIST_OFFSETS} \<and> m_buffer q \<noteq> []"

text \<open>\<^verbatim>\<open>EIO\<close> is 5.\<close>

definition reply_header :: "DriverData \<Rightarrow> vec" where
  "reply_header q =
     be_bytes 4 (if m_status q = SUCCESS then 0 else 5 :: u32) @ be_bytes 8 (m_handle q) @
     be_bytes 4 (reply_len q)"

definition TCP_SendReply :: "tcp_driver \<Rightarrow> DriverData \<Rightarrow> tcp_driver \<times> unit outcome" where
  "TCP_SendReply d q =
     (if m_source_fd q < 0 then (d, Returns ())
      else scatch
        (sbind (tcp_WriteAll d (m_source_fd q) (reply_header q)) (\<lambda>d1 _.
           if sends_payload q then tcp_WriteAll d1 (m_source_fd q) (m_buffer q)
           else (d1, Returns ())))
        (\<lambda>d1 _. (d1, Returns ())))"

end
