(* ===== verification/Tcp_Protocol.thy ===== *)
theory Tcp_Protocol
  imports Tcp_Driver
begin

text \<open>
  The TCP driver against its wire format. A client's side of the protocol, the encoder of
  requests and the decoder of replies, follows \<^verbatim>\<open>client.py\<close> (\<^verbatim>\<open>struct.pack('>I Q Q I', ...)\<close>,
  \<^verbatim>\<open>struct.unpack('>I Q I', ...)\<close>); the theorems say that \<^verbatim>\<open>ReceiveRequest\<close> and \<^verbatim>\<open>SendReply\<close>
  are inverse to it on any segmentation of the stream and for any number of messages.
\<close>

section \<open>The loops on a driver\<close>

interpretation tcprd: stream_reader tcp_read_loop
  "short_outcome (\<lambda>m. Driver_error (''Read failed: '' @ m)) (\<lambda>_. Driver_error ''Client disconnected'')"
  unfolding tcp_read_loop_def by (rule read_loop_reader)

interpretation tcpwr: stream_writer tcp_write_loop
  unfolding tcp_write_loop_def by (rule write_loop_writer)

lemma tcp_ReadAll_front:
  assumes "td_sockets d fd = Some s" and "sock_wf s" and "stream s = a @ b" and "length a = n"
  obtains s' where "tcp_ReadAll d fd n = (d\<lparr>td_sockets := (td_sockets d)(fd \<mapsto> s')\<rparr>, Returns a)"
    and "sock_wf s'" and "stream s' = b" and "sk_out s' = sk_out s" and "sk_end s' = sk_end s"
    and "sk_wr s' = sk_wr s"
proof -
  obtain s' where "tcp_read_loop s n = (s', Returns a)" "consumed s n s'" "stream s' = b"
    by (rule tcprd.read_front [OF assms(2-4)])
  then show thesis
    using that [of s'] consumedD [of s n s'] assms(1) by (simp add: tcp_ReadAll_def)
qed

lemma tcp_ReadAll_short:
  assumes "td_sockets d fd = Some s" and "sock_wf s" and "length (stream s) < n"
  obtains s' oc where "tcp_ReadAll d fd n = (d\<lparr>td_sockets := (td_sockets d)(fd \<mapsto> s')\<rparr>, oc)"
    and "sock_wf s'" and "stream s' = []" and "sk_out s' = sk_out s"
    and "oc = (case sk_end s of Eof \<Rightarrow> Throws (Driver_error ''Client disconnected'')
      | Reset \<Rightarrow> Throws (Driver_error (''Read failed: '' @ sk_errno s)) | Quiet \<Rightarrow> Blocks)"
proof -
  obtain s' where s': "tcp_read_loop s n =
      (s', short_outcome (\<lambda>m. Driver_error (''Read failed: '' @ m)) (\<lambda>_. Driver_error ''Client disconnected'') s)"
    "consumed s (length (stream s)) s'"
    using tcprd.read_short [OF assms(2,3)] by blast
  show thesis
    by (rule that [of s'])
       (use s' consumedD [OF s'(2)] assms(1) in
         \<open>auto simp add: tcp_ReadAll_def short_outcome_def split: stream_end.splits\<close>)
qed

lemma tcp_WriteAll_open:
  assumes "td_sockets d fd = Some s" and "accepting s"
  obtains s' where "tcp_WriteAll d fd bs = (d\<lparr>td_sockets := (td_sockets d)(fd \<mapsto> s')\<rparr>, Returns ())"
    and "accepting s'" and "sk_out s' = sk_out s @ bs" and "sk_in s' = sk_in s"
proof -
  obtain s' where "tcp_write_loop s bs = (s', Returns ())" "accepting s'"
    "sk_out s' = sk_out s @ bs" "sk_in s' = sk_in s"
    by (rule tcpwr.sends_all [OF assms(2)])
  then show thesis using that [of s'] assms(1) by (simp add: tcp_WriteAll_def)
qed

section \<open>The request codec\<close>

definition request_header :: "DriverData \<Rightarrow> vec" where
  "request_header q =
     be_bytes 4 (action_code (m_type q)) @ be_bytes 8 (m_handle q) @ be_bytes 8 (m_offset q) @
     be_bytes 4 (ucast (m_len q) :: u32)"

definition encode_request :: "DriverData \<Rightarrow> vec" where
  "encode_request q = request_header q @ (if m_type q = WRITE then m_buffer q else [])"

text \<open>
  A request as \<^verbatim>\<open>ReceiveRequest\<close> hands it over: a length of 32 bits, a type in its own
  constructor, a buffer of that length that is zero unless the request is a write.
\<close>

definition wire_request :: "int \<Rightarrow> DriverData \<Rightarrow> bool" where
  "wire_request fd q \<longleftrightarrow>
     unat (m_len q) < 2 ^ 32 \<and> action_of (action_code (m_type q)) = m_type q \<and>
     length (m_buffer q) = unat (m_len q) \<and>
     (m_type q \<noteq> WRITE \<longrightarrow> m_buffer q = replicate (unat (m_len q)) 0) \<and>
     m_status q = SUCCESS \<and> m_source_fd q = fd"

lemma length_request_header [simp]: "length (request_header q) = 24"
  by (simp add: request_header_def)

lemma parse_request_header:
  "parse_request (request_header q) =
    \<lparr>rh_type = action_code (m_type q), rh_handle = m_handle q, rh_offset = m_offset q,
     rh_len = ucast (m_len q)\<rparr>"
proof -
  let ?t = "be_bytes 4 (action_code (m_type q))" and ?h = "be_bytes 8 (m_handle q)"
  let ?o = "be_bytes 8 (m_offset q)" and ?l = "be_bytes 4 (ucast (m_len q) :: u32)"
  have "subvec (request_header q) 0 4 = ?t"
    using subvec_front [of "[]" 0 ?t 4] by (simp add: request_header_def)
  moreover have "subvec (request_header q) 4 8 = ?h"
    using subvec_front [of ?t 4 ?h 8] by (simp add: request_header_def)
  moreover have "subvec (request_header q) 12 8 = ?o"
    using subvec_front [of "?t @ ?h" 12 ?o 8] by (simp add: request_header_def)
  moreover have "subvec (request_header q) 20 4 = ?l"
    using subvec_front [of "?t @ ?h @ ?o" 20 ?l 4 "[]"] by (simp add: request_header_def)
  ultimately show ?thesis by (simp add: parse_request_def)
qed

lemma WRITE_code: "action_of (action_code t) = t \<Longrightarrow> action_code t = 1 \<longleftrightarrow> t = WRITE"
  by (metis action_code.simps(2) action_of_code known_action.simps(3))

lemma SaveAllocations_frame [simp]:
  "td_sockets (SaveAllocations d) = td_sockets d" "td_allocations (SaveAllocations d) = td_allocations d"
  "td_client_fds (SaveAllocations d) = td_client_fds d" "td_fd_to_ip (SaveAllocations d) = td_fd_to_ip d"
  "td_listen_fd (SaveAllocations d) = td_listen_fd d"
  by (simp_all add: SaveAllocations_def)

lemma UpdateAllocation_frame [simp]:
  "td_sockets (UpdateAllocation d off v) = td_sockets d"
  "td_client_fds (UpdateAllocation d off v) = td_client_fds d"
  "td_fd_to_ip (UpdateAllocation d off v) = td_fd_to_ip d"
  "td_listen_fd (UpdateAllocation d off v) = td_listen_fd d"
  by (simp_all add: UpdateAllocation_def Let_def)

text \<open>What one request does to the driver apart from the socket.\<close>

definition noted :: "tcp_driver \<Rightarrow> DriverData \<Rightarrow> tcp_driver" where
  "noted d q = (if m_type q = WRITE
     then SaveAllocations (UpdateAllocation d (m_offset q) (m_buffer q)) else d)"

lemma noted_sockets [simp]: "td_sockets (noted d q) = td_sockets d"
  by (simp add: noted_def)

text \<open>One request at the front of the stream is taken off it, whole and nothing more.\<close>

lemma receive_request_front:
  assumes q: "wire_request fd q" and s: "td_sockets d fd = Some s" "sock_wf s"
    and str: "stream s = encode_request q @ rest"
  obtains s' where "TCP_ReceiveRequest d fd =
      (noted (d\<lparr>td_sockets := (td_sockets d)(fd \<mapsto> s')\<rparr>) q, Returns q)"
    and "sock_wf s'" and "stream s' = rest" and "sk_out s' = sk_out s" and "sk_end s' = sk_end s"
proof -
  let ?payload = "if m_type q = WRITE then m_buffer q else []"
  let ?d = "\<lambda>x. d\<lparr>td_sockets := (td_sockets d)(fd \<mapsto> x)\<rparr>"
  have "stream s = request_header q @ (?payload @ rest)"
    using str by (simp add: encode_request_def)
  then obtain s1 where s1: "tcp_ReadAll d fd 24 = (?d s1, Returns (request_header q))" "sock_wf s1"
    "stream s1 = ?payload @ rest" "sk_out s1 = sk_out s" "sk_end s1 = sk_end s"
    using tcp_ReadAll_front [of d fd s "request_header q" "?payload @ rest" 24] s by (metis length_request_header)
  have len: "unat (m_len q) < 2 ^ 32" and type: "action_of (action_code (m_type q)) = m_type q"
    and buf: "length (m_buffer q) = unat (m_len q)"
    using q by (simp_all add: wire_request_def)
  have made: "(new_DriverData (m_type q) (m_handle q) (m_offset q) (m_len q) SUCCESS)
      \<lparr>m_source_fd := fd, m_buffer := m_buffer q\<rparr> = q"
    using q by (simp add: wire_request_def new_DriverData_def)
  show thesis
  proof (cases "m_type q = WRITE")
    case True
    obtain s2 where s2: "tcp_ReadAll (?d s1) fd (unat (m_len q)) = (?d s2, Returns (m_buffer q))"
      "sock_wf s2" "stream s2 = rest" "sk_out s2 = sk_out s1" "sk_end s2 = sk_end s1"
      using tcp_ReadAll_front [of "?d s1" fd s1 "m_buffer q" rest "unat (m_len q)"] s1 True buf
      by auto
    show ?thesis
      by (rule that [of s2])
         (use s1 s2 made True in
           \<open>simp_all add: TCP_ReceiveRequest_def parse_request_header noted_def Let_def len_roundtrip [OF len] action_of_def\<close>)
  next
    case False
    then have zero: "m_buffer q = replicate (unat (m_len q)) 0" using q by (simp add: wire_request_def)
    then have made': "(new_DriverData (m_type q) (m_handle q) (m_offset q) (m_len q) SUCCESS)
        \<lparr>m_source_fd := fd\<rparr> = q"
      using q by (simp add: wire_request_def new_DriverData_def)
    have code: "action_code (m_type q) \<noteq> 1" using WRITE_code [OF type] False by simp
    show ?thesis
      by (rule that [of s1])
         (use s1 made' False code in
           \<open>simp_all add: TCP_ReceiveRequest_def parse_request_header noted_def Let_def len_roundtrip [OF len] type\<close>)
  qed
qed

text \<open>A stream that ends inside a request: nothing but the socket changes.\<close>

lemma receive_request_truncated:
  assumes q: "wire_request fd q" and s: "td_sockets d fd = Some s" "sock_wf s"
    and str: "stream s = take k (encode_request q)" "k < length (encode_request q)"
  obtains s' where "TCP_ReceiveRequest d fd = (d\<lparr>td_sockets := (td_sockets d)(fd \<mapsto> s')\<rparr>,
      case sk_end s of Eof \<Rightarrow> Throws (Driver_error ''Client disconnected'')
      | Reset \<Rightarrow> Throws (Driver_error (''Read failed: '' @ sk_errno s)) | Quiet \<Rightarrow> Blocks)"
    and "stream s' = []" and "sk_out s' = sk_out s"
proof (cases "k < 24")
  case True
  then have "length (stream s) < 24" using str by simp
  then obtain s' oc where s': "tcp_ReadAll d fd 24 = (d\<lparr>td_sockets := (td_sockets d)(fd \<mapsto> s')\<rparr>, oc)"
    "stream s' = []" "sk_out s' = sk_out s"
    "oc = (case sk_end s of Eof \<Rightarrow> Throws (Driver_error ''Client disconnected'')
      | Reset \<Rightarrow> Throws (Driver_error (''Read failed: '' @ sk_errno s)) | Quiet \<Rightarrow> Blocks)"
    by (rule tcp_ReadAll_short [OF s]) auto
  show ?thesis
    by (rule that [of s']) (use s' in \<open>auto simp add: TCP_ReceiveRequest_def split: stream_end.splits\<close>)
next
  case False
  let ?d = "\<lambda>x. d\<lparr>td_sockets := (td_sockets d)(fd \<mapsto> x)\<rparr>"
  have W: "m_type q = WRITE" and k: "k - 24 < length (m_buffer q)"
    using False str(2) by (auto simp add: encode_request_def split: if_splits)
  have len: "unat (m_len q) < 2 ^ 32" and buf: "length (m_buffer q) = unat (m_len q)"
    using q by (simp_all add: wire_request_def)
  have front: "stream s = request_header q @ take (k - 24) (m_buffer q)"
    using str(1) False W by (simp add: encode_request_def)
  obtain s1 where s1: "tcp_ReadAll d fd 24 = (?d s1, Returns (request_header q))" "sock_wf s1"
    "stream s1 = take (k - 24) (m_buffer q)" "sk_out s1 = sk_out s" "sk_end s1 = sk_end s"
    and e: "sk_errno s1 = sk_errno s"
  proof -
    obtain x where "tcp_read_loop s 24 = (x, Returns (request_header q))" "consumed s 24 x"
      "stream x = take (k - 24) (m_buffer q)"
      by (rule tcprd.read_front [OF s(2) front length_request_header])
    then show thesis using that [of x] consumedD [of s 24 x] s(1) by (simp add: tcp_ReadAll_def)
  qed
  have lt: "length (stream s1) < unat (m_len q)" using s1(3) k buf by simp
  have open1: "td_sockets (?d s1) fd = Some s1" by simp
  obtain s' oc where s': "tcp_ReadAll (?d s1) fd (unat (m_len q)) = (?d s', oc)"
    "stream s' = []" "sk_out s' = sk_out s1"
    "oc = (case sk_end s1 of Eof \<Rightarrow> Throws (Driver_error ''Client disconnected'')
      | Reset \<Rightarrow> Throws (Driver_error (''Read failed: '' @ sk_errno s1)) | Quiet \<Rightarrow> Blocks)"
    by (rule tcp_ReadAll_short [OF open1 s1(2) lt]) simp
  show ?thesis
    by (rule that [of s'])
       (use s1 s' e in
         \<open>auto simp add: TCP_ReceiveRequest_def parse_request_header Let_def len_roundtrip [OF len] W
            split: stream_end.splits\<close>)
qed

section \<open>Streams of requests\<close>

fun TCP_ReceiveRequests :: "tcp_driver \<Rightarrow> int \<Rightarrow> nat \<Rightarrow> tcp_driver \<times> DriverData list outcome" where
  "TCP_ReceiveRequests d fd 0 = (d, Returns [])"
| "TCP_ReceiveRequests d fd (Suc n) =
     sbind (TCP_ReceiveRequest d fd) (\<lambda>d1 q.
       sbind (TCP_ReceiveRequests d1 fd n) (\<lambda>d2 qs. (d2, Returns (q # qs))))"

text \<open>The payloads written at an offset, in order.\<close>

definition written_at :: "size_t \<Rightarrow> DriverData list \<Rightarrow> vec" where
  "written_at off qs =
     concat (map m_buffer (filter (\<lambda>q. m_type q = WRITE \<and> m_offset q = off) qs))"

lemma written_at_Cons:
  "written_at off (q # qs) =
    (if m_type q = WRITE \<and> m_offset q = off then m_buffer q else []) @ written_at off qs"
  by (simp add: written_at_def)

lemma GetAllocation_Update:
  "GetAllocation (UpdateAllocation d off v) x = GetAllocation d x @ (if x = off then v else [])"
  by (simp add: GetAllocation_def UpdateAllocation_def Let_def)

lemma GetAllocation_noted:
  "GetAllocation (noted d q) off =
    GetAllocation d off @ (if m_type q = WRITE \<and> m_offset q = off then m_buffer q else [])"
proof -
  have "GetAllocation (SaveAllocations d') off = GetAllocation d' off" for d'
    by (simp add: GetAllocation_def)
  then show ?thesis by (simp add: noted_def GetAllocation_Update)
qed

lemma GetAllocation_sockets [simp]:
  "GetAllocation (d\<lparr>td_sockets := x\<rparr>) off = GetAllocation d off"
  by (simp add: GetAllocation_def)

section \<open>The reply codec\<close>

definition reply_frame :: "DriverData \<Rightarrow> vec" where
  "reply_frame q = reply_header q @ (if sends_payload q then m_buffer q else [])"

text \<open>
  The client: \<open>expects h\<close> says that it asked for data under the handle \<open>h\<close> (\<^verbatim>\<open>READ\<close> or
  \<^verbatim>\<open>LIST_OFFSETS\<close>), in which case a reply without an error is followed by its payload.
\<close>

definition decode_reply ::
  "(size_t \<Rightarrow> bool) \<Rightarrow> vec \<Rightarrow> ((u32 \<times> size_t \<times> u32 \<times> vec) \<times> vec) option" where
  "decode_reply expects bs =
     (if length bs < 16 then None
      else let error = be_word (subvec bs 0 4);
               handle = be_word (subvec bs 4 8);
               len = be_word (subvec bs 12 4);
               n = (if error = 0 \<and> expects handle then unat len else 0)
           in if length (drop 16 bs) < n then None
              else Some ((error, handle, len, take n (drop 16 bs)), drop n (drop 16 bs)))"

fun decode_replies ::
  "(size_t \<Rightarrow> bool) \<Rightarrow> nat \<Rightarrow> vec \<Rightarrow> ((u32 \<times> size_t \<times> u32 \<times> vec) list \<times> vec) option" where
  "decode_replies expects 0 bs = Some ([], bs)"
| "decode_replies expects (Suc n) bs =
     (case decode_reply expects bs of
        None \<Rightarrow> None
      | Some (a, bs1) \<Rightarrow>
          (case decode_replies expects n bs1 of
             None \<Rightarrow> None
           | Some (as, bs2) \<Rightarrow> Some (a # as, bs2)))"

definition payload_type :: "DriverData \<Rightarrow> bool" where
  "payload_type q \<longleftrightarrow> m_type q \<in> {READ, LIST_OFFSETS}"

text \<open>What the client should learn from the reply to \<open>q\<close>.\<close>

definition answer :: "DriverData \<Rightarrow> u32 \<times> size_t \<times> u32 \<times> vec" where
  "answer q = (if m_status q = SUCCESS then 0 else 5, m_handle q, reply_len q,
     if m_status q = SUCCESS \<and> payload_type q then m_buffer q else [])"

lemma length_reply_header [simp]: "length (reply_header q) = 16"
  by (simp add: reply_header_def)

lemma reply_header_fields:
  "be_word (subvec (reply_header q @ bs) 0 4) = (if m_status q = SUCCESS then 0 else 5 :: u32)"
  "be_word (subvec (reply_header q @ bs) 4 8) = m_handle q"
  "be_word (subvec (reply_header q @ bs) 12 4) = reply_len q"
proof -
  let ?e = "be_bytes 4 (if m_status q = SUCCESS then 0 else 5 :: u32)"
  let ?h = "be_bytes 8 (m_handle q)" and ?l = "be_bytes 4 (reply_len q)"
  have "subvec (reply_header q @ bs) 0 4 = ?e"
    using subvec_front [of "[]" 0 ?e 4] by (simp add: reply_header_def)
  then show "be_word (subvec (reply_header q @ bs) 0 4) = (if m_status q = SUCCESS then 0 else 5 :: u32)"
    by simp
  have "subvec (reply_header q @ bs) 4 8 = ?h"
    using subvec_front [of ?e 4 ?h 8] by (simp add: reply_header_def)
  then show "be_word (subvec (reply_header q @ bs) 4 8) = m_handle q" by simp
  have "subvec (reply_header q @ bs) 12 4 = ?l"
    using subvec_front [of "?e @ ?h" 12 ?l 4 bs] by (simp add: reply_header_def)
  then show "be_word (subvec (reply_header q @ bs) 12 4) = reply_len q" by simp
qed

lemma unat_reply_len:
  "length (m_buffer q) < 2 ^ 32 \<Longrightarrow> m_status q = SUCCESS \<Longrightarrow> payload_type q \<Longrightarrow>
    unat (reply_len q) = length (m_buffer q)"
  by (auto simp add: reply_len_def payload_type_def unat_of_nat)

lemma decode_reply_frame:
  assumes "length (m_buffer q) < 2 ^ 32" and "expects (m_handle q) = payload_type q"
  shows "decode_reply expects (reply_frame q @ bs) = Some (answer q, bs)"
proof -
  let ?payload = "if m_status q = SUCCESS \<and> payload_type q then m_buffer q else []"
  have frame: "reply_frame q @ bs = reply_header q @ (?payload @ bs)"
    by (auto simp add: reply_frame_def sends_payload_def payload_type_def)
  have n: "(if (if m_status q = SUCCESS then 0 else 5 :: u32) = 0 \<and> expects (m_handle q)
      then unat (reply_len q) else 0) = length ?payload"
    using unat_reply_len [OF assms(1)] assms(2) by simp
  show ?thesis
    unfolding frame decode_reply_def reply_header_fields Let_def n by (simp add: answer_def)
qed

section \<open>Sending\<close>

fun TCP_SendReplies :: "tcp_driver \<Rightarrow> DriverData list \<Rightarrow> tcp_driver \<times> unit outcome" where
  "TCP_SendReplies d [] = (d, Returns ())"
| "TCP_SendReplies d (q # qs) = sthen (TCP_SendReply d q) (\<lambda>d1. TCP_SendReplies d1 qs)"

lemma send_reply_open:
  assumes "m_source_fd q = fd" and "0 \<le> fd" and "td_sockets d fd = Some s" and "accepting s"
  obtains s' where "TCP_SendReply d q = (d\<lparr>td_sockets := (td_sockets d)(fd \<mapsto> s')\<rparr>, Returns ())"
    and "accepting s'" and "sk_out s' = sk_out s @ reply_frame q" and "sk_in s' = sk_in s"
proof -
  let ?d = "\<lambda>x. d\<lparr>td_sockets := (td_sockets d)(fd \<mapsto> x)\<rparr>"
  obtain s1 where s1: "tcp_WriteAll d fd (reply_header q) = (?d s1, Returns ())" "accepting s1"
    "sk_out s1 = sk_out s @ reply_header q" "sk_in s1 = sk_in s"
    by (rule tcp_WriteAll_open [OF assms(3,4)])
  have open1: "td_sockets (?d s1) fd = Some s1" by simp
  obtain s2 where s2: "tcp_WriteAll (?d s1) fd (m_buffer q) = (?d s2, Returns ())" "accepting s2"
    "sk_out s2 = sk_out s1 @ m_buffer q" "sk_in s2 = sk_in s1"
    by (rule tcp_WriteAll_open [OF open1 s1(2), of "m_buffer q"]) simp
  show thesis
  proof (cases "sends_payload q")
    case True
    show ?thesis
      by (rule that [of s2])
         (use s1 s2 True assms in \<open>simp_all add: TCP_SendReply_def reply_frame_def\<close>)
  next
    case False
    show ?thesis
      by (rule that [of s1])
         (use s1 False assms in \<open>simp_all add: TCP_SendReply_def reply_frame_def\<close>)
  qed
qed

text \<open>On any socket: what has gone out is a prefix of the frame, and nothing is thrown.\<close>

lemma tcp_WriteAll_prefix:
  assumes "td_sockets d fd = Some s" and "tcp_WriteAll d fd bs = (d', oc)"
  obtains s' k where "d' = d\<lparr>td_sockets := (td_sockets d)(fd \<mapsto> s')\<rparr>"
    and "sk_out s' = sk_out s @ take k bs" and "oc = Returns () \<longrightarrow> length bs \<le> k"
proof -
  obtain s' where s': "tcp_write_loop s bs = (s', oc)" "d' = d\<lparr>td_sockets := (td_sockets d)(fd \<mapsto> s')\<rparr>"
    using assms by (auto simp add: tcp_WriteAll_def split: prod.splits)
  then show thesis using tcpwr.sent_prefix [OF s'(1)] that by blast
qed

lemma tcp_write_outcome:
  assumes "tcp_write_loop s bs = (s', oc)"
  shows "oc \<noteq> Blocks" and "oc \<noteq> Undef" and "oc = Dies \<Longrightarrow> Broken_pipe \<in> set (sk_wr s)"
    and "set (sk_wr s') \<subseteq> set (sk_wr s)"
  using write_loop_outcome [OF assms [unfolded tcp_write_loop_def]]
    write_loop_answers [OF assms [unfolded tcp_write_loop_def]] by simp_all

section \<open>A driver with one client for the witnesses\<close>

definition demo_socket :: "vec list \<Rightarrow> stream_end \<Rightarrow> socket" where
  "demo_socket segs e = \<lparr>sk_in = segs, sk_end = e, sk_out = [], sk_wr = [Takes 3], sk_errno = ''''\<rparr>"

definition demo_tcp :: "socket \<Rightarrow> tcp_driver" where
  "demo_tcp s = \<lparr>td_listen_fd = 4, td_port = 9999, td_client_fds = [(7, ())],
     td_fd_to_ip = [(7, ''10.0.0.9'')], td_allocations = [],
     td_sockets = [4 \<mapsto> listen_socket, 7 \<mapsto> s], td_alloc_file = None, td_alloc_in_opens = True,
     td_alloc_out_opens = True, td_alloc_reaches = None\<rparr>"

definition demo_put :: DriverData where
  "demo_put = (new_DriverData WRITE 1 5 2 SUCCESS)\<lparr>m_buffer := [10, 20], m_source_fd := 7\<rparr>"

definition demo_get :: DriverData where
  "demo_get = (new_DriverData READ 2 5 3 SUCCESS)\<lparr>m_source_fd := 7\<rparr>"

definition demo_wire :: vec where
  "demo_wire = encode_request demo_put @ encode_request demo_get"

lemma demo_wire_requests [simp]: "wire_request 7 demo_put" "wire_request 7 demo_get"
  by (simp_all add: wire_request_def demo_put_def demo_get_def new_DriverData_def action_of_def)

lemma length_demo_wire [simp]: "length demo_wire = 50"
  by (simp add: demo_wire_def encode_request_def demo_put_def demo_get_def)

lemma demo_tcp_simps [simp]:
  "td_sockets (demo_tcp s) 7 = Some s" "td_allocations (demo_tcp s) = []"
  "accepting (demo_socket segs e)" "sk_in (demo_socket segs e) = segs" "sk_end (demo_socket segs e) = e"
  "sk_out (demo_socket segs e) = []"
  by (simp_all add: demo_tcp_def demo_socket_def accepting_def)

lemma demo_segments [simp]:
  "sock_wf (demo_socket [take 3 demo_wire, drop 3 demo_wire] e)"
  "stream (demo_socket [take 3 demo_wire, drop 3 demo_wire] e) = demo_wire"
proof -
  have "demo_wire \<noteq> []" using length_demo_wire by (metis list.size(3) zero_neq_numeral)
  then show "sock_wf (demo_socket [take 3 demo_wire, drop 3 demo_wire] e)"
    by (auto simp add: sock_wf_def)
qed (simp add: stream_def)

section \<open>Properties\<close>

text \<open>C15: Requests come off the wire whole and in order: whatever the kernel's segmentation,
  \<open>n\<close> calls of \<open>ReceiveRequest\<close> on a stream that starts with \<open>n\<close> encoded requests return
  those requests, leave exactly the rest of the stream, and have appended each written payload
  to the allocation of its offset.\<close>

theorem tcp_requests_in_order:
  assumes "\<forall>q \<in> set qs. wire_request fd q" and "td_sockets d fd = Some s" and "sock_wf s"
    and "stream s = concat (map encode_request qs) @ rest"
  shows "\<exists>d' s'. TCP_ReceiveRequests d fd (length qs) = (d', Returns qs) \<and>
    td_sockets d' fd = Some s' \<and> stream s' = rest \<and> sk_out s' = sk_out s \<and>
    (\<forall>off. GetAllocation d' off = GetAllocation d off @ written_at off qs)"
  using assms
proof (induction qs arbitrary: d s)
  case Nil
  then show ?case by (simp add: written_at_def)
next
  case (Cons q qs)
  have "stream s = encode_request q @ (concat (map encode_request qs) @ rest)"
    using Cons.prems(4) by simp
  then obtain s1 where s1: "TCP_ReceiveRequest d fd =
      (noted (d\<lparr>td_sockets := (td_sockets d)(fd \<mapsto> s1)\<rparr>) q, Returns q)"
    "sock_wf s1" "stream s1 = concat (map encode_request qs) @ rest" "sk_out s1 = sk_out s"
    by (rule receive_request_front [of fd q d s, rotated 3]) (use Cons.prems in simp_all)
  let ?d1 = "noted (d\<lparr>td_sockets := (td_sockets d)(fd \<mapsto> s1)\<rparr>) q"
  have "td_sockets ?d1 fd = Some s1" by simp
  then obtain d' s' where d': "TCP_ReceiveRequests ?d1 fd (length qs) = (d', Returns qs)"
    "td_sockets d' fd = Some s'" "stream s' = rest" "sk_out s' = sk_out s1"
    "\<forall>off. GetAllocation d' off = GetAllocation ?d1 off @ written_at off qs"
    using Cons.IH [of ?d1 s1] Cons.prems(1) s1(2,3) by auto
  then show ?case
    using s1(1,4) by (simp add: GetAllocation_noted written_at_Cons)
qed

theorem tcp_requests_in_order_witness:
  "\<exists>d' s'. TCP_ReceiveRequests (demo_tcp (demo_socket [take 3 demo_wire, drop 3 demo_wire] Quiet)) 7 2
      = (d', Returns [demo_put, demo_get]) \<and> td_sockets d' 7 = Some s' \<and> stream s' = [] \<and>
    GetAllocation d' 5 = [10, 20]"
proof -
  let ?s = "demo_socket [take 3 demo_wire, drop 3 demo_wire] Quiet"
  have "written_at 5 [demo_put, demo_get] = [10, 20]"
    by (simp add: written_at_def demo_put_def demo_get_def)
  moreover have "GetAllocation (demo_tcp ?s) 5 = []" by (simp add: GetAllocation_def)
  moreover have "stream ?s = concat (map encode_request [demo_put, demo_get]) @ []"
    unfolding demo_segments(2) by (simp add: demo_wire_def)
  ultimately show ?thesis
    using tcp_requests_in_order [of "[demo_put, demo_get]" 7 "demo_tcp ?s" ?s "[]"]
    by (auto simp add: numeral_2_eq_2)
qed

text \<open>A connection that ends, resets or falls silent inside a request yields no request: a
  read error, an end of stream or an endless wait, and nothing but the socket has changed; in
  particular no part of a payload reaches the allocations or their file.\<close>

theorem tcp_truncated_request:
  assumes "wire_request fd q" and "td_sockets d fd = Some s" and "sock_wf s"
    and "stream s = take k (encode_request q)" and "k < length (encode_request q)"
  shows "\<exists>s'. TCP_ReceiveRequest d fd = (d\<lparr>td_sockets := (td_sockets d)(fd \<mapsto> s')\<rparr>,
    case sk_end s of Eof \<Rightarrow> Throws (Driver_error ''Client disconnected'')
    | Reset \<Rightarrow> Throws (Driver_error (''Read failed: '' @ sk_errno s)) | Quiet \<Rightarrow> Blocks)"
  using receive_request_truncated [OF assms] by blast

theorem tcp_truncated_request_witness:
  "\<exists>s'. TCP_ReceiveRequest (demo_tcp (demo_socket [take 25 (encode_request demo_put)] Eof)) 7 =
    ((demo_tcp (demo_socket [take 25 (encode_request demo_put)] Eof))\<lparr>td_sockets :=
       (td_sockets (demo_tcp (demo_socket [take 25 (encode_request demo_put)] Eof)))(7 \<mapsto> s')\<rparr>,
     Throws (Driver_error ''Client disconnected''))"
proof -
  let ?s = "demo_socket [take 25 (encode_request demo_put)] Eof"
  have len: "length (encode_request demo_put) = 26"
    by (simp add: encode_request_def demo_put_def)
  then have "encode_request demo_put \<noteq> []" by auto
  then have "sock_wf ?s" "stream ?s = take 25 (encode_request demo_put)"
    by (simp_all add: sock_wf_def stream_def)
  then show ?thesis
    using tcp_truncated_request [of 7 demo_put "demo_tcp ?s" ?s 25] len by simp
qed

text \<open>C16: Replies are framed: a client that reads the replies to its requests off the connection,
  one after the other, learns of each its own error code, handle, length and payload, and
  leaves exactly what was sent after them.\<close>

theorem tcp_replies_in_order:
  assumes "\<forall>q \<in> set qs. m_source_fd q = fd \<and> length (m_buffer q) < 2 ^ 32 \<and>
      expects (m_handle q) = payload_type q"
    and "0 \<le> fd" and "td_sockets d fd = Some s" and "accepting s"
  shows "\<exists>d' s' bs. TCP_SendReplies d qs = (d', Returns ()) \<and> td_sockets d' fd = Some s' \<and>
    sk_out s' = sk_out s @ bs \<and>
    (\<forall>rest. decode_replies expects (length qs) (bs @ rest) = Some (map answer qs, rest))"
  using assms
proof (induction qs arbitrary: d s)
  case Nil
  then show ?case by simp
next
  case (Cons q qs)
  obtain s1 where s1: "TCP_SendReply d q = (d\<lparr>td_sockets := (td_sockets d)(fd \<mapsto> s1)\<rparr>, Returns ())"
    "accepting s1" "sk_out s1 = sk_out s @ reply_frame q"
    by (rule send_reply_open [of q fd d s]) (use Cons.prems in simp_all)
  let ?d1 = "d\<lparr>td_sockets := (td_sockets d)(fd \<mapsto> s1)\<rparr>"
  obtain d' s' bs where d': "TCP_SendReplies ?d1 qs = (d', Returns ())" "td_sockets d' fd = Some s'"
    "sk_out s' = sk_out s1 @ bs"
    "\<forall>rest. decode_replies expects (length qs) (bs @ rest) = Some (map answer qs, rest)"
    using Cons.IH [of ?d1 s1] Cons.prems(1,2) s1(2) by auto
  have dec: "decode_reply expects (reply_frame q @ xs) = Some (answer q, xs)" for xs
    using Cons.prems(1) by (intro decode_reply_frame) simp_all
  show ?case
    using s1 d' by (intro exI [of _ d'] exI [of _ s'] exI [of _ "reply_frame q @ bs"]) (simp add: dec)
qed

theorem tcp_replies_in_order_witness:
  "\<exists>d' s' bs. TCP_SendReplies (demo_tcp (demo_socket [] Quiet)) [demo_put, demo_get] = (d', Returns ()) \<and>
    td_sockets d' 7 = Some s' \<and> sk_out s' = bs \<and>
    decode_replies (\<lambda>h. h = 2) 2 bs = Some ([(0, 1, 0, []), (0, 2, 3, [0, 0, 0])], [])"
proof -
  let ?s = "demo_socket [] Quiet"
  have "map answer [demo_put, demo_get] = [(0, 1, 0, []), (0, 2, 3, [0, 0, 0])]"
    by (simp add: answer_def reply_len_def payload_type_def demo_put_def demo_get_def new_DriverData_def
        replicate_small)
  moreover have "\<forall>q \<in> set [demo_put, demo_get]. m_source_fd q = 7 \<and> length (m_buffer q) < 2 ^ 32 \<and>
      (m_handle q = 2) = payload_type q"
    by (simp add: demo_put_def demo_get_def payload_type_def)
  ultimately obtain d' s' bs where "TCP_SendReplies (demo_tcp ?s) [demo_put, demo_get] = (d', Returns ())"
    "td_sockets d' 7 = Some s'" "sk_out s' = bs"
    "\<forall>rest. decode_replies (\<lambda>h. h = 2) 2 (bs @ rest) = Some ([(0, 1, 0, []), (0, 2, 3, [0, 0, 0])], rest)"
    using tcp_replies_in_order [of "[demo_put, demo_get]" 7 "\<lambda>h. h = 2" "demo_tcp ?s" ?s]
    by (auto simp add: numeral_2_eq_2)
  then show ?thesis by (metis append_Nil2)
qed



end
