(* ===== verification/Tcp_State.thy ===== *)
theory Tcp_State
  imports Tcp_Protocol
begin

text \<open>
  What the TCP driver keeps: the allocation table and its file (save and load, also after a
  save that was cut short), and the table of connected clients, whose invariant every
  operation of the driver preserves.
\<close>

section \<open>Loading what was saved\<close>

lemma length_alloc_record [simp]: "length (alloc_record e) = 16 + length (snd e)"
  by (simp add: alloc_record_def)

lemma alloc_bytes_simps [simp]:
  "alloc_bytes [] = []" "alloc_bytes (e # m) = alloc_record e @ alloc_bytes m"
  "alloc_bytes (m1 @ m2) = alloc_bytes m1 @ alloc_bytes m2"
  by (simp_all add: alloc_bytes_def)

text \<open>The two numbers in front of a record, whatever follows them.\<close>

lemma record_head:
  assumes "length a = 8" and "length b = 8"
  shows "take 8 (a @ b @ bs) = a" and "take 8 (drop 8 (a @ b @ bs)) = b" and "drop 16 (a @ b @ bs) = bs"
proof -
  have "16 = length (a @ b)" using assms by simp
  then show "drop 16 (a @ b @ bs) = bs" by (metis append.assoc append_eq_conv_conj)
qed (use assms in simp_all)

lemma load_records_head:
  assumes "length data < 2 ^ 63"
  shows "load_records (be_bytes 8 off @ be_bytes 8 (vsize data) @ rest) acc =
    (if length rest < length data
     then (map_put off (rest @ replicate (length data - length rest) 0) acc, Returns ())
     else load_records (drop (length data) rest) (map_put off (take (length data) rest) acc))"
proof -
  note h = record_head [OF length_be_bytes [of 8 off] length_be_bytes [of 8 "vsize data"], of rest]
  have size: "unat (vsize data) = length data"
    using assms by (intro unat_vsize) simp
  show ?thesis
    using assms by (subst load_records.simps) (simp add: h size Let_def del: take_append drop_append)
qed

lemma load_records_step:
  assumes "length (snd e) < 2 ^ 63"
  shows "load_records (alloc_record e @ bs) acc = load_records bs (map_put (fst e) (snd e) acc)"
  using load_records_head [OF assms, of "fst e" "snd e @ bs"] by (simp add: alloc_record_def)

lemma load_records_bytes:
  assumes "\<forall>e \<in> set m. length (snd e) < 2 ^ 63"
  shows "load_records (alloc_bytes m @ bs) acc = load_records bs (fold (\<lambda>(k, v). map_put k v) m acc)"
  using assms
proof (induction m arbitrary: acc)
  case Nil
  then show ?case by simp
next
  case (Cons e m)
  then show ?case by (simp add: load_records_step case_prod_unfold)
qed

lemma load_records_few: "length bs < 16 \<Longrightarrow> load_records bs acc = (acc, Returns ())"
  by (subst load_records.simps) auto

text \<open>A record of which only a part is there.\<close>

lemma load_records_torn:
  assumes "length data < 2 ^ 63" and "j < 16 + length data"
  shows "load_records (take j (alloc_record (off, data))) acc =
    (if j < 16 then acc
     else map_put off (take (j - 16) data @ replicate (length data - (j - 16)) 0) acc, Returns ())"
proof (cases "j < 16")
  case True
  then show ?thesis by (simp add: load_records_few)
next
  case False
  then have part: "take j (alloc_record (off, data)) =
      be_bytes 8 off @ be_bytes 8 (vsize data) @ take (j - 16) data"
    by (simp add: alloc_record_def)
  have "length (take (j - 16) data) < length data" using assms(2) False by simp
  then show ?thesis
    using False assms(2) load_records_head [OF assms(1), of off "take (j - 16) data" acc]
    unfolding part by simp
qed

section \<open>Clients\<close>

definition clients_ok :: "tcp_driver \<Rightarrow> bool" where
  "clients_ok d \<longleftrightarrow> map_inv (td_client_fds d) \<and> map_inv (td_fd_to_ip d) \<and>
     map_keys (td_client_fds d) = map_keys (td_fd_to_ip d) \<and>
     (\<forall>fd \<in> map_keys (td_client_fds d). 0 \<le> fd \<and> fd \<noteq> td_listen_fd d \<and> td_sockets d fd \<noteq> None)"

lemma clients_ok_accept:
  assumes "clients_ok d" and "0 \<le> fd" and "td_sockets d fd = None"
  shows "clients_ok (fst (AcceptNextClient d (Accepted fd ip s)))"
  using assms
  by (auto simp add: clients_ok_def AcceptNextClient_def RecordClientIP_def split: option.splits)

lemma clients_ok_remove:
  assumes "clients_ok d"
  shows "clients_ok (TCP_RemoveClientFD d fd)"
  using assms
  by (auto simp add: clients_ok_def TCP_RemoveClientFD_def ForgetClientIP_def Let_def)

text \<open>Reading and writing neither open nor close a socket, nor touch the tables.\<close>

definition same_clients :: "tcp_driver \<Rightarrow> tcp_driver \<Rightarrow> bool" where
  "same_clients d d' \<longleftrightarrow> td_listen_fd d' = td_listen_fd d \<and> td_client_fds d' = td_client_fds d \<and>
     td_fd_to_ip d' = td_fd_to_ip d \<and> dom (td_sockets d') = dom (td_sockets d)"

lemma same_clients_refl [simp]: "same_clients d d"
  by (simp add: same_clients_def)

lemma same_clients_trans: "same_clients d e \<Longrightarrow> same_clients e f \<Longrightarrow> same_clients d f"
  by (simp add: same_clients_def)

lemma clients_ok_same: "same_clients d d' \<Longrightarrow> clients_ok d \<Longrightarrow> clients_ok d'"
  by (fastforce simp add: same_clients_def clients_ok_def dom_def set_eq_iff)

lemma same_clients_read: "same_clients d (fst (tcp_ReadAll d fd n))"
  by (auto simp add: same_clients_def tcp_ReadAll_def split: option.splits prod.splits)

lemma same_clients_write: "same_clients d (fst (tcp_WriteAll d fd bs))"
  by (auto simp add: same_clients_def tcp_WriteAll_def split: option.splits prod.splits)

lemma same_clients_noted [simp]: "same_clients d (SaveAllocations (UpdateAllocation d off v))"
  by (simp add: same_clients_def)

lemma same_clients_sbind:
  assumes "same_clients d (fst x)" and "\<And>e v. same_clients d e \<Longrightarrow> same_clients d (fst (f e v))"
  shows "same_clients d (fst (sbind x f))"
  using assms by (cases x; cases "snd x") auto

lemma same_clients_receive: "same_clients d (fst (TCP_ReceiveRequest d fd))"
  unfolding TCP_ReceiveRequest_def Let_def
  by (intro same_clients_sbind same_clients_read)
     (auto intro!: same_clients_sbind intro: same_clients_trans same_clients_read same_clients_noted)

lemma same_clients_reply: "same_clients d (fst (TCP_SendReply d q))"
proof -
  have catch: "fst (scatch x (\<lambda>d1 _. (d1, Returns ()))) = fst x" for x :: "tcp_driver \<times> unit outcome"
    by (cases x; cases "snd x") auto
  show ?thesis
    by (auto simp add: TCP_SendReply_def catch intro!: same_clients_sbind same_clients_write
        dest: same_clients_trans [OF _ same_clients_write])
qed

section \<open>Properties\<close>

text \<open>Allocations survive a restart: what \<open>SaveAllocations\<close> wrote is what \<open>LoadAllocations\<close>
  reads back, entry for entry.\<close>

theorem allocations_save_load:
  assumes "map_inv (td_allocations d)" and "\<forall>e \<in> set (td_allocations d). length (snd e) < 2 ^ 63"
    and "td_alloc_out_opens d" and "td_alloc_in_opens d" and "td_alloc_reaches d = None"
  shows "LoadAllocations ((SaveAllocations d)\<lparr>td_allocations := []\<rparr>) = (SaveAllocations d, Returns ())"
  using load_records_bytes [OF assms(2), of "[]" "[]"] assms
  by (simp add: LoadAllocations_def SaveAllocations_def fold_put_sorted load_records_few)

theorem allocations_save_load_witness:
  "LoadAllocations ((SaveAllocations ((demo_tcp (demo_socket [] Eof))
      \<lparr>td_allocations := [(0, [1, 2]), (9, [])]\<rparr>))\<lparr>td_allocations := []\<rparr>) =
    (SaveAllocations ((demo_tcp (demo_socket [] Eof))\<lparr>td_allocations := [(0, [1, 2]), (9, [])]\<rparr>), Returns ())"
  by (rule allocations_save_load) (simp_all add: demo_tcp_def map_inv_def)

text \<open>A save cut short inside a record loses the records from there on, except that a record
  whose two numbers are whole is kept with its payload filled up with zero bytes: after a
  crash the driver takes bytes for written that never were.\<close>

theorem allocations_torn_save:
  assumes "map_inv (td_allocations d)" and "\<forall>e \<in> set (td_allocations d). length (snd e) < 2 ^ 63"
    and "td_allocations d = before @ (off, data) # after" and "j < 16 + length data"
    and "td_alloc_out_opens d" and "td_alloc_in_opens d"
    and "td_alloc_reaches d = Some (length (alloc_bytes before) + j)"
  shows "td_allocations (fst (LoadAllocations ((SaveAllocations d)\<lparr>td_allocations := []\<rparr>))) =
    before @ (if j < 16 then []
              else [(off, take (j - 16) data @ replicate (length data - (j - 16)) 0)])"
proof -
  have "map_inv before" "\<forall>x \<in> fst ` set before. x < off"
    using assms(1) by (auto simp add: assms(3) map_inv_def sorted_wrt_append)
  then have "fold (\<lambda>(k, v). map_put k v) before [] = before" "map_put off v before = before @ [(off, v)]" for v
    by (simp_all add: fold_put_sorted map_put_above)
  moreover have "\<forall>e \<in> set before. length (snd e) < 2 ^ 63" "length data < 2 ^ 63"
    using assms(2,3) by simp_all
  moreover have "take (length (alloc_bytes before) + j) (alloc_bytes (td_allocations d)) =
      alloc_bytes before @ take j (alloc_record (off, data))"
    using assms(3,4) by simp
  ultimately have "load_records (take (length (alloc_bytes before) + j) (alloc_bytes (td_allocations d))) [] =
      (before @ (if j < 16 then [] else [(off, take (j - 16) data @ replicate (length data - (j - 16)) 0)]),
       Returns ())"
    using assms(4) by (simp add: load_records_bytes load_records_torn)
  then show ?thesis
    using assms(5-7) by (simp add: LoadAllocations_def SaveAllocations_def)
qed

theorem allocations_torn_save_witness:
  "td_allocations (fst (LoadAllocations ((SaveAllocations ((demo_tcp (demo_socket [] Eof))
      \<lparr>td_allocations := [(0, [1, 2, 3])], td_alloc_reaches := Some 17\<rparr>))\<lparr>td_allocations := []\<rparr>))) =
    [(0, [1, 0, 0])]"
  using allocations_torn_save [of "(demo_tcp (demo_socket [] Eof))
      \<lparr>td_allocations := [(0, [1, 2, 3])], td_alloc_reaches := Some 17\<rparr>" "[]" 0 "[1, 2, 3]" "[]" 17]
  by (simp add: demo_tcp_def map_inv_def replicate_small)

end
