(* ===== verification/Nbd_Driver.thy ===== *)
theory Nbd_Driver
  imports Socket_Stream Driver_Data
begin

text \<open>
  \<^verbatim>\<open>NBDDriverComm\<close> (\<^verbatim>\<open>services/communication_protocols/nbd\<close>): requests of the kernel's network
  block device arrive on one end of a socket pair; the other end is handed to the kernel. The
  driver owns two threads, the listener (inside \<^verbatim>\<open>NBD_DO_IT\<close>) and the signal thread.

  The wire format is \<^verbatim>\<open>struct nbd_request\<close> (magic, type, handle, offset, length: 28 bytes) and
  \<^verbatim>\<open>struct nbd_reply\<close> (magic, error, handle: 16 bytes) of \<^verbatim>\<open>linux/nbd.h\<close>; the handle is copied
  as it is, the rest is in network order.
\<close>

section \<open>State\<close>

text \<open>
  The fields of the object: the three descriptors (\<open>-1\<close> once closed) and whether the two
  threads can be joined; and the server's end of the socket pair.
\<close>

record nbd_driver =
  nd_nbdFd :: int
  nd_serverFd :: int
  nd_clientFd :: int
  nd_listener :: bool
  nd_signal_thread :: bool
  nd_socket :: socket

definition NBD_REQUEST_MAGIC :: u32 where "NBD_REQUEST_MAGIC = 0x25609513"
definition NBD_REPLY_MAGIC :: u32 where "NBD_REPLY_MAGIC = 0x67446698"

section \<open>Reading and writing\<close>

definition nbd_read_loop :: "socket \<Rightarrow> nat \<Rightarrow> socket \<times> vec outcome" where
  "nbd_read_loop = read_loop (\<lambda>m. Driver_error (''ReadAll: failed to read from socket: '' @ m))
                             (\<lambda>m. Driver_error (''ReadAll: failed to read from socket: '' @ m))"

definition nbd_write_loop :: "socket \<Rightarrow> vec \<Rightarrow> socket \<times> unit outcome" where
  "nbd_write_loop = write_loop (\<lambda>m. Driver_error (''WriteAll: failed to write to socket: '' @ m))
                               (\<lambda>m. Driver_error (''WriteAll: failed to write to socket: '' @ m))"

definition nbd_ReadAll :: "nbd_driver \<Rightarrow> nat \<Rightarrow> nbd_driver \<times> vec outcome" where
  "nbd_ReadAll d count =
     (case nbd_read_loop (nd_socket d) count of (s1, oc) \<Rightarrow> (d\<lparr>nd_socket := s1\<rparr>, oc))"

definition nbd_WriteAll :: "nbd_driver \<Rightarrow> vec \<Rightarrow> nbd_driver \<times> unit outcome" where
  "nbd_WriteAll d buf =
     (case nbd_write_loop (nd_socket d) buf of (s1, oc) \<Rightarrow> (d\<lparr>nd_socket := s1\<rparr>, oc))"

section \<open>Requests and replies\<close>

record nbd_request =
  nr_magic :: u32
  nr_type :: u32
  nr_handle :: size_t
  nr_from :: size_t
  nr_len :: u32

definition parse_nbd_request :: "vec \<Rightarrow> nbd_request" where
  "parse_nbd_request bs =
     \<lparr>nr_magic = be_word (subvec bs 0 4), nr_type = be_word (subvec bs 4 4),
      nr_handle = le_word (subvec bs 8 8), nr_from = be_word (subvec bs 16 8),
      nr_len = be_word (subvec bs 24 4)\<rparr>"

text \<open>The switch on \<^verbatim>\<open>NBD_CMD_READ\<close> (0), \<^verbatim>\<open>WRITE\<close> (1), \<^verbatim>\<open>DISC\<close> (2), \<^verbatim>\<open>FLUSH\<close> (3) and \<^verbatim>\<open>TRIM\<close> (4).\<close>

definition nbd_action :: "u32 \<Rightarrow> ActionType outcome" where
  "nbd_action type =
     (if type = 0 then Returns READ else if type = 1 then Returns WRITE
      else if type = 2 then Returns DISCONNECT else if type = 3 then Returns FLUSH
      else if type = 4 then Returns TRIM
      else Throws (Driver_error (''Unknown NBD command type: '' @ to_string (unat type))))"

definition NBD_ReceiveRequest :: "nbd_driver \<Rightarrow> int \<Rightarrow> nbd_driver \<times> DriverData outcome" where
  "NBD_ReceiveRequest d fd =
     sbind (nbd_ReadAll d 28) (\<lambda>d1 bytes.
       let request = parse_nbd_request bytes
       in if nr_magic request \<noteq> NBD_REQUEST_MAGIC
          then (d1, Throws (Driver_error ''Invalid NBD request magic''))
          else sbind (d1, nbd_action (nr_type request)) (\<lambda>d1 action.
            let ret = (new_DriverData action (nr_handle request) (nr_from request)
                         (ucast (nr_len request)) SUCCESS)\<lparr>m_source_fd := fd\<rparr>
            in if action = WRITE
               then sbind (nbd_ReadAll d1 (unat (nr_len request))) (\<lambda>d2 data.
                      (d2, Returns (ret\<lparr>m_buffer := data\<rparr>)))
               else (d1, Returns ret)))"

definition nbd_reply_header :: "DriverData \<Rightarrow> vec" where
  "nbd_reply_header q =
     be_bytes 4 NBD_REPLY_MAGIC @ be_bytes 4 (if m_status q = SUCCESS then 0 else 5 :: u32) @
     le_bytes 8 (m_handle q)"

definition NBD_SendReply :: "nbd_driver \<Rightarrow> DriverData \<Rightarrow> nbd_driver \<times> unit outcome" where
  "NBD_SendReply d q =
     sbind (nbd_WriteAll d (nbd_reply_header q)) (\<lambda>d1 _.
       if m_type q = READ \<and> m_status q = SUCCESS then nbd_WriteAll d1 (m_buffer q)
       else (d1, Returns ()))"

definition NBD_GetFD :: "nbd_driver \<Rightarrow> int" where
  "NBD_GetFD d = nd_serverFd d"

definition NBD_RemoveClientFD :: "nbd_driver \<Rightarrow> int \<Rightarrow> nbd_driver" where
  "NBD_RemoveClientFD d fd = d"

definition NBD_TryAccept :: "nbd_driver \<Rightarrow> int \<Rightarrow> nbd_driver \<times> int" where
  "NBD_TryAccept d fd = (d, -1)"

section \<open>Disconnecting\<close>

text \<open>
  Who calls \<open>Disconnect\<close>: the driver's own signal thread or any other one. \<open>listener_ends\<close> and
  \<open>signal_ends\<close> say whether those threads come to their end. A thread that joins itself gets
  a \<^verbatim>\<open>std::system_error\<close>.
\<close>

datatype nbd_caller = Signal_thread | Other_thread

definition nbd_join_listener :: "bool \<Rightarrow> nbd_driver \<Rightarrow> nbd_driver \<times> unit outcome" where
  "nbd_join_listener listener_ends d =
     (if \<not> nd_listener d then (d, Returns ())
      else if listener_ends then (d\<lparr>nd_listener := False\<rparr>, Returns ())
      else (d, Blocks))"

definition nbd_join_signal :: "nbd_caller \<Rightarrow> bool \<Rightarrow> nbd_driver \<Rightarrow> nbd_driver \<times> unit outcome" where
  "nbd_join_signal self signal_ends d =
     (if \<not> nd_signal_thread d then (d, Returns ())
      else if self = Signal_thread then (d, Throws (Runtime_error ''Resource deadlock avoided''))
      else if signal_ends then (d\<lparr>nd_signal_thread := False\<rparr>, Returns ())
      else (d, Blocks))"

definition NBD_Disconnect ::
  "nbd_caller \<Rightarrow> bool \<Rightarrow> bool \<Rightarrow> nbd_driver \<Rightarrow> nbd_driver \<times> unit outcome" where
  "NBD_Disconnect self listener_ends signal_ends d =
     (let d1 = (if nd_nbdFd d \<noteq> -1 then d\<lparr>nd_nbdFd := -1\<rparr> else d)
      in sthen (sthen (nbd_join_listener listener_ends d1) (nbd_join_signal self signal_ends))
           (\<lambda>d2. (d2\<lparr>nd_serverFd := -1, nd_clientFd := -1\<rparr>, Returns ())))"

text \<open>
  The body of the signal thread once \<^verbatim>\<open>sigwait\<close> has a signal: an exception that leaves a
  thread's function ends the process. The same holds for the destructor, which is \<^verbatim>\<open>noexcept\<close>.
\<close>

definition nbd_terminate :: "nbd_driver \<times> unit outcome \<Rightarrow> nbd_driver \<times> unit outcome" where
  "nbd_terminate x = scatch x (\<lambda>d _. (d, Dies))"

definition nbd_signal_thread_body :: "bool \<Rightarrow> nbd_driver \<Rightarrow> nbd_driver \<times> unit outcome" where
  "nbd_signal_thread_body listener_ends d =
     nbd_terminate (NBD_Disconnect Signal_thread listener_ends False d)"

definition NBD_destroy :: "bool \<Rightarrow> bool \<Rightarrow> nbd_driver \<Rightarrow> nbd_driver \<times> unit outcome" where
  "NBD_destroy listener_ends signal_ends d =
     nbd_terminate (NBD_Disconnect Other_thread listener_ends signal_ends d)"

section \<open>Construction\<close>

text \<open>
  The answers of the kernel. A failed \<^verbatim>\<open>assert\<close> aborts. When \<^verbatim>\<open>NBD_SET_SOCK\<close> fails the
  exception leaves a constructor whose signal thread already runs: its \<^verbatim>\<open>std::thread\<close> member
  is destroyed while joinable, and the process ends.
\<close>

record nbd_answers =
  na_socketpair_ok :: bool
  na_server :: int
  na_client :: int
  na_fd :: int
  na_set_size_ok :: bool
  na_clear_sock_ok :: bool
  na_set_sock_ok :: bool
  na_errno :: string
  na_socket :: socket

definition SetUpSignals :: "nbd_driver \<Rightarrow> nbd_driver" where
  "SetUpSignals d = d\<lparr>nd_signal_thread := True\<rparr>"

definition NBDDriverComm :: "nbd_answers \<Rightarrow> string \<Rightarrow> size_t \<Rightarrow> nbd_driver outcome" where
  "NBDDriverComm na dev capacity =
     (let d = \<lparr>nd_nbdFd = na_fd na, nd_serverFd = na_server na, nd_clientFd = na_client na,
               nd_listener = False, nd_signal_thread = False, nd_socket = na_socket na\<rparr>;
          d1 = SetUpSignals d
      in if \<not> na_socketpair_ok na then Dies
         else if na_fd na = -1
         then Throws (Driver_error (''Failed to open '' @ dev @ '': '' @ na_errno na))
         else if \<not> na_set_size_ok na
         then Throws (Driver_error (''NBD_SET_SIZE failed: '' @ na_errno na))
         else if \<not> na_clear_sock_ok na
         then Throws (Driver_error (''NBD_CLEAR_SOCK failed: '' @ na_errno na))
         else if \<not> na_set_sock_ok na
         then (if nd_signal_thread d1 then Dies
               else Throws (Driver_error (''NBD_SET_SOCK failed: '' @ na_errno na)))
         else Returns (d1\<lparr>nd_listener := True\<rparr>))"

text \<open>\<^verbatim>\<open>block_size_ * num_blocks_\<close> is a product of \<open>size_t\<close>.\<close>

definition NBDDriverComm_blocks ::
  "nbd_answers \<Rightarrow> string \<Rightarrow> size_t \<Rightarrow> size_t \<Rightarrow> nbd_driver outcome" where
  "NBDDriverComm_blocks na dev block_size num_blocks = NBDDriverComm na dev (block_size * num_blocks)"

section \<open>The kernel's side of the protocol\<close>

interpretation nbdrd: stream_reader nbd_read_loop
  "short_outcome (\<lambda>m. Driver_error (''ReadAll: failed to read from socket: '' @ m))
                 (\<lambda>m. Driver_error (''ReadAll: failed to read from socket: '' @ m))"
  unfolding nbd_read_loop_def by (rule read_loop_reader)

interpretation nbdwr: stream_writer nbd_write_loop
  unfolding nbd_write_loop_def by (rule write_loop_writer)

definition nbd_request_header :: "DriverData \<Rightarrow> vec" where
  "nbd_request_header q =
     be_bytes 4 NBD_REQUEST_MAGIC @ be_bytes 4 (action_code (m_type q)) @ le_bytes 8 (m_handle q) @
     be_bytes 8 (m_offset q) @ be_bytes 4 (ucast (m_len q) :: u32)"

definition encode_nbd_request :: "DriverData \<Rightarrow> vec" where
  "encode_nbd_request q = nbd_request_header q @ (if m_type q = WRITE then m_buffer q else [])"

definition nbd_wire_request :: "int \<Rightarrow> DriverData \<Rightarrow> bool" where
  "nbd_wire_request fd q \<longleftrightarrow>
     unat (m_len q) < 2 ^ 32 \<and> m_type q \<in> {READ, WRITE, DISCONNECT, FLUSH, TRIM} \<and>
     length (m_buffer q) = unat (m_len q) \<and>
     (m_type q \<noteq> WRITE \<longrightarrow> m_buffer q = replicate (unat (m_len q)) 0) \<and>
     m_status q = SUCCESS \<and> m_source_fd q = fd"

lemma length_nbd_request_header [simp]: "length (nbd_request_header q) = 28"
  by (simp add: nbd_request_header_def)

end
