(* ===== verification/Nbd_Protocol.thy ===== *)
theory Nbd_Protocol
  imports Nbd_Driver
begin

text \<open>
  The NBD driver against the kernel's wire format, and how it shuts down.
\<close>

section \<open>Requests\<close>

lemma parse_nbd_request_header:
  "parse_nbd_request (nbd_request_header q) =
    \<lparr>nr_magic = NBD_REQUEST_MAGIC, nr_type = action_code (m_type q), nr_handle = m_handle q,
     nr_from = m_offset q, nr_len = ucast (m_len q)\<rparr>"
proof -
  let ?m = "be_bytes 4 NBD_REQUEST_MAGIC" and ?t = "be_bytes 4 (action_code (m_type q))"
  let ?h = "le_bytes 8 (m_handle q)" and ?o = "be_bytes 8 (m_offset q)"
  let ?l = "be_bytes 4 (ucast (m_len q) :: u32)"
  have "subvec (nbd_request_header q) 0 4 = ?m"
    using subvec_front [of "[]" 0 ?m 4] by (simp add: nbd_request_header_def)
  moreover have "subvec (nbd_request_header q) 4 4 = ?t"
    using subvec_front [of ?m 4 ?t 4] by (simp add: nbd_request_header_def)
  moreover have "subvec (nbd_request_header q) 8 8 = ?h"
    using subvec_front [of "?m @ ?t" 8 ?h 8] by (simp add: nbd_request_header_def)
  moreover have "subvec (nbd_request_header q) 16 8 = ?o"
    using subvec_front [of "?m @ ?t @ ?h" 16 ?o 8] by (simp add: nbd_request_header_def)
  moreover have "subvec (nbd_request_header q) 24 4 = ?l"
    using subvec_front [of "?m @ ?t @ ?h @ ?o" 24 ?l 4 "[]"] by (simp add: nbd_request_header_def)
  ultimately show ?thesis by (simp add: parse_nbd_request_def)
qed

lemma nbd_action_code:
  "m_type q \<in> {READ, WRITE, DISCONNECT, FLUSH, TRIM} \<Longrightarrow> nbd_action (action_code (m_type q)) = Returns (m_type q)"
  by (auto simp add: nbd_action_def)

lemma nbd_ReadAll_front:
  assumes "sock_wf (nd_socket d)" and "stream (nd_socket d) = a @ b" and "length a = n"
  obtains s' where "nbd_ReadAll d n = (d\<lparr>nd_socket := s'\<rparr>, Returns a)" and "sock_wf s'"
    and "stream s' = b" and "sk_out s' = sk_out (nd_socket d)"
proof -
  obtain s' where "nbd_read_loop (nd_socket d) n = (s', Returns a)" "consumed (nd_socket d) n s'"
    "stream s' = b"
    by (rule nbdrd.read_front [OF assms])
  then show thesis using that [of s'] consumedD [of "nd_socket d" n s'] by (simp add: nbd_ReadAll_def)
qed

lemma nbd_receive_front:
  assumes q: "nbd_wire_request fd q" and wf: "sock_wf (nd_socket d)"
    and str: "stream (nd_socket d) = encode_nbd_request q @ rest"
  obtains s' where "NBD_ReceiveRequest d fd = (d\<lparr>nd_socket := s'\<rparr>, Returns q)" and "sock_wf s'"
    and "stream s' = rest" and "sk_out s' = sk_out (nd_socket d)"
proof -
  let ?payload = "if m_type q = WRITE then m_buffer q else []"
  have "stream (nd_socket d) = nbd_request_header q @ (?payload @ rest)"
    using str by (simp add: encode_nbd_request_def)
  then obtain s1 where s1: "nbd_ReadAll d 28 = (d\<lparr>nd_socket := s1\<rparr>, Returns (nbd_request_header q))"
    "sock_wf s1" "stream s1 = ?payload @ rest" "sk_out s1 = sk_out (nd_socket d)"
    using nbd_ReadAll_front [OF wf] length_nbd_request_header by metis
  have len: "unat (m_len q) < 2 ^ 32" and buf: "length (m_buffer q) = unat (m_len q)"
    and type: "m_type q \<in> {READ, WRITE, DISCONNECT, FLUSH, TRIM}"
    using q by (simp_all add: nbd_wire_request_def)
  note eval = NBD_ReceiveRequest_def parse_nbd_request_header Let_def nbd_action_code [OF type]
    len_roundtrip [OF len]
  show thesis
  proof (cases "m_type q = WRITE")
    case True
    have made: "(new_DriverData WRITE (m_handle q) (m_offset q) (m_len q) SUCCESS)
        \<lparr>m_source_fd := fd, m_buffer := m_buffer q\<rparr> = q"
      using q True by (simp add: nbd_wire_request_def new_DriverData_def)
    obtain s2 where s2: "nbd_ReadAll (d\<lparr>nd_socket := s1\<rparr>) (unat (m_len q)) =
        (d\<lparr>nd_socket := s2\<rparr>, Returns (m_buffer q))"
      "sock_wf s2" "stream s2 = rest" "sk_out s2 = sk_out s1"
      using nbd_ReadAll_front [of "d\<lparr>nd_socket := s1\<rparr>" "m_buffer q" rest "unat (m_len q)"] s1 True buf
      by auto
    show ?thesis by (rule that [of s2]) (use s1 s2 made True in \<open>simp_all add: eval nbd_action_def\<close>)
  next
    case False
    have "(new_DriverData (m_type q) (m_handle q) (m_offset q) (m_len q) SUCCESS)
        \<lparr>m_source_fd := fd\<rparr> = q"
      using q False by (simp add: nbd_wire_request_def new_DriverData_def)
    then show ?thesis by (intro that [of s1]) (use s1 False in \<open>simp_all add: eval\<close>)
  qed
qed

fun NBD_ReceiveRequests :: "nbd_driver \<Rightarrow> int \<Rightarrow> nat \<Rightarrow> nbd_driver \<times> DriverData list outcome" where
  "NBD_ReceiveRequests d fd 0 = (d, Returns [])"
| "NBD_ReceiveRequests d fd (Suc n) =
     sbind (NBD_ReceiveRequest d fd) (\<lambda>d1 q.
       sbind (NBD_ReceiveRequests d1 fd n) (\<lambda>d2 qs. (d2, Returns (q # qs))))"

section \<open>Replies\<close>

text \<open>The kernel knows from the handle whether it asked for data, and for how many bytes.\<close>

definition decode_nbd_reply ::
  "(size_t \<Rightarrow> nat) \<Rightarrow> vec \<Rightarrow> ((u32 \<times> size_t \<times> vec) \<times> vec) option" where
  "decode_nbd_reply wanted bs =
     (if length bs < 16 \<or> be_word (subvec bs 0 4) \<noteq> NBD_REPLY_MAGIC then None
      else let error = be_word (subvec bs 4 4);
               handle = le_word (subvec bs 8 8);
               n = (if error = 0 then wanted handle else 0)
           in if length (drop 16 bs) < n then None
              else Some ((error, handle, take n (drop 16 bs)), drop n (drop 16 bs)))"

definition nbd_reply_frame :: "DriverData \<Rightarrow> vec" where
  "nbd_reply_frame q =
     nbd_reply_header q @ (if m_type q = READ \<and> m_status q = SUCCESS then m_buffer q else [])"

definition nbd_answer :: "DriverData \<Rightarrow> u32 \<times> size_t \<times> vec" where
  "nbd_answer q = (if m_status q = SUCCESS then 0 else 5, m_handle q,
     if m_type q = READ \<and> m_status q = SUCCESS then m_buffer q else [])"

lemma length_nbd_reply_header [simp]: "length (nbd_reply_header q) = 16"
  by (simp add: nbd_reply_header_def)

lemma decode_nbd_reply_frame:
  assumes "wanted (m_handle q) = (if m_type q = READ then length (m_buffer q) else 0)"
  shows "decode_nbd_reply wanted (nbd_reply_frame q @ bs) = Some (nbd_answer q, bs)"
proof -
  let ?p = "if m_type q = READ \<and> m_status q = SUCCESS then m_buffer q else []"
  let ?m = "be_bytes 4 NBD_REPLY_MAGIC" and ?h = "le_bytes 8 (m_handle q)"
  let ?e = "be_bytes 4 (if m_status q = SUCCESS then 0 else 5 :: u32)"
  have frame: "nbd_reply_frame q @ bs = ?m @ ?e @ ?h @ (?p @ bs)"
    by (simp add: nbd_reply_frame_def nbd_reply_header_def)
  have "subvec (?m @ ?e @ ?h @ (?p @ bs)) 0 4 = ?m" using subvec_front [of "[]" 0 ?m 4] by simp
  moreover have "subvec (?m @ ?e @ ?h @ (?p @ bs)) 4 4 = ?e" using subvec_front [of ?m 4 ?e 4] by simp
  moreover have "subvec (?m @ ?e @ ?h @ (?p @ bs)) 8 8 = ?h"
    using subvec_front [of "?m @ ?e" 8 ?h 8] by simp
  moreover have "drop 16 (?m @ ?e @ ?h @ (?p @ bs)) = ?p @ bs" by simp
  ultimately show ?thesis
    unfolding frame decode_nbd_reply_def by (simp add: assms nbd_answer_def Let_def)
qed

lemma nbd_WriteAll_open:
  assumes "accepting (nd_socket d)"
  obtains s' where "nbd_WriteAll d bs = (d\<lparr>nd_socket := s'\<rparr>, Returns ())" and "accepting s'"
    and "sk_out s' = sk_out (nd_socket d) @ bs"
proof -
  obtain s' where "nbd_write_loop (nd_socket d) bs = (s', Returns ())" "accepting s'"
    "sk_out s' = sk_out (nd_socket d) @ bs"
    by (rule nbdwr.sends_all [OF assms])
  then show thesis using that [of s'] by (simp add: nbd_WriteAll_def)
qed

lemma nbd_send_open:
  assumes "accepting (nd_socket d)"
  obtains s' where "NBD_SendReply d q = (d\<lparr>nd_socket := s'\<rparr>, Returns ())" and "accepting s'"
    and "sk_out s' = sk_out (nd_socket d) @ nbd_reply_frame q"
proof -
  obtain s1 where s1: "nbd_WriteAll d (nbd_reply_header q) = (d\<lparr>nd_socket := s1\<rparr>, Returns ())"
    "accepting s1" "sk_out s1 = sk_out (nd_socket d) @ nbd_reply_header q"
    by (rule nbd_WriteAll_open [OF assms])
  have acc: "accepting (nd_socket (d\<lparr>nd_socket := s1\<rparr>))" using s1(2) by simp
  obtain s2 where s2: "nbd_WriteAll (d\<lparr>nd_socket := s1\<rparr>) (m_buffer q) = (d\<lparr>nd_socket := s2\<rparr>, Returns ())"
    "accepting s2" "sk_out s2 = sk_out s1 @ m_buffer q"
    by (rule nbd_WriteAll_open [OF acc, of "m_buffer q"]) simp
  show thesis
  proof (cases "m_type q = READ \<and> m_status q = SUCCESS")
    case True
    then show ?thesis
      by (intro that [of s2]) (use s1 s2 in \<open>simp_all add: NBD_SendReply_def nbd_reply_frame_def\<close>)
  next
    case False
    then show ?thesis
      by (intro that [of s1]) (use s1 in \<open>auto simp add: NBD_SendReply_def nbd_reply_frame_def\<close>)
  qed
qed

section \<open>Properties\<close>

definition demo_nbd :: "socket \<Rightarrow> nbd_driver" where
  "demo_nbd s = \<lparr>nd_nbdFd = 5, nd_serverFd = 3, nd_clientFd = 4, nd_listener = True,
     nd_signal_thread = True, nd_socket = s\<rparr>"

definition demo_nbd_socket :: "vec list \<Rightarrow> socket" where
  "demo_nbd_socket segs =
     \<lparr>sk_in = segs, sk_end = Quiet, sk_out = [], sk_wr = [Takes 1], sk_errno = ''''\<rparr>"

lemma demo_nbd_socket_simps [simp]:
  "sk_in (demo_nbd_socket segs) = segs" "sk_out (demo_nbd_socket segs) = []"
  "sk_wr (demo_nbd_socket segs) = [Takes 1]"
  by (simp_all add: demo_nbd_socket_def)

definition demo_nbd_read :: DriverData where
  "demo_nbd_read = (new_DriverData READ 77 4096 2 SUCCESS)\<lparr>m_source_fd := 3\<rparr>"

text \<open>Requests of the kernel come off the socket whole and in order: \<open>n\<close> encoded requests, in
  whatever segments they arrive, are received as they were sent, and nothing more is taken.\<close>

theorem nbd_requests_in_order:
  assumes "\<forall>q \<in> set qs. nbd_wire_request fd q" and "sock_wf (nd_socket d)"
    and "stream (nd_socket d) = concat (map encode_nbd_request qs) @ rest"
  shows "\<exists>s'. NBD_ReceiveRequests d fd (length qs) = (d\<lparr>nd_socket := s'\<rparr>, Returns qs) \<and>
    stream s' = rest \<and> sk_out s' = sk_out (nd_socket d)"
  using assms
proof (induction qs arbitrary: d)
  case Nil
  then show ?case by (intro exI [of _ "nd_socket d"]) simp
next
  case (Cons q qs)
  have "stream (nd_socket d) = encode_nbd_request q @ (concat (map encode_nbd_request qs) @ rest)"
    using Cons.prems(3) by simp
  then obtain s1 where s1: "NBD_ReceiveRequest d fd = (d\<lparr>nd_socket := s1\<rparr>, Returns q)" "sock_wf s1"
    "stream s1 = concat (map encode_nbd_request qs) @ rest" "sk_out s1 = sk_out (nd_socket d)"
    using nbd_receive_front [of fd q d] Cons.prems(1,2) by (metis list.set_intros(1))
  then show ?case using Cons.IH [of "d\<lparr>nd_socket := s1\<rparr>"] Cons.prems(1) by auto
qed

theorem nbd_requests_in_order_witness:
  "\<exists>s'. NBD_ReceiveRequests (demo_nbd (demo_nbd_socket [encode_nbd_request demo_nbd_read])) 3 1 =
    ((demo_nbd (demo_nbd_socket [encode_nbd_request demo_nbd_read]))\<lparr>nd_socket := s'\<rparr>, Returns [demo_nbd_read]) \<and> stream s' = []"
proof -
  let ?s = "demo_nbd_socket [encode_nbd_request demo_nbd_read]"
  have "length (encode_nbd_request demo_nbd_read) = 28"
    by (simp add: encode_nbd_request_def demo_nbd_read_def)
  then have "sock_wf ?s" by (auto simp add: sock_wf_def)
  moreover have "nd_socket (demo_nbd ?s) = ?s" "stream ?s = encode_nbd_request demo_nbd_read"
    by (simp_all add: demo_nbd_def stream_def)
  moreover have "nbd_wire_request 3 demo_nbd_read"
    by (simp add: nbd_wire_request_def demo_nbd_read_def new_DriverData_def)
  ultimately show ?thesis
    using nbd_requests_in_order [of "[demo_nbd_read]" 3 "demo_nbd ?s" "[]"]
    by auto
qed

text \<open>NBD replies are framed: after each \<open>SendReply\<close> the kernel finds exactly one whole reply
  more on its end, and decodes from it the error code, the handle and, for a read that
  succeeded, the data.\<close>

theorem nbd_reply_framed:
  assumes "accepting (nd_socket d)"
    and "wanted (m_handle q) = (if m_type q = READ then length (m_buffer q) else 0)"
  shows "\<exists>s' bs. NBD_SendReply d q = (d\<lparr>nd_socket := s'\<rparr>, Returns ()) \<and> accepting s' \<and>
    sk_out s' = sk_out (nd_socket d) @ bs \<and>
    (\<forall>rest. decode_nbd_reply wanted (bs @ rest) = Some (nbd_answer q, rest))"
proof -
  obtain s' where "NBD_SendReply d q = (d\<lparr>nd_socket := s'\<rparr>, Returns ())" "accepting s'"
    "sk_out s' = sk_out (nd_socket d) @ nbd_reply_frame q"
    by (rule nbd_send_open [OF assms(1)])
  then show ?thesis using decode_nbd_reply_frame [of wanted q] assms(2) by auto
qed

theorem nbd_reply_framed_witness:
  "\<exists>s' bs. NBD_SendReply (demo_nbd (demo_nbd_socket [])) demo_nbd_read =
      ((demo_nbd (demo_nbd_socket []))
        \<lparr>nd_socket := s'\<rparr>, Returns ()) \<and> sk_out s' = bs \<and>
    decode_nbd_reply (\<lambda>_. 2) bs = Some ((0, 77, [0, 0]), [])"
proof -
  let ?d = "demo_nbd (demo_nbd_socket [])"
  have "nbd_answer demo_nbd_read = (0, 77, [0, 0])"
    by (simp add: nbd_answer_def demo_nbd_read_def new_DriverData_def replicate_small)
  moreover have "accepting (nd_socket ?d)" by (simp add: demo_nbd_def accepting_def)
  moreover have "sk_out (nd_socket ?d) = []" by (simp add: demo_nbd_def)
  ultimately obtain s' bs where "NBD_SendReply ?d demo_nbd_read = (?d\<lparr>nd_socket := s'\<rparr>, Returns ())"
    "sk_out s' = bs" "\<forall>rest. decode_nbd_reply (\<lambda>_. 2) (bs @ rest) = Some ((0, 77, [0, 0]), rest)"
    using nbd_reply_framed [of ?d "\<lambda>_. 2" demo_nbd_read] by (auto simp add: demo_nbd_read_def)
  then show ?thesis by (metis append_Nil2)
qed

text \<open>A driver the constructor returned has no orderly end. When a signal reaches its signal
  thread, that thread's \<open>Disconnect\<close> joins the thread itself, and the exception ends the
  process; when no signal comes, the destructor waits for ever for the signal thread.\<close>

theorem nbd_no_orderly_shutdown:
  assumes "NBDDriverComm na dev capacity = Returns d"
  shows "snd (nbd_signal_thread_body True d) = Dies \<and> snd (NBD_destroy True False d) = Blocks \<and>
    snd (nbd_signal_thread_body False d) = Blocks"
proof -
  have "nd_listener d" "nd_signal_thread d"
    using assms by (auto simp add: NBDDriverComm_def SetUpSignals_def Let_def split: if_splits)
  then show ?thesis
    by (simp add: nbd_signal_thread_body_def NBD_destroy_def NBD_Disconnect_def nbd_join_listener_def
        nbd_join_signal_def nbd_terminate_def Let_def)
qed

theorem nbd_no_orderly_shutdown_witness:
  "snd (nbd_signal_thread_body True (demo_nbd (demo_nbd_socket []))) = Dies \<and>
   snd (NBD_destroy True False (demo_nbd (demo_nbd_socket []))) = Blocks"
  using nbd_no_orderly_shutdown [of "\<lparr>na_socketpair_ok = True, na_server = 3, na_client = 4, na_fd = 5,
      na_set_size_ok = True, na_clear_sock_ok = True, na_set_sock_ok = True, na_errno = '''',
      na_socket = demo_nbd_socket []\<rparr>"
      "''/dev/nbd0''" 4096 "demo_nbd (demo_nbd_socket [])"]
  by (simp add: NBDDriverComm_def SetUpSignals_def demo_nbd_def Let_def)

end
