(* ===== verification/Command_Queue.thy ===== *)
theory Command_Queue
  imports Lds_Prelude "HOL-Library.Multiset"
begin

text \<open>
  Commands and the waiting priority queue: \<^verbatim>\<open>ICommand\<close> (\<^verbatim>\<open>design_patterns/command\<close>), whose order
  compares priorities only, and \<^verbatim>\<open>WPQ\<close> (\<^verbatim>\<open>utilities/thread_safe_data_structures\<close>), a
  \<^verbatim>\<open>std::priority_queue\<close> behind a mutex. Which of several elements of the highest priority \<open>top\<close>
  yields is not specified, so \<open>Pop\<close> may take any of them.
\<close>

section \<open>Commands\<close>

datatype CMDPriority = Low | Med | High | Admin

fun priority_rank :: "CMDPriority \<Rightarrow> nat" where
  "priority_rank Low = 0"
| "priority_rank Med = 1"
| "priority_rank High = 2"
| "priority_rank Admin = 3"

lemma priority_rank_inj [simp]: "priority_rank a = priority_rank b \<longleftrightarrow> a = b"
  by (cases a; cases b) simp_all

instantiation CMDPriority :: linorder
begin

definition less_eq_CMDPriority :: "CMDPriority \<Rightarrow> CMDPriority \<Rightarrow> bool" where
  "less_eq_CMDPriority a b \<longleftrightarrow> priority_rank a \<le> priority_rank b"

definition less_CMDPriority :: "CMDPriority \<Rightarrow> CMDPriority \<Rightarrow> bool" where
  "less_CMDPriority a b \<longleftrightarrow> priority_rank a < priority_rank b"

instance
  by standard (auto simp add: less_eq_CMDPriority_def less_CMDPriority_def)

end

lemma priority_less_simps [simp]:
  "Low < Med" "Low < High" "Low < Admin" "Med < High" "Med < Admin" "High < Admin"
  "\<not> a < Low" "\<not> Admin < a"
proof -
  show "\<not> a < Low" by (simp add: less_CMDPriority_def)
  show "\<not> Admin < a" by (cases a) (simp_all add: less_CMDPriority_def)
qed (simp_all add: less_CMDPriority_def)

lemma Low_least [simp]: "Low \<le> a"
  by (simp add: less_eq_CMDPriority_def)

lemma not_Low_iff: "Low < a \<longleftrightarrow> a \<noteq> Low"
  by (cases a) (simp_all add: less_CMDPriority_def)

text \<open>
  The commands a pool meets: its own \<open>StopCommand\<close> and \<open>SuspendCommand\<close>, and those of its users
  (the mediator's \<^verbatim>\<open>FunctionCommand\<close> is made with the default priority \<open>Med\<close>).
\<close>

datatype 'c command =
    StopCommand
  | SuspendCommand
  | User_command CMDPriority 'c

fun cmd_priority :: "'c command \<Rightarrow> CMDPriority" where
  "cmd_priority StopCommand = Low"
| "cmd_priority SuspendCommand = High"
| "cmd_priority (User_command p c) = p"

definition ICommand_default :: CMDPriority where
  "ICommand_default = Med"

definition FunctionCommand :: "'c \<Rightarrow> 'c command" where
  "FunctionCommand f = User_command ICommand_default f"

definition command_less :: "'c command \<Rightarrow> 'c command \<Rightarrow> bool" where
  "command_less a b \<longleftrightarrow> cmd_priority a < cmd_priority b"

section \<open>WPQ\<close>

definition wpq_Push :: "'c command list \<Rightarrow> 'c command \<Rightarrow> 'c command list" where
  "wpq_Push q element = q @ [element]"

text \<open>The positions \<open>top()\<close> may refer to, and \<open>Pop\<close> at one of them; on an empty queue it waits.\<close>

definition wpq_top :: "'c command list \<Rightarrow> nat \<Rightarrow> bool" where
  "wpq_top q i \<longleftrightarrow> i < length q \<and> (\<forall>x \<in> set q. \<not> command_less (q ! i) x)"

definition wpq_Pop :: "'c command list \<Rightarrow> nat \<Rightarrow> ('c command \<times> 'c command list) option" where
  "wpq_Pop q i = (if wpq_top q i then Some (q ! i, take i q @ drop (Suc i) q) else None)"

definition wpq_Size :: "'c command list \<Rightarrow> size_t" where
  "wpq_Size q = vsize q"

definition wpq_IsEmpty :: "'c command list \<Rightarrow> bool" where
  "wpq_IsEmpty q \<longleftrightarrow> q = []"

section \<open>The contract of a priority queue\<close>

locale priority_queue =
  fixes push :: "'q \<Rightarrow> 'x \<Rightarrow> 'q"
    and pops :: "'q \<Rightarrow> 'x \<Rightarrow> 'q \<Rightarrow> bool"
    and content :: "'q \<Rightarrow> 'x multiset"
    and prio :: "'x \<Rightarrow> 'p::linorder"
  assumes content_push: "content (push q x) = add_mset x (content q)"
    and content_pops: "pops q x q' \<Longrightarrow> content q = add_mset x (content q')"
    and pops_highest: "pops q x q' \<Longrightarrow> y \<in># content q \<Longrightarrow> prio y \<le> prio x"
    and pops_possible: "content q \<noteq> {#} \<Longrightarrow> \<exists>x q'. pops q x q'"
begin

inductive drains :: "'q \<Rightarrow> 'x list \<Rightarrow> bool" where
  drained: "content q = {#} \<Longrightarrow> drains q []"
| drain_one: "pops q x q' \<Longrightarrow> drains q' xs \<Longrightarrow> drains q (x # xs)"

text \<open>A queue that is popped until it is empty yields its content, highest priority first.\<close>

lemma drains_sorted:
  "drains q xs \<Longrightarrow> mset xs = content q \<and> sorted_wrt (\<lambda>a b. prio b \<le> prio a) xs"
proof (induction rule: drains.induct)
  case (drained q)
  then show ?case by simp
next
  case (drain_one q x q' xs)
  have "prio y \<le> prio x" if "y \<in> set xs" for y
    using that drain_one.IH content_pops [OF drain_one.hyps(1)] pops_highest [OF drain_one.hyps(1)]
    by (metis insert_iff set_mset_add_mset_insert set_mset_mset)
  then show ?case
    using drain_one.IH content_pops [OF drain_one.hyps(1)] by simp
qed

lemma drains_exist: "\<exists>xs. drains q xs"
proof (induction "size (content q)" arbitrary: q)
  case 0
  then show ?case using drained by auto
next
  case (Suc n)
  then have "content q \<noteq> {#}" by auto
  then obtain x q' where x: "pops q x q'" using pops_possible by blast
  then have "n = size (content q')" using Suc.hyps(2) content_pops [OF x] by simp
  then show ?case using Suc.hyps(1) drain_one [OF x] by blast
qed

text \<open>An element pushed while others of a higher priority wait is not the next one.\<close>

lemma pop_after_push:
  assumes "pops (push q x) y q'" and "z \<in># content q" and "prio x < prio z"
  shows "y \<noteq> x"
proof
  assume "y = x"
  with pops_highest [OF assms(1), of z] assms(2,3) show False by (simp add: content_push)
qed

end

definition wpq_pops :: "'c command list \<Rightarrow> 'c command \<Rightarrow> 'c command list \<Rightarrow> bool" where
  "wpq_pops q x q' \<longleftrightarrow> (\<exists>i. wpq_Pop q i = Some (x, q'))"

lemma wpq_popsI: "wpq_Pop q i = Some (x, q') \<Longrightarrow> wpq_pops q x q'"
  by (auto simp add: wpq_pops_def)

lemma wpq_popsE: "wpq_pops q x q' \<Longrightarrow> (\<And>i. wpq_Pop q i = Some (x, q') \<Longrightarrow> P) \<Longrightarrow> P"
  by (auto simp add: wpq_pops_def)

lemma wpq_Pop_content: "wpq_Pop q i = Some (x, q') \<Longrightarrow> mset q = add_mset x (mset q')"
proof -
  assume "wpq_Pop q i = Some (x, q')"
  then have i: "i < length q" "x = q ! i" "q' = take i q @ drop (Suc i) q"
    by (auto simp add: wpq_Pop_def wpq_top_def split: if_splits)
  have "mset q = mset (take i q @ q ! i # drop (Suc i) q)"
    using i(1) by (simp add: id_take_nth_drop [symmetric])
  then show ?thesis by (simp add: i(2,3))
qed

lemma wpq_Pop_highest:
  "wpq_Pop q i = Some (x, q') \<Longrightarrow> y \<in> set q \<Longrightarrow> cmd_priority y \<le> cmd_priority x"
  by (force simp add: wpq_Pop_def wpq_top_def command_less_def split: if_splits)

lemma wpq_Pop_possible:
  assumes "q \<noteq> []"
  shows "\<exists>i x q'. wpq_Pop q i = Some (x, q')"
proof -
  let ?m = "Max (cmd_priority ` set q)"
  have "?m \<in> cmd_priority ` set q" using assms by (intro Max_in) simp_all
  then obtain i where i: "i < length q" "cmd_priority (q ! i) = ?m"
    by (auto simp add: in_set_conv_nth)
  have "\<not> ?m < cmd_priority x" if "x \<in> set q" for x
    using that by (simp add: not_less)
  then have "wpq_top q i" using i by (simp add: wpq_top_def command_less_def)
  then show ?thesis by (auto simp add: wpq_Pop_def)
qed

interpretation wpq: priority_queue wpq_Push wpq_pops mset cmd_priority
proof (unfold_locales, goal_cases)
  case (1 q x)
  then show ?case by (simp add: wpq_Push_def)
next
  case (2 q x q')
  then show ?case by (auto simp add: wpq_pops_def dest: wpq_Pop_content)
next
  case (3 q x q' y)
  then show ?case by (auto simp add: wpq_pops_def dest: wpq_Pop_highest)
next
  case (4 q)
  then show ?case using wpq_Pop_possible [of q] by (auto simp add: wpq_pops_def)
qed

section \<open>Properties\<close>

inductive wpq_drains :: "'c command list \<Rightarrow> 'c command list \<Rightarrow> bool" where
  wpq_drained: "wpq_drains [] []"
| wpq_drain: "wpq_Pop q i = Some (x, q') \<Longrightarrow> wpq_drains q' xs \<Longrightarrow> wpq_drains q (x # xs)"

lemma wpq_drains_iff: "wpq_drains q xs \<longleftrightarrow> wpq.drains q xs"
proof
  show "wpq_drains q xs \<Longrightarrow> wpq.drains q xs"
    by (induction rule: wpq_drains.induct)
       (auto intro: wpq.drained wpq.drain_one wpq_popsI)
  show "wpq.drains q xs \<Longrightarrow> wpq_drains q xs"
    by (induction rule: wpq.drains.induct) (auto intro: wpq_drains.intros elim: wpq_popsE)
qed

text \<open>The queue serves by priority: every way of popping a queue until it is empty yields its
  commands, each once, in an order in which no command comes before one of a higher priority,
  and there is such a way; commands of one priority come in no particular order.\<close>

theorem queue_serves_by_priority:
  "(\<forall>xs. wpq_drains q xs \<longrightarrow> mset xs = mset q \<and> sorted_wrt (\<lambda>a b. \<not> command_less a b) xs) \<and>
   (\<exists>xs. wpq_drains q xs)"
proof (intro conjI allI impI)
  fix xs
  assume "wpq_drains q xs"
  then have "mset xs = mset q \<and> sorted_wrt (\<lambda>a b. cmd_priority b \<le> cmd_priority a) xs"
    unfolding wpq_drains_iff by (rule wpq.drains_sorted)
  then show "mset xs = mset q" "sorted_wrt (\<lambda>a b. \<not> command_less a b) xs"
    by (simp_all add: command_less_def not_less)
next
  show "\<exists>xs. wpq_drains q xs" unfolding wpq_drains_iff by (rule wpq.drains_exist)
qed

theorem queue_serves_by_priority_witness:
  "\<exists>xs. wpq_drains [StopCommand, User_command Med (1 :: nat)] xs \<and>
    mset xs = {#StopCommand, User_command Med 1#} \<and> sorted_wrt (\<lambda>a b. \<not> command_less a b) xs"
proof -
  note prio = queue_serves_by_priority [of "[StopCommand, User_command Med (1 :: nat)]"]
  obtain xs where xs: "wpq_drains [StopCommand, User_command Med (1 :: nat)] xs" using prio by blast
  then have "mset xs = mset [StopCommand, User_command Med 1]" "sorted_wrt (\<lambda>a b. \<not> command_less a b) xs"
    using prio by blast+
  then show ?thesis using xs by auto
qed

end
