(* ===== verification/Thread_Pool.thy ===== *)
theory Thread_Pool
  imports Command_Queue
begin

text \<open>
  \<^verbatim>\<open>ThreadPool\<close> (\<^verbatim>\<open>utilities/threading/thread_pool\<close>): workers that take commands from the queue
  and execute them. The client's operations are functions on the pool; what the workers do is
  the step relation \<open>worker_step\<close>, one step per place where another thread may come in
  between: taking a command, executing it, and, for a \<open>SuspendCommand\<close>, looking at the flag and
  falling asleep. \<open>Resume\<close> clears the flag without the mutex the sleeper holds, and then wakes
  whoever is asleep.

  A user's command is executed in one step; an exception it throws is swallowed by the worker.
  \<open>tp_done\<close> lists the commands that were executed.
\<close>

section \<open>State\<close>

datatype 'c worker =
    Idle
  | Busy "'c command"
  | Checked
  | Asleep
  | Exited

record 'c pool =
  tp_command :: "'c command list"
  tp_threads :: "'c worker list"
  tp_suspend_flag :: bool
  tp_done :: "'c command list"

definition InitThreads :: "size_t \<Rightarrow> 'c worker list" where
  "InitThreads n = replicate (unat n) Idle"

definition SetDefNumThreads :: "size_t \<Rightarrow> size_t" where
  "SetDefNumThreads hardware = (if hardware > 0 then hardware else 1)"

definition ThreadPool :: "size_t \<Rightarrow> 'c pool" where
  "ThreadPool ThreadsNum = \<lparr>tp_command = [], tp_threads = InitThreads ThreadsNum,
     tp_suspend_flag = False, tp_done = []\<rparr>"

definition pool_GetSize :: "'c pool \<Rightarrow> size_t" where
  "pool_GetSize p = vsize (tp_threads p)"

section \<open>Operations of the client\<close>

definition pool_AddCommand :: "'c pool \<Rightarrow> 'c command option \<Rightarrow> 'c pool outcome" where
  "pool_AddCommand p cmd =
     (case cmd of
        None \<Rightarrow> Throws (Invalid_argument ''Null command'')
      | Some c \<Rightarrow> Returns (p\<lparr>tp_command := wpq_Push (tp_command p) c\<rparr>))"

text \<open>Pushing one command once per thread.\<close>

fun push_each :: "'c command list \<Rightarrow> 'c command \<Rightarrow> nat \<Rightarrow> 'c command list" where
  "push_each q c 0 = q"
| "push_each q c (Suc n) = push_each (wpq_Push q c) c n"

definition pool_Suspend :: "'c pool \<Rightarrow> 'c pool" where
  "pool_Suspend p = p\<lparr>tp_suspend_flag := True,
     tp_command := push_each (tp_command p) SuspendCommand (length (tp_threads p))\<rparr>"

fun wake :: "'c worker \<Rightarrow> 'c worker" where
  "wake Asleep = Busy SuspendCommand"
| "wake w = w"

definition pool_Resume :: "'c pool \<Rightarrow> 'c pool" where
  "pool_Resume p = p\<lparr>tp_suspend_flag := False, tp_threads := map wake (tp_threads p)\<rparr>"

text \<open>\<open>Stop\<close> up to its joins, and when those are over.\<close>

definition pool_Stop :: "'c pool \<Rightarrow> 'c pool" where
  "pool_Stop p =
     (let p1 = pool_Resume p
      in p1\<lparr>tp_command := push_each (tp_command p1) StopCommand (length (tp_threads p1))\<rparr>)"

definition pool_joined :: "'c pool \<Rightarrow> bool" where
  "pool_joined p \<longleftrightarrow> (\<forall>w \<in> set (tp_threads p). w = Exited)"

text \<open>\<open>SetSize\<close> up to its call of \<open>Stop\<close>, and after it.\<close>

definition pool_SetSize :: "'c pool \<Rightarrow> size_t \<Rightarrow> 'c pool outcome" where
  "pool_SetSize p newSize =
     (if newSize = 0 then Throws (Length_error ''Size cannot be 0'') else Returns (pool_Stop p))"

definition pool_resized :: "'c pool \<Rightarrow> size_t \<Rightarrow> 'c pool" where
  "pool_resized p newSize = p\<lparr>tp_threads := InitThreads newSize\<rparr>"

definition pool_ForceStop :: "'c pool \<Rightarrow> unit outcome" where
  "pool_ForceStop p = Dies"

section \<open>What the workers do\<close>

text \<open>\<open>Execute\<close> of a command, by the worker \<open>w\<close> that runs it.\<close>

fun command_Execute :: "bool \<Rightarrow> 'c command \<Rightarrow> 'c worker \<times> 'c command list" where
  "command_Execute suspend_flag StopCommand = (Exited, [])"
| "command_Execute suspend_flag SuspendCommand = (if suspend_flag then Checked else Idle, [])"
| "command_Execute suspend_flag (User_command p c) = (Idle, [User_command p c])"

inductive worker_step :: "'c pool \<Rightarrow> 'c pool \<Rightarrow> bool" where
  takes: "k < length (tp_threads p) \<Longrightarrow> tp_threads p ! k = Idle \<Longrightarrow>
     wpq_Pop (tp_command p) i = Some (c, q) \<Longrightarrow>
     worker_step p (p\<lparr>tp_command := q, tp_threads := (tp_threads p)[k := Busy c]\<rparr>)"
| executes: "k < length (tp_threads p) \<Longrightarrow> tp_threads p ! k = Busy c \<Longrightarrow>
     command_Execute (tp_suspend_flag p) c = (w, executed) \<Longrightarrow>
     worker_step p (p\<lparr>tp_threads := (tp_threads p)[k := w], tp_done := tp_done p @ executed\<rparr>)"
| sleeps: "k < length (tp_threads p) \<Longrightarrow> tp_threads p ! k = Checked \<Longrightarrow>
     worker_step p (p\<lparr>tp_threads := (tp_threads p)[k := Asleep]\<rparr>)"

inductive_cases worker_stepE: "worker_step p p'"

section \<open>Bookkeeping\<close>

lemma mset_push_each: "mset (push_each q c n) = mset q + replicate_mset n c"
  by (induction n arbitrary: q) (simp_all add: wpq_Push_def)

fun busy_with :: "'c worker \<Rightarrow> 'c command multiset" where
  "busy_with (Busy c) = {#c#}"
| "busy_with w = {#}"

text \<open>The commands waiting or being executed, and those that were, with a priority above \<open>Low\<close>.\<close>

definition in_hand :: "'c pool \<Rightarrow> 'c command multiset" where
  "in_hand p = mset (tp_command p) + \<Sum>\<^sub># (image_mset busy_with (mset (tp_threads p)))"

fun urgent :: "'c command \<Rightarrow> bool" where
  "urgent (User_command p c) \<longleftrightarrow> p \<noteq> Low"
| "urgent _ \<longleftrightarrow> False"

definition urgent_work :: "'c pool \<Rightarrow> 'c command multiset" where
  "urgent_work p = filter_mset urgent (in_hand p + mset (tp_done p))"

lemma mset_update_worker:
  "k < length ts \<Longrightarrow> mset (ts[k := w]) = add_mset w (mset ts - {#ts ! k#})"
  by (rule mset_update)

lemma busy_sum_update:
  assumes "k < length ts"
  shows "\<Sum>\<^sub># (image_mset busy_with (mset (ts[k := w]))) + busy_with (ts ! k) =
    \<Sum>\<^sub># (image_mset busy_with (mset ts)) + busy_with w"
proof -
  obtain rest where "mset ts = add_mset (ts ! k) rest"
    using assms by (metis nth_mem_mset insert_DiffM)
  then show ?thesis by (simp add: mset_update_worker [OF assms] ac_simps)
qed

lemma in_hand_takes:
  assumes "k < length (tp_threads p)" and "tp_threads p ! k = Idle"
    and "wpq_Pop (tp_command p) i = Some (c, q)"
  shows "in_hand (p\<lparr>tp_command := q, tp_threads := (tp_threads p)[k := Busy c]\<rparr>) = in_hand p"
  using busy_sum_update [OF assms(1), of "Busy c"] assms(2) wpq_Pop_content [OF assms(3)]
  by (simp add: in_hand_def)

lemma in_hand_executes:
  assumes "k < length (tp_threads p)" and "tp_threads p ! k = Busy c" and "busy_with w = {#}"
  shows "add_mset c (in_hand (p\<lparr>tp_threads := (tp_threads p)[k := w], tp_done := d\<rparr>)) = in_hand p"
  using busy_sum_update [OF assms(1), of w] assms(2,3) by (simp add: in_hand_def)

text \<open>No urgent command is lost on the way from the queue to \<open>tp_done\<close>.\<close>

lemma urgent_work_step:
  assumes "worker_step p p'"
  shows "urgent_work p' = urgent_work p"
  using assms
proof cases
  case (takes k i c q)
  then show ?thesis using in_hand_takes [OF takes(2-4)] by (simp add: urgent_work_def)
next
  case (executes k c w executed)
  have w: "busy_with w = {#}" "filter_mset urgent (mset executed) = filter_mset urgent {#c#}"
    using executes(4) by (cases c; auto split: if_splits)+
  have "filter_mset urgent (in_hand p) =
      filter_mset urgent {#c#} + filter_mset urgent (in_hand p')"
    using in_hand_executes [OF executes(2,3) w(1), of "tp_done p @ executed"] executes(1)
    by (metis filter_union_mset add_mset_add_single union_commute)
  then show ?thesis using w(2) executes(1) by (simp add: urgent_work_def)
next
  case (sleeps k)
  then have "in_hand p' = in_hand p"
    using busy_sum_update [OF sleeps(2), of Asleep] by (simp add: in_hand_def)
  then show ?thesis using sleeps(1) by (simp add: urgent_work_def)
qed

section \<open>Stopping\<close>

text \<open>A worker is only sent home when nothing above \<open>Low\<close> waits.\<close>

definition leaving :: "'c worker \<Rightarrow> bool" where
  "leaving w \<longleftrightarrow> w = Exited \<or> w = Busy StopCommand"

definition stops_last :: "'c pool \<Rightarrow> bool" where
  "stops_last p \<longleftrightarrow>
     (\<exists>w \<in> set (tp_threads p). leaving w) \<longrightarrow> (\<forall>c \<in> set (tp_command p). cmd_priority c = Low)"

lemma in_set_update: "w \<in> set (ts[k := x]) \<Longrightarrow> w = x \<or> w \<in> set ts"
  using set_update_subset_insert [of ts k x] by auto

lemma stops_last_step:
  assumes "worker_step p p'" and "stops_last p"
  shows "stops_last p'"
  using assms(1)
proof cases
  case (takes k i c q)
  have sub: "set q \<subseteq> set (tp_command p)"
    using wpq_Pop_content [OF takes(4)] by (metis insert_subset order_refl set_mset_add_mset_insert set_mset_mset)
  have low: "cmd_priority x = Low" if "c = StopCommand" "x \<in> set (tp_command p)" for x
    using wpq_Pop_highest [OF takes(4) that(2)] that(1) by (metis Low_least antisym cmd_priority.simps(1))
  show ?thesis
    using assms(2) sub low takes(1)
    by (auto simp add: stops_last_def leaving_def dest!: in_set_update)
next
  case (executes k c w executed)
  have "leaving w \<Longrightarrow> leaving (Busy c)"
    using executes(4) by (cases c) (auto simp add: leaving_def split: if_splits)
  moreover have "Busy c \<in> set (tp_threads p)" using executes(2,3) by (metis nth_mem)
  ultimately show ?thesis
    using assms(2) executes(1) by (auto simp add: stops_last_def dest!: in_set_update)
next
  case (sleeps k)
  then show ?thesis
    using assms(2) by (auto simp add: stops_last_def leaving_def dest!: in_set_update)
qed

lemma steps_keep:
  assumes "worker_step\<^sup>*\<^sup>* p p'" and "J p" and "\<And>a b. worker_step a b \<Longrightarrow> J a \<Longrightarrow> J b"
  shows "J p'"
  using assms(1) by (induction rule: rtranclp_induct) (use assms(2,3) in auto)

lemma urgent_low: "cmd_priority c = Low \<Longrightarrow> \<not> urgent c"
  by (cases c) simp_all

lemma joined_no_busy: "pool_joined p \<Longrightarrow> \<Sum>\<^sub># (image_mset busy_with (mset (tp_threads p))) = {#}"
proof -
  assume "pool_joined p"
  then have "\<forall>w \<in># mset (tp_threads p). busy_with w = {#}" by (auto simp add: pool_joined_def)
  then have "image_mset busy_with (mset (tp_threads p)) = image_mset (\<lambda>_. {#}) (mset (tp_threads p))"
    by (intro image_mset_cong) simp
  then show ?thesis by (simp add: image_mset_const_eq)
qed

lemma urgent_wake: "filter_mset urgent (busy_with (wake w)) = filter_mset urgent (busy_with w)"
  by (cases w) simp_all

lemma filter_sum: "filter_mset P (\<Sum>\<^sub># (image_mset f M)) = \<Sum>\<^sub># (image_mset (\<lambda>x. filter_mset P (f x)) M)"
  by (induction M) simp_all

lemma urgent_work_Stop: "urgent_work (pool_Stop p) = urgent_work p"
proof -
  have "filter_mset urgent (\<Sum>\<^sub># (image_mset busy_with (mset (map wake (tp_threads p))))) =
      filter_mset urgent (\<Sum>\<^sub># (image_mset busy_with (mset (tp_threads p))))"
    by (simp add: filter_sum image_mset.compositionality comp_def urgent_wake)
  moreover have "filter_mset urgent (replicate_mset n StopCommand) = {#}" for n
    by (simp add: filter_mset_eq_conv)
  ultimately show ?thesis
    by (simp add: urgent_work_def in_hand_def pool_Stop_def pool_Resume_def mset_push_each Let_def)
qed


section \<open>Runs end\<close>

fun worker_work :: "'c worker \<Rightarrow> nat" where
  "worker_work (Busy c) = 2"
| "worker_work Checked = 1"
| "worker_work w = 0"

text \<open>What is left to do: three for a queued command, two for a running one, one for falling asleep.\<close>

definition pool_work :: "'c pool \<Rightarrow> nat" where
  "pool_work p = 3 * length (tp_command p) + sum_list (map worker_work (tp_threads p))"

lemma sum_list_update_nat:
  "k < length ts \<Longrightarrow> sum_list (map f (ts[k := w])) + f (ts ! k) = sum_list (map f ts) + (f w :: nat)"
proof (induction ts arbitrary: k)
  case (Cons t ts)
  then show ?case by (cases k) auto
qed simp

lemma pool_work_decreases:
  assumes "worker_step p p'"
  shows "pool_work p' < pool_work p"
  using assms
proof cases
  case (takes k i c q)
  have "length (tp_command p) = Suc (length q)"
    using arg_cong [OF wpq_Pop_content [OF takes(4)], of size] by simp
  then show ?thesis
    using sum_list_update_nat [OF takes(2), of worker_work "Busy c"] takes(1,3) by (simp add: pool_work_def)
next
  case (executes k c w executed)
  have "worker_work w < 2" using executes(4) by (cases c) (auto split: if_splits)
  then show ?thesis
    using sum_list_update_nat [OF executes(2), of worker_work w] executes(1,3) by (simp add: pool_work_def)
next
  case (sleeps k)
  then show ?thesis
    using sum_list_update_nat [OF sleeps(2), of worker_work Asleep] by (simp add: pool_work_def)
qed

text \<open>Enough stop commands for everyone who is still there, and nobody asleep or about to be.\<close>

definition staying :: "'c pool \<Rightarrow> nat" where
  "staying p = sum_list (map (\<lambda>w. if w = Exited then 0 else 1) (tp_threads p))"

definition going_down :: "'c pool \<Rightarrow> bool" where
  "going_down p \<longleftrightarrow> \<not> tp_suspend_flag p \<and> Checked \<notin> set (tp_threads p) \<and> Asleep \<notin> set (tp_threads p) \<and>
     staying p \<le> count (in_hand p) StopCommand"

lemma going_down_step:
  assumes "worker_step p p'" and "going_down p"
  shows "going_down p'"
  using assms(1)
proof cases
  case (takes k i c q)
  have "staying p' = staying p"
    using sum_list_update_nat [OF takes(2), of "\<lambda>w. if w = Exited then 0 else 1" "Busy c"] takes(1,3)
    by (simp add: staying_def)
  then show ?thesis
    using assms(2) in_hand_takes [OF takes(2-4)] takes(1)
    by (auto simp add: going_down_def dest!: in_set_update)
next
  case (executes k c w executed)
  have w: "busy_with w = {#}" "w \<noteq> Checked" "w \<noteq> Asleep" "w = Exited \<longleftrightarrow> c = StopCommand"
    using executes(4) assms(2) by (cases c; auto simp add: going_down_def)+
  have "staying p' + 1 = staying p + (if w = Exited then 0 else 1)"
    using sum_list_update_nat [OF executes(2), of "\<lambda>w. if w = Exited then 0 else 1" w] executes(1,3)
    by (simp add: staying_def)
  moreover have "count (in_hand p) StopCommand = count (in_hand p') StopCommand + (if c = StopCommand then 1 else 0)"
  proof -
    have "in_hand p = add_mset c (in_hand p')"
      using in_hand_executes [OF executes(2,3) w(1), of "tp_done p @ executed"] executes(1) by simp
    then show ?thesis by simp
  qed
  ultimately show ?thesis
    using assms(2) w executes(1) by (auto simp add: going_down_def dest!: in_set_update split: if_splits)
next
  case (sleeps k)
  have "Checked \<in> set (tp_threads p)" using sleeps(2,3) by (metis nth_mem)
  then show ?thesis using assms(2) by (simp add: going_down_def)
qed

lemma staying_pos:
  assumes "\<not> pool_joined p"
  shows "0 < staying p"
proof -
  let ?f = "\<lambda>w. if w = Exited then 0 else 1 :: nat"
  obtain w where "w \<in> set (tp_threads p)" "w \<noteq> Exited" using assms by (auto simp add: pool_joined_def)
  then have "?f w \<le> sum_list (map ?f (tp_threads p))" by (intro member_le_sum_list) (auto simp del: if_split)
  with \<open>w \<noteq> Exited\<close> show ?thesis by (simp add: staying_def)
qed

lemma going_down_progress:
  assumes "going_down p" and "\<not> pool_joined p"
  shows "\<exists>p'. worker_step p p'"
proof -
  obtain k where k: "k < length (tp_threads p)" "tp_threads p ! k \<noteq> Exited"
    using assms(2) by (auto simp add: pool_joined_def in_set_conv_nth)
  show ?thesis
  proof (cases "\<exists>j c. j < length (tp_threads p) \<and> tp_threads p ! j = Busy c")
    case True
    then obtain j c where "j < length (tp_threads p)" "tp_threads p ! j = Busy c" by blast
    then show ?thesis using executes [of j p c] by (metis prod.collapse)
  next
    case False
    then have "\<forall>w \<in># mset (tp_threads p). busy_with w = {#}"
      by (metis busy_with.elims in_set_conv_nth set_mset_mset)
    then have "image_mset busy_with (mset (tp_threads p)) = image_mset (\<lambda>_. {#}) (mset (tp_threads p))"
      by (intro image_mset_cong) simp
    then have "in_hand p = mset (tp_command p)" by (simp add: in_hand_def image_mset_const_eq)
    moreover have "0 < count (in_hand p) StopCommand"
      using staying_pos [OF assms(2)] assms(1) unfolding going_down_def by linarith
    ultimately have "tp_command p \<noteq> []" by auto
    then obtain i c q where "wpq_Pop (tp_command p) i = Some (c, q)" using wpq_Pop_possible by blast
    moreover have "tp_threads p ! k = Idle"
      using k False assms(1) by (cases "tp_threads p ! k") (auto simp add: going_down_def dest: nth_mem)
    ultimately show ?thesis using takes [OF k(1)] by blast
  qed
qed

lemma stop_goes_down:
  assumes "Checked \<notin> set (tp_threads p)"
  shows "going_down (pool_Stop p)"
proof -
  have threads: "tp_threads (pool_Stop p) = map wake (tp_threads p)"
    by (simp add: pool_Stop_def pool_Resume_def Let_def)
  have awake: "Asleep = wake w \<longleftrightarrow> False" "Checked = wake w \<longleftrightarrow> w = Checked" for w :: "'a worker"
    by (cases w; simp)+
  have "Checked \<notin> set (map wake (tp_threads p))" "Asleep \<notin> set (map wake (tp_threads p))"
    using assms by (auto simp add: awake image_iff)
  moreover have "staying (pool_Stop p) \<le> length (tp_threads p)"
  proof -
    have "sum_list (map (\<lambda>w. if w = Exited then 0 else 1) ts) \<le> length ts" for ts :: "'a worker list"
      by (induction ts) simp_all
    from this [of "map wake (tp_threads p)"] show ?thesis by (simp add: staying_def threads)
  qed
  moreover have "length (tp_threads p) \<le> count (in_hand (pool_Stop p)) StopCommand"
    by (simp add: in_hand_def pool_Stop_def pool_Resume_def mset_push_each Let_def)
  ultimately show ?thesis
    by (simp add: going_down_def threads) (simp add: pool_Stop_def pool_Resume_def Let_def)
qed


lemma runs_to_the_end: "going_down p \<Longrightarrow> \<exists>p'. worker_step\<^sup>*\<^sup>* p p' \<and> pool_joined p'"
proof (induction "pool_work p" arbitrary: p rule: less_induct)
  case less
  show ?case
  proof (cases "pool_joined p")
    case True
    then show ?thesis by blast
  next
    case False
    then obtain p1 where p1: "worker_step p p1" using going_down_progress [OF less.prems] by blast
    then obtain p' where "worker_step\<^sup>*\<^sup>* p1 p'" "pool_joined p'"
      using less.hyps [OF pool_work_decreases [OF p1]] going_down_step [OF p1 less.prems] by blast
    then show ?thesis using p1 by (blast intro: converse_rtranclp_into_rtranclp)
  qed
qed

definition demo_pool :: "nat pool" where
  "demo_pool = \<lparr>tp_command = [FunctionCommand 7], tp_threads = [Idle, Idle], tp_suspend_flag = False,
     tp_done = []\<rparr>"



section \<open>Where it goes wrong\<close>

lemma asleep_stays: "worker_step p p' \<Longrightarrow> k < length (tp_threads p) \<and> tp_threads p ! k = Asleep \<Longrightarrow>
    k < length (tp_threads p') \<and> tp_threads p' ! k = Asleep"
  by (auto elim!: worker_stepE simp add: nth_list_update)



text \<open>A pool that was stopped cannot be used again through \<open>SetSize\<close>: its call of \<open>Stop\<close> queues
  one stop command per old thread, which nobody is left to take; the new threads, if there are
  no more of them, take those and are all gone in the end.\<close>

theorem pool_resize_after_stop:
  assumes "pool_joined p" and "newSize \<noteq> 0" and "unat newSize \<le> length (tp_threads p)"
    and "worker_step\<^sup>*\<^sup>* (pool_resized (pool_Stop p) newSize) p'"
  shows "pool_SetSize p newSize = Returns (pool_Stop p) \<and> pool_joined (pool_Stop p) \<and>
    (pool_joined p' \<or> (\<exists>p''. worker_step p' p'')) \<and>
    (\<forall>p''. worker_step p' p'' \<longrightarrow> pool_work p'' < pool_work p')"
proof -
  have "map wake (tp_threads p) = tp_threads p"
    using assms(1) by (intro map_idI) (auto simp add: pool_joined_def)
  then have s: "tp_threads (pool_Stop p) = tp_threads p"
    by (simp add: pool_Stop_def pool_Resume_def Let_def)
  have "staying (pool_resized (pool_Stop p) newSize) = unat newSize"
    by (simp add: staying_def pool_resized_def InitThreads_def sum_list_replicate)
  moreover have "length (tp_threads p) \<le> count (in_hand (pool_resized (pool_Stop p) newSize)) StopCommand"
    by (simp add: in_hand_def pool_resized_def pool_Stop_def pool_Resume_def mset_push_each Let_def)
  ultimately have "going_down (pool_resized (pool_Stop p) newSize)"
    using assms(3) by (simp add: going_down_def)
      (simp add: pool_resized_def InitThreads_def pool_Stop_def pool_Resume_def Let_def)
  then have "going_down p'"
    by (rule steps_keep [where J = going_down, OF assms(4)]) (rule going_down_step)
  then show ?thesis
    using going_down_progress pool_work_decreases assms(1,2) s
    by (auto simp add: pool_SetSize_def pool_joined_def)
qed

theorem pool_resize_after_stop_witness:
  "pool_SetSize (demo_pool\<lparr>tp_command := [], tp_threads := [Exited]\<rparr>) 1 =
    Returns (pool_Stop (demo_pool\<lparr>tp_command := [], tp_threads := [Exited]\<rparr>))"
  using pool_resize_after_stop [of "demo_pool\<lparr>tp_command := [], tp_threads := [Exited]\<rparr>" 1
      "pool_resized (pool_Stop (demo_pool\<lparr>tp_command := [], tp_threads := [Exited]\<rparr>)) 1"]
  by (simp add: pool_joined_def)

end
