(* ===== verification/Reactor.thy ===== *)
theory Reactor
  imports Ordered_Map
begin

text \<open>
  \<^verbatim>\<open>Reactor\<close> (\<^verbatim>\<open>design_patterns/reactor\<close>): an epoll instance with the descriptors registered in it,
  a signal descriptor, and the loop that hands ready descriptors to the handler. What
  \<^verbatim>\<open>epoll_wait\<close> reports is data of the model: a list of its answers, after which it waits.
\<close>

section \<open>State and construction\<close>

record reactor =
  rx_epoll_fd :: int
  rx_signal_fd :: int
  rx_watched :: "(int, unit) omap"

record reactor_answers =
  ra_epoll_fd :: int
  ra_sigprocmask_ok :: bool
  ra_signal_fd :: int
  ra_epoll_ctl_ok :: bool

definition Reactor_SetupSignals :: "reactor_answers \<Rightarrow> reactor \<Rightarrow> reactor outcome" where
  "Reactor_SetupSignals ra r =
     (if \<not> ra_sigprocmask_ok ra then Throws (Reactor_error ''Failed to block signals'')
      else if ra_signal_fd ra = -1 then Throws (Reactor_error ''Failed to create signalfd'')
      else if \<not> ra_epoll_ctl_ok ra then Throws (Reactor_error ''Failed to add signal_fd to epoll'')
      else Returns (r\<lparr>rx_signal_fd := ra_signal_fd ra,
                      rx_watched := map_put (ra_signal_fd ra) () (rx_watched r)\<rparr>))"

definition Reactor :: "reactor_answers \<Rightarrow> reactor outcome" where
  "Reactor ra =
     (if ra_epoll_fd ra = -1 then Throws (Reactor_error ''Failed to create epoll'')
      else Reactor_SetupSignals ra
             \<lparr>rx_epoll_fd = ra_epoll_fd ra, rx_signal_fd = -1, rx_watched = []\<rparr>)"

definition Reactor_destroy :: "reactor \<Rightarrow> reactor" where
  "Reactor_destroy r =
     (let r1 = (if rx_signal_fd r \<noteq> -1 then r\<lparr>rx_watched := map_erase (rx_signal_fd r) (rx_watched r)\<rparr> else r)
      in if rx_epoll_fd r1 \<noteq> -1 then r1\<lparr>rx_watched := []\<rparr> else r1)"

section \<open>Registration\<close>

text \<open>
  \<^verbatim>\<open>epoll_ctl\<close> refuses a descriptor that is registered already, and one that is not open
  (\<open>is_open\<close> is the kernel's table); deleting refuses one that is not registered.
\<close>

definition Reactor_Add :: "(int \<Rightarrow> bool) \<Rightarrow> reactor \<Rightarrow> int \<Rightarrow> reactor \<times> unit outcome" where
  "Reactor_Add is_open r fd =
     (if fd \<in> map_keys (rx_watched r) \<or> \<not> is_open fd
      then (r, Throws (Reactor_error ''Failed to add fd to epoll''))
      else (r\<lparr>rx_watched := map_put fd () (rx_watched r)\<rparr>, Returns ()))"

definition Reactor_Remove :: "reactor \<Rightarrow> int \<Rightarrow> reactor \<times> unit outcome" where
  "Reactor_Remove r fd =
     (if fd \<notin> map_keys (rx_watched r)
      then (r, Throws (Reactor_error ''Failed to remove fd from epoll''))
      else (r\<lparr>rx_watched := map_erase fd (rx_watched r)\<rparr>, Returns ()))"

section \<open>The loop\<close>

datatype wait_answer = Events "int list" | Interrupted | Wait_failed

text \<open>The ready descriptors of one answer; the result says whether the signal was among them.\<close>

fun reactor_events ::
  "int \<Rightarrow> ('s \<Rightarrow> int \<Rightarrow> 's \<times> unit outcome) \<Rightarrow> 's \<Rightarrow> int list \<Rightarrow> 's \<times> bool outcome" where
  "reactor_events signal_fd h s [] = (s, Returns False)"
| "reactor_events signal_fd h s (fd # fds) =
     (if fd = signal_fd then (s, Returns True)
      else sbind (h s fd) (\<lambda>s1 _. reactor_events signal_fd h s1 fds))"

fun reactor_loop ::
  "int \<Rightarrow> ('s \<Rightarrow> int \<Rightarrow> 's \<times> unit outcome) \<Rightarrow> 's \<Rightarrow> wait_answer list \<Rightarrow> 's \<times> unit outcome" where
  "reactor_loop signal_fd h s [] = (s, Blocks)"
| "reactor_loop signal_fd h s (Interrupted # ws) = reactor_loop signal_fd h s ws"
| "reactor_loop signal_fd h s (Wait_failed # ws) = (s, Throws (Reactor_error ''epoll_wait failed''))"
| "reactor_loop signal_fd h s (Events fds # ws) =
     sbind (reactor_events signal_fd h s fds) (\<lambda>s1 stop.
       if stop then (s1, Returns ()) else reactor_loop signal_fd h s1 ws)"

text \<open>\<open>SetHandler\<close> stores the handler; \<open>None\<close> is the empty \<^verbatim>\<open>std::function\<close>.\<close>

definition Reactor_Run ::
  "int \<Rightarrow> ('s \<Rightarrow> int \<Rightarrow> 's \<times> unit outcome) option \<Rightarrow> 's \<Rightarrow> wait_answer list \<Rightarrow> 's \<times> unit outcome" where
  "Reactor_Run signal_fd handler s ws =
     (case handler of
        None \<Rightarrow> (s, Throws (Reactor_error ''No handler set. Call SetHandler() first''))
      | Some h \<Rightarrow> reactor_loop signal_fd h s ws)"

section \<open>What the loop serves\<close>

fun answer_events :: "wait_answer \<Rightarrow> int list" where
  "answer_events (Events fds) = fds"
| "answer_events _ = []"

lemma reactor_events_serve:
  assumes "\<And>s fd. h s fd = (g s fd, Returns ())"
  shows "reactor_events sig h s fds =
    (foldl g s (takeWhile (\<lambda>fd. fd \<noteq> sig) fds), Returns (sig \<in> set fds))"
  using assms by (induction fds arbitrary: s) auto

lemma reactor_loop_serve:
  assumes "\<And>s fd. h s fd = (g s fd, Returns ())" and "Wait_failed \<notin> set ws"
  shows "reactor_loop sig h s ws =
    (foldl g s (takeWhile (\<lambda>fd. fd \<noteq> sig) (concat (map answer_events ws))),
     if sig \<in> set (concat (map answer_events ws)) then Returns () else Blocks)"
  using assms(2)
proof (induction ws arbitrary: s)
  case Nil
  then show ?case by simp
next
  case (Cons w ws)
  show ?case
  proof (cases w)
    case (Events fds)
    note run = reactor_events_serve [where g = g and h = h, OF assms(1), where sig = sig and s = s and fds = fds]
    show ?thesis
    proof (cases "sig \<in> set fds")
      case True
      then show ?thesis using Events run by (auto simp add: takeWhile_append)
    next
      case False
      then have all: "\<forall>fd \<in> set fds. fd \<noteq> sig" by auto
      then have "reactor_events sig h s fds = (foldl g s fds, Returns False)"
        using run False takeWhile_eq_all_conv [THEN iffD2, OF all] by (simp only: if_False simp_thms)
      then show ?thesis using Cons Events all False by (auto simp add: takeWhile_append)
    qed
  qed (use Cons in simp_all)
qed

text \<open>An exception of the handler leaves \<open>Run\<close>.\<close>

lemma reactor_loop_throws:
  assumes "h s fd = (s', Throws e)" and "fd \<noteq> sig"
  shows "reactor_loop sig h s (Events (fd # fds) # ws) = (s', Throws e)"
  using assms by simp

section \<open>Properties\<close>

text \<open>With a handler that returns, \<open>Run\<close> hands over exactly the descriptors reported before the
  first signal, each once and in the order of the reports, whatever interrupts come between;
  on the signal it returns and drops what was reported after it, and without one it waits.\<close>

theorem reactor_serves_until_signal:
  assumes "\<And>s fd. h s fd = (g s fd, Returns ())" and "Wait_failed \<notin> set ws"
  shows "Reactor_Run sig (Some h) s ws =
    (foldl g s (takeWhile (\<lambda>fd. fd \<noteq> sig) (concat (map answer_events ws))),
     if sig \<in> set (concat (map answer_events ws)) then Returns () else Blocks)"
  using reactor_loop_serve [OF assms] by (simp add: Reactor_Run_def)

theorem reactor_serves_until_signal_witness:
  "Reactor_Run 9 (Some (\<lambda>s fd. (s @ [fd], Returns ()))) [] [Events [4, 5], Interrupted, Events [4, 9, 7]] =
    ([4, 5, 4], Returns ())"
  using reactor_serves_until_signal [of "\<lambda>s fd. (s @ [fd], Returns ())" "\<lambda>s fd. s @ [fd]"
      "[Events [4, 5], Interrupted, Events [4, 9, 7]]" 9 "[]"]
  by simp

end
