(* ===== verification/Input_Mediator.thy ===== *)
theory Input_Mediator
  imports Local_Storage Tcp_State Nbd_Protocol Thread_Pool Reactor
begin

text \<open>
  \<^verbatim>\<open>InputMediator\<close> (\<^verbatim>\<open>services/mediator\<close>): what is done with a ready descriptor, and what the
  workers of the pool do with the requests it queued. The mediator holds four pointers; its
  state here is what they point to.

  A handler runs in one step and its driver and storage are the ones it finds when it runs.
\<close>

section \<open>IDriverComm: dynamic dispatch\<close>

datatype driver = TCP_driver tcp_driver | NBD_driver nbd_driver

fun Driver_ReceiveRequest :: "driver \<Rightarrow> int \<Rightarrow> driver \<times> DriverData outcome" where
  "Driver_ReceiveRequest (TCP_driver d) fd = map_prod TCP_driver id (TCP_ReceiveRequest d fd)"
| "Driver_ReceiveRequest (NBD_driver d) fd = map_prod NBD_driver id (NBD_ReceiveRequest d fd)"

fun Driver_SendReply :: "driver \<Rightarrow> DriverData \<Rightarrow> driver \<times> unit outcome" where
  "Driver_SendReply (TCP_driver d) q = map_prod TCP_driver id (TCP_SendReply d q)"
| "Driver_SendReply (NBD_driver d) q = map_prod NBD_driver id (NBD_SendReply d q)"

fun Driver_GetFD :: "driver \<Rightarrow> int" where
  "Driver_GetFD (TCP_driver d) = TCP_GetFD d"
| "Driver_GetFD (NBD_driver d) = NBD_GetFD d"

fun Driver_RemoveClientFD :: "driver \<Rightarrow> int \<Rightarrow> driver" where
  "Driver_RemoveClientFD (TCP_driver d) fd = TCP_driver (TCP_RemoveClientFD d fd)"
| "Driver_RemoveClientFD (NBD_driver d) fd = NBD_driver (NBD_RemoveClientFD d fd)"

fun Driver_TryAccept :: "driver \<Rightarrow> accept_answer \<Rightarrow> int \<Rightarrow> driver \<times> int" where
  "Driver_TryAccept (TCP_driver d) ans fd = map_prod TCP_driver id (TCP_TryAccept d ans fd)"
| "Driver_TryAccept (NBD_driver d) ans fd = map_prod NBD_driver id (NBD_TryAccept d fd)"

text \<open>The descriptors open in the process, as far as the driver has to do with them.\<close>

fun driver_open :: "driver \<Rightarrow> int \<Rightarrow> bool" where
  "driver_open (TCP_driver d) fd \<longleftrightarrow> td_sockets d fd \<noteq> None"
| "driver_open (NBD_driver d) fd \<longleftrightarrow> fd = nd_serverFd d \<and> fd \<noteq> -1"

section \<open>State\<close>

record server =
  sv_driver :: driver
  sv_storage :: storage
  sv_pool :: "DriverData pool"
  sv_reactor :: reactor

section \<open>The handlers\<close>

definition mediator_reply :: "server \<Rightarrow> DriverData \<Rightarrow> server \<times> unit outcome" where
  "mediator_reply sv q =
     (case Driver_SendReply (sv_driver sv) q of (d, oc) \<Rightarrow> (sv\<lparr>sv_driver := d\<rparr>, oc))"

definition handle_READ :: "server \<Rightarrow> DriverData \<Rightarrow> server \<times> unit outcome" where
  "handle_READ sv request =
     sbind (sv, Storage_Read (sv_storage sv) request) (\<lambda>sv request. mediator_reply sv request)"

definition handle_WRITE :: "server \<Rightarrow> DriverData \<Rightarrow> server \<times> unit outcome" where
  "handle_WRITE sv request =
     sbind (sv, Storage_Write (sv_storage sv) request) (\<lambda>sv (st, request).
       mediator_reply (sv\<lparr>sv_storage := st\<rparr>) request)"

definition handle_FLUSH :: "server \<Rightarrow> DriverData \<Rightarrow> server \<times> unit outcome" where
  "handle_FLUSH sv request = mediator_reply sv (request\<lparr>m_status := SUCCESS\<rparr>)"

definition handle_TRIM :: "server \<Rightarrow> DriverData \<Rightarrow> server \<times> unit outcome" where
  "handle_TRIM sv request = mediator_reply sv (request\<lparr>m_status := SUCCESS\<rparr>)"

definition handle_DISCONNECT :: "server \<Rightarrow> DriverData \<Rightarrow> server \<times> unit outcome" where
  "handle_DISCONNECT sv request = (sv, Returns ())"

definition handle_GET_SIZE :: "server \<Rightarrow> DriverData \<Rightarrow> server \<times> unit outcome" where
  "handle_GET_SIZE sv request =
     mediator_reply sv (request\<lparr>m_len := Storage_GetDataSize (sv_storage sv) (m_offset request),
                                m_status := SUCCESS\<rparr>)"

fun push_offsets :: "vec \<Rightarrow> (size_t \<times> size_t) list \<Rightarrow> vec" where
  "push_offsets buffer [] = buffer"
| "push_offsets buffer ((offset, n) # offsets) =
     push_offsets (buffer @ be_bytes 8 offset @ be_bytes 8 n) offsets"

definition handle_LIST_OFFSETS :: "server \<Rightarrow> DriverData \<Rightarrow> server \<times> unit outcome" where
  "handle_LIST_OFFSETS sv request =
     (let buffer = push_offsets [] (Storage_ListOffsets (sv_storage sv))
      in mediator_reply sv (request\<lparr>m_buffer := buffer, m_len := vsize buffer, m_status := SUCCESS\<rparr>))"

fun SetupHandlers :: "ActionType \<Rightarrow> (server \<Rightarrow> DriverData \<Rightarrow> server \<times> unit outcome) option" where
  "SetupHandlers READ = Some handle_READ"
| "SetupHandlers WRITE = Some handle_WRITE"
| "SetupHandlers FLUSH = Some handle_FLUSH"
| "SetupHandlers TRIM = Some handle_TRIM"
| "SetupHandlers DISCONNECT = Some handle_DISCONNECT"
| "SetupHandlers GET_SIZE = Some handle_GET_SIZE"
| "SetupHandlers LIST_OFFSETS = Some handle_LIST_OFFSETS"
| "SetupHandlers (Other_action w) = None"

text \<open>The function a \<^verbatim>\<open>FunctionCommand\<close> of the mediator holds: \<^verbatim>\<open>m_handlers.at(request->m_type)(request)\<close>.\<close>

definition mediator_Execute :: "server \<Rightarrow> DriverData \<Rightarrow> server \<times> unit outcome" where
  "mediator_Execute sv request =
     (case SetupHandlers (m_type request) of
        None \<Rightarrow> (sv, Throws (Out_of_range ''map::at''))
      | Some handler \<Rightarrow> handler sv request)"

section \<open>Notify\<close>

definition mediator_receive :: "server \<Rightarrow> int \<Rightarrow> server \<times> DriverData outcome" where
  "mediator_receive sv fd =
     (case Driver_ReceiveRequest (sv_driver sv) fd of (d, oc) \<Rightarrow> (sv\<lparr>sv_driver := d\<rparr>, oc))"

definition mediator_add :: "server \<Rightarrow> int \<Rightarrow> server \<times> unit outcome" where
  "mediator_add sv fd =
     (case Reactor_Add (driver_open (sv_driver sv)) (sv_reactor sv) fd of
        (r, oc) \<Rightarrow> (sv\<lparr>sv_reactor := r\<rparr>, oc))"

definition mediator_remove :: "server \<Rightarrow> int \<Rightarrow> server \<times> unit outcome" where
  "mediator_remove sv fd =
     (case Reactor_Remove (sv_reactor sv) fd of (r, oc) \<Rightarrow> (sv\<lparr>sv_reactor := r\<rparr>, oc))"

definition mediator_enqueue :: "server \<Rightarrow> DriverData \<Rightarrow> server \<times> unit outcome" where
  "mediator_enqueue sv request =
     (case pool_AddCommand (sv_pool sv) (Some (FunctionCommand request)) of
        Returns p \<Rightarrow> (sv\<lparr>sv_pool := p\<rparr>, Returns ())
      | Throws e \<Rightarrow> (sv, Throws e)
      | _ \<Rightarrow> (sv, Undef))"

definition mediator_Notify :: "accept_answer \<Rightarrow> server \<Rightarrow> int \<Rightarrow> server \<times> unit outcome" where
  "mediator_Notify ans sv fd =
     (case Driver_TryAccept (sv_driver sv) ans fd of
        (d, new_client_fd) \<Rightarrow>
          let sv1 = sv\<lparr>sv_driver := d\<rparr>
          in if 0 \<le> new_client_fd then mediator_add sv1 new_client_fd
             else scatch
               (sbind (mediator_receive sv1 fd) mediator_enqueue)
               (\<lambda>sv2 e. sthen (mediator_remove sv2 fd) (\<lambda>sv3.
                  (sv3\<lparr>sv_driver := Driver_RemoveClientFD (sv_driver sv3) fd\<rparr>, Returns ()))))"

end
