(* ===== verification/Abstract_Disk.thy ===== *)
theory Abstract_Disk
  imports Local_Storage Tcp_State
begin

text \<open>
  The disk a client believes in: a vector of bytes and the sizes of the last writes, without
  stripes, mirrors, minions or threads. \<open>disk_serve\<close> says what each request does to it and
  what the client is told. The lemmas show that a healthy \<^verbatim>\<open>RAIDStorage\<close> behaves like it,
  inside its bounds and beyond them.
\<close>

section \<open>The disk\<close>

record disk =
  dk_bytes :: vec
  dk_sizes :: "(size_t, size_t) omap"

definition disk_of :: "raid \<Rightarrow> disk" where
  "disk_of r = \<lparr>dk_bytes = raid_flat r, dk_sizes = rs_offset_sizes r\<rparr>"

text \<open>A request without data is served wherever it points.\<close>

definition disk_covers :: "disk \<Rightarrow> size_t \<Rightarrow> nat \<Rightarrow> bool" where
  "disk_covers dk off n \<longleftrightarrow> n = 0 \<or> unat off + n \<le> length (dk_bytes dk)"

definition disk_read :: "disk \<Rightarrow> DriverData \<Rightarrow> DriverData" where
  "disk_read dk q =
     (if disk_covers dk (m_offset q) (unat (m_len q))
      then q\<lparr>m_buffer := subvec (dk_bytes dk) (unat (m_offset q)) (unat (m_len q)), m_status := SUCCESS\<rparr>
      else q\<lparr>m_status := FAILURE\<rparr>)"

text \<open>A write that reaches beyond the end is refused, but what fits has been written.\<close>

definition disk_write :: "disk \<Rightarrow> DriverData \<Rightarrow> disk \<times> DriverData" where
  "disk_write dk q =
     (if disk_covers dk (m_offset q) (length (m_buffer q))
      then (dk\<lparr>dk_bytes := copy_into (dk_bytes dk) (unat (m_offset q)) (m_buffer q),
               dk_sizes := map_put (m_offset q) (vsize (m_buffer q)) (dk_sizes dk)\<rparr>,
            q\<lparr>m_status := SUCCESS\<rparr>)
      else (dk\<lparr>dk_bytes := copy_into (dk_bytes dk) (unat (m_offset q))
                 (take (length (dk_bytes dk) - unat (m_offset q)) (m_buffer q))\<rparr>,
            q\<lparr>m_status := FAILURE\<rparr>))"

definition listing :: "(size_t, size_t) omap \<Rightarrow> vec" where
  "listing m = concat (map (\<lambda>(offset, n). be_bytes 8 offset @ be_bytes 8 n) m)"

fun disk_serve_type :: "ActionType \<Rightarrow> disk \<Rightarrow> DriverData \<Rightarrow> disk \<times> DriverData option" where
  "disk_serve_type READ dk q = (dk, Some (disk_read dk q))"
| "disk_serve_type WRITE dk q = (fst (disk_write dk q), Some (snd (disk_write dk q)))"
| "disk_serve_type FLUSH dk q = (dk, Some (q\<lparr>m_status := SUCCESS\<rparr>))"
| "disk_serve_type TRIM dk q = (dk, Some (q\<lparr>m_status := SUCCESS\<rparr>))"
| "disk_serve_type GET_SIZE dk q =
     (dk, Some (q\<lparr>m_len := size_at (dk_sizes dk) (m_offset q), m_status := SUCCESS\<rparr>))"
| "disk_serve_type LIST_OFFSETS dk q =
     (dk, Some (q\<lparr>m_buffer := listing (dk_sizes dk), m_len := vsize (listing (dk_sizes dk)),
                  m_status := SUCCESS\<rparr>))"
| "disk_serve_type DISCONNECT dk q = (dk, None)"
| "disk_serve_type (Other_action w) dk q = (dk, None)"

definition disk_serve :: "disk \<Rightarrow> DriverData \<Rightarrow> disk \<times> DriverData option" where
  "disk_serve dk q = disk_serve_type (m_type q) dk q"

text \<open>Both branches of a write are one copy of what fits.\<close>

lemma disk_write_bytes:
  "dk_bytes (fst (disk_write dk q)) = copy_into (dk_bytes dk) (unat (m_offset q))
    (take (length (dk_bytes dk) - unat (m_offset q)) (m_buffer q))"
  by (auto simp add: disk_write_def disk_covers_def)

lemma disk_serve_other: "m_type q \<noteq> WRITE \<Longrightarrow> fst (disk_serve dk q) = dk"
  by (cases "m_type q") (simp_all add: disk_serve_def)

lemma disk_serve_length: "length (dk_bytes (fst (disk_serve dk x))) = length (dk_bytes dk)"
proof (cases "m_type x = WRITE")
  case True
  have "unat (m_offset x) + length (take (length (dk_bytes dk) - unat (m_offset x)) (m_buffer x)) \<le> length (dk_bytes dk)
    \<or> take (length (dk_bytes dk) - unat (m_offset x)) (m_buffer x) = []"
    by auto
  then show ?thesis using True by (auto simp add: disk_serve_def disk_write_bytes)
qed (simp add: disk_serve_other)

text \<open>The range of a request ends below \<open>2 ^ 64\<close>.\<close>

definition range_ok :: "DriverData \<Rightarrow> bool" where
  "range_ok q \<longleftrightarrow> unat (m_offset q) + unat (m_len q) < 2 ^ 64 \<and>
     unat (m_offset q) + length (m_buffer q) < 2 ^ 64"

section \<open>A healthy array is such a disk\<close>

text \<open>Reads that reach beyond the capacity.\<close>

lemma read_chunk_beyond:
  assumes "raid_ok r" and "raid_capacity r \<le> unat off" and "0 < unat n" and "unat off + unat n < 2 ^ 64"
  shows "raid_read_chunk r off n = Throws (Out_of_range ''Read exceeds minion bounds'')"
proof -
  note sh = raid_ok_shape [OF assms(1)]
  obtain p l where pl: "PrimaryIndex r off = Returns p" "LocalOffset r off = Returns l"
    using indices_defined [OF sh] .
  note p = primary_in_range [OF sh pl(1)]
  have m: "unat (MirrorIndex r p) = raid_np r + unat p" by (rule unat_MirrorIndex [OF sh p])
  note l = address_beyond [OF sh assms(2) pl(2)]
  have throws: "minion_Read (rs_minions r ! i) l (replicate (unat n) 0) =
      Throws (Out_of_range ''Read exceeds minion bounds'')" if "i < 2 * raid_np r" for i
    using l assms(3,4) by (intro min.read_outside [OF raid_ok_minion [OF assms(1) that]])
      (simp_all add: raid_shape_size [OF sh that])
  show ?thesis
    using throws [of "unat p"] throws [of "raid_np r + unat p"] p raid_shapeD(1) [OF sh]
    by (simp add: raid_read_chunk_def pl Let_def minion_at_def m)
qed

lemma read_loop_beyond:
  assumes "raid_ok r" and "rem \<noteq> 0" and "raid_capacity r < unat off + unat rem"
    and "unat off + unat rem < 2 ^ 64"
  shows "\<exists>b e. raid_read_loop r off rem pos buf = (b, Throws e)"
  using assms
proof (induction r off rem pos buf rule: raid_read_loop.induct)
  case (1 r off rem pos buf)
  note sh = raid_ok_shape [OF "1.prems"(1)]
  note s = raid_shapeD [OF sh]
  let ?n = "chunk_len r off rem"
  note n = chunk_facts [OF sh "1.prems"(2), of off]
  show ?case
  proof (cases "unat off < raid_capacity r")
    case True
    then have fits: "unat off + unat ?n \<le> raid_capacity r"
      using chunk_below_capacity n(3) by (simp add: raid_capacity_def)
    then have chunk: "raid_read_chunk r off ?n = Returns (subvec (raid_flat r) (unat off) (unat ?n))"
      using chunks_serve_ok [OF "1.prems"(1)] n(1,3) by (simp add: chunks_serve_def)
    have o: "unat (off + ?n) = unat off + unat ?n"
      using "1.prems"(4) n(2) by (intro unat_plus_exact) linarith
    have more: "unat ?n < unat rem" using fits "1.prems"(3) by linarith
    then have "rem - ?n \<noteq> 0" using n(4) by auto
    moreover have "raid_capacity r < unat (off + ?n) + unat (rem - ?n)"
      "unat (off + ?n) + unat (rem - ?n) < 2 ^ 64"
      using "1.prems"(3,4) more by (simp_all add: o n(4))
    ultimately obtain b e where "raid_read_loop r (off + ?n) (rem - ?n) (pos + ?n)
        (copy_into buf (unat pos) (subvec (raid_flat r) (unat off) (unat ?n))) = (b, Throws e)"
      using "1.IH" [OF "1.prems"(2) s(5) refl chunk "1.prems"(1)] by blast
    then show ?thesis
      using "1.prems"(2) s(5) chunk by (simp add: raid_read_loop.simps [of r off rem pos buf] Let_def)
  next
    case False
    then have "raid_read_chunk r off ?n = Throws (Out_of_range ''Read exceeds minion bounds'')"
      using "1.prems"(4) n(1,2) by (intro read_chunk_beyond [OF "1.prems"(1)]) simp_all
    then show ?thesis
      using "1.prems"(2) s(5) by (simp add: raid_read_loop.simps [of r off rem pos buf] Let_def)
  qed
qed

lemma dk_bytes_disk_of [simp]: "raid_ok r \<Longrightarrow> length (dk_bytes (disk_of r)) = raid_capacity r"
  by (simp add: disk_of_def length_raid_flat raid_ok_filled)

lemma raid_read_disk:
  assumes "raid_ok r" and "range_ok q"
  obtains b where "RAID_Read r q = Returns
    (if disk_covers (disk_of r) (m_offset q) (unat (m_len q)) then disk_read (disk_of r) q
     else (disk_read (disk_of r) q)\<lparr>m_buffer := b\<rparr>)"
proof (cases "disk_covers (disk_of r) (m_offset q) (unat (m_len q))")
  case True
  show ?thesis
  proof (cases "m_len q = 0")
    case zero: True
    then show ?thesis
      using that by (simp add: RAID_Read_def raid_read_loop.simps disk_read_def disk_covers_def
          vec_resize_def subvec_def)
  next
    case False
    then have "unat (m_offset q) + unat (m_len q) \<le> raid_capacity r"
      using True assms(1) by (auto simp add: disk_covers_def unat_eq_zero)
    from RAID_Read_serves [OF raid_ok_shape [OF assms(1)] chunks_serve_ok [OF assms(1)] this]
    show ?thesis using that True by (simp add: disk_read_def disk_of_def)
  qed
next
  case False
  then have "m_len q \<noteq> 0" "raid_capacity r < unat (m_offset q) + unat (m_len q)"
    using assms(1) by (auto simp add: disk_covers_def)
  then obtain b e where "raid_read_loop r (m_offset q) (m_len q) 0
      (vec_resize (m_buffer q) (unat (m_len q))) = (b, Throws e)"
    using read_loop_beyond [OF assms(1)] assms(2) by (meson range_ok_def)
  then have "RAID_Read r q = Returns (q\<lparr>m_buffer := b, m_status := FAILURE\<rparr>)"
    by (simp add: RAID_Read_def)
  then show ?thesis using that [of b] False by (simp add: disk_read_def)
qed

lemma raid_write_disk:
  assumes "raid_ok r" and "range_ok q"
  obtains r' where "RAID_Write r q = Returns (r', snd (disk_write (disk_of r) q))"
    and "raid_ok r'" and "disk_of r' = fst (disk_write (disk_of r) q)"
proof -
  let ?rec = "\<lambda>r1. r1\<lparr>rs_offset_sizes := map_put (m_offset q) (vsize (m_buffer q)) (rs_offset_sizes r),
          rs_metadata_store := Store_Save (rs_metadata_store r)
            (map_put (m_offset q) (vsize (m_buffer q)) (rs_offset_sizes r))\<rparr>"
  consider (inside) "unat (m_offset q) + length (m_buffer q) \<le> raid_capacity r"
    | (empty) "m_buffer q = []"
    | (beyond) "m_buffer q \<noteq> []" "raid_capacity r < unat (m_offset q) + length (m_buffer q)"
    by linarith
  then show thesis
  proof cases
    case inside
    obtain r1 where w: "raid_wrote r r1 (unat (m_offset q)) (m_buffer q)"
      and run: "RAID_Write r q = Returns (?rec r1, q\<lparr>m_status := SUCCESS\<rparr>)"
      by (rule RAID_Write_inside [OF assms(1) inside])
    show ?thesis
      by (rule that [of "?rec r1"])
         (use run inside assms(1) raid_ok_recorded [OF assms(1) raid_wroteD(1) [OF w]] raid_wroteD(2) [OF w] in
           \<open>simp_all add: disk_write_def disk_covers_def\<close>, simp_all add: disk_of_def)
  next
    case empty
    have "RAID_Write r q = Returns (?rec r, q\<lparr>m_status := SUCCESS\<rparr>)"
      using empty by (simp add: RAID_Write_def raid_write_loop.simps vsize_def Let_def)
    then show ?thesis
      using that [of "?rec r"] empty raid_ok_recorded [OF assms(1) assms(1)]
      by (simp add: disk_write_def disk_covers_def disk_of_def)
  next
    case beyond
    obtain r1 where w: "raid_wrote r r1 (unat (m_offset q))
        (take (raid_capacity r - unat (m_offset q)) (m_buffer q))"
      and run: "RAID_Write r q = Returns (r1, q\<lparr>m_status := FAILURE\<rparr>)"
      using RAID_Write_beyond [OF assms(1) beyond] assms(2) by (auto simp add: range_ok_def)
    have "rs_offset_sizes r1 = rs_offset_sizes r" using raid_wrote_fields(3) [OF w] .
    then show ?thesis
      using that [of r1] run beyond assms(1) raid_wroteD(1,2) [OF w]
      by (simp add: disk_write_def disk_covers_def) (simp add: disk_of_def)
  qed
qed

lemma reply_frame_failed [simp]: "m_status q = FAILURE \<Longrightarrow> reply_frame (q\<lparr>m_buffer := b\<rparr>) = reply_frame q"
  by (simp add: reply_frame_def reply_header_def reply_len_def sends_payload_def)

section \<open>A session of the disk\<close>

text \<open>The disk after requests one after the other, and its answers.\<close>

fun disk_session :: "disk \<Rightarrow> DriverData list \<Rightarrow> disk \<times> DriverData list" where
  "disk_session dk [] = (dk, [])"
| "disk_session dk (q # qs) =
     (case disk_serve dk q of
        (dk1, None) \<Rightarrow> disk_session dk1 qs
      | (dk1, Some a) \<Rightarrow> (case disk_session dk1 qs of (dk2, as) \<Rightarrow> (dk2, a # as)))"

text \<open>Requests the disk covers are answered with success.\<close>

lemma disk_session_succeeds:
  assumes "\<forall>q \<in> set qs. m_status q = SUCCESS \<and> unat (m_offset q) + unat (m_len q) \<le> length (dk_bytes dk) \<and>
      length (m_buffer q) = unat (m_len q)"
  shows "\<forall>a \<in> set (snd (disk_session dk qs)). m_status a = SUCCESS"
  using assms
proof (induction qs arbitrary: dk)
  case (Cons q qs)
  obtain dk1 oa where served: "disk_serve dk q = (dk1, oa)" by fastforce
  have "length (dk_bytes dk1) = length (dk_bytes dk)" using disk_serve_length [of dk q] served by simp
  then have "\<forall>a \<in> set (snd (disk_session dk1 qs)). m_status a = SUCCESS"
    using Cons.prems by (intro Cons.IH) simp
  moreover have "m_status a = SUCCESS" if "oa = Some a" for a
    using that served Cons.prems
    by (cases "m_type q") (auto simp add: disk_serve_def disk_read_def disk_write_def disk_covers_def)
  ultimately show ?case using served by (cases oa) (auto simp add: case_prod_unfold)
qed simp

end
