(* ===== verification/Server_Runs.thy ===== *)
theory Server_Runs
  imports Input_Mediator Abstract_Disk
begin

text \<open>
  The running server: the reactor hands ready descriptors to \<open>Notify\<close> while the workers of the
  pool execute what it queued, in any order of their steps. \<open>server_step\<close> labels each step with
  what a client could notice of it.
\<close>

section \<open>Start\<close>

text \<open>
  \<^verbatim>\<open>RunServer\<close> up to the loop: a pool of the default size, the reactor, and the driver's descriptor
  in it. The plugin loader and the monitor have no part in serving requests; \<open>Lds_Main\<close> adds them.
\<close>

definition RunServer :: "size_t \<Rightarrow> reactor_answers \<Rightarrow> driver \<Rightarrow> storage \<Rightarrow> server outcome" where
  "RunServer hardware ra drv st =
     obind (Reactor ra) (\<lambda>rx.
       let sv = \<lparr>sv_driver = drv, sv_storage = st, sv_pool = ThreadPool (SetDefNumThreads hardware),
                 sv_reactor = rx\<rparr>
       in case mediator_add sv (Driver_GetFD drv) of
            (sv1, Returns u) \<Rightarrow> Returns sv1
          | (sv1, Throws e) \<Rightarrow> Throws e
          | (sv1, _) \<Rightarrow> Undef)"

lemma RunServer_result:
  assumes "RunServer hardware ra drv st = Returns sv"
  shows "sv_driver sv = drv" and "sv_storage sv = st"
    and "sv_pool sv = ThreadPool (SetDefNumThreads hardware)"
    and "rx_watched (sv_reactor sv) = map_put (Driver_GetFD drv) () [(ra_signal_fd ra, ())]"
    and "rx_signal_fd (sv_reactor sv) = ra_signal_fd ra" and "Driver_GetFD drv \<noteq> ra_signal_fd ra"
    and "driver_open drv (Driver_GetFD drv)"
  using assms
  by (auto simp add: RunServer_def Reactor_def Reactor_SetupSignals_def mediator_add_def Reactor_Add_def Let_def
      split: if_splits)

section \<open>Steps\<close>

datatype event =
    Connected int
  | Received DriverData
  | Dropped int
  | Served DriverData
  | Internal

text \<open>
  What \<^verbatim>\<open>accept\<close> may give: a descriptor that is not open yet, with a new connection. The peers
  here go on taking the bytes they are sent; what becomes of a reply otherwise is
  \<open>tcp_reply_prefix\<close>.
\<close>

fun kernel_accepts :: "server \<Rightarrow> accept_answer \<Rightarrow> bool" where
  "kernel_accepts sv Accept_failed \<longleftrightarrow> True"
| "kernel_accepts sv (Accepted fd ip s) \<longleftrightarrow>
     0 \<le> fd \<and> fd \<noteq> rx_signal_fd (sv_reactor sv) \<and> \<not> driver_open (sv_driver sv) fd \<and>
     sock_wf s \<and> accepting s \<and> sk_out s = []"

definition notify_event :: "accept_answer \<Rightarrow> server \<Rightarrow> int \<Rightarrow> event" where
  "notify_event ans sv fd =
     (case Driver_TryAccept (sv_driver sv) ans fd of
        (d, new_client_fd) \<Rightarrow>
          if 0 \<le> new_client_fd then Connected new_client_fd
          else case snd (mediator_receive (sv\<lparr>sv_driver := d\<rparr>) fd) of
                 Returns q \<Rightarrow> Received q
               | _ \<Rightarrow> Dropped fd)"

fun goes_on :: "unit outcome \<Rightarrow> bool" where
  "goes_on (Returns u) = True"
| "goes_on (Throws e) = True"
| "goes_on _ = False"

text \<open>A worker goes on after an exception of the command it executed.\<close>

inductive server_step :: "server \<Rightarrow> event \<Rightarrow> server \<Rightarrow> bool" where
  notifies: "fd \<in> map_keys (rx_watched (sv_reactor sv)) \<Longrightarrow> fd \<noteq> rx_signal_fd (sv_reactor sv) \<Longrightarrow>
     kernel_accepts sv ans \<Longrightarrow> mediator_Notify ans sv fd = (sv', Returns ()) \<Longrightarrow>
     server_step sv (notify_event ans sv fd) sv'"
| works: "worker_step (sv_pool sv) p \<Longrightarrow> tp_done p = tp_done (sv_pool sv) \<Longrightarrow>
     server_step sv Internal (sv\<lparr>sv_pool := p\<rparr>)"
| serves: "worker_step (sv_pool sv) p \<Longrightarrow> tp_done p = tp_done (sv_pool sv) @ [User_command pr q] \<Longrightarrow>
     mediator_Execute (sv\<lparr>sv_pool := p\<rparr>) q = (sv', oc) \<Longrightarrow> goes_on oc \<Longrightarrow>
     server_step sv (Served q) sv'"

inductive_cases server_stepE: "server_step sv ev sv'"

inductive server_run :: "server \<Rightarrow> event list \<Rightarrow> server \<Rightarrow> bool" where
  run_nil: "server_run sv [] sv"
| run_snoc: "server_run sv evs sv1 \<Longrightarrow> server_step sv1 ev sv2 \<Longrightarrow> server_run sv (evs @ [ev]) sv2"

inductive_cases server_run_emptyE: "server_run sv [] sv'"

text \<open>Invariants of runs.\<close>

lemma server_run_keeps:
  assumes "server_run sv evs sv'" and "J sv"
    and "\<And>a ev b. server_step a ev b \<Longrightarrow> ev \<in> set evs \<Longrightarrow> J a \<Longrightarrow> J b"
  shows "J sv'"
proof -
  have "set evs \<subseteq> E \<Longrightarrow> (\<And>a ev b. server_step a ev b \<Longrightarrow> ev \<in> E \<Longrightarrow> J a \<Longrightarrow> J b) \<Longrightarrow> J sv'" for E
    using assms(1,2) by (induction rule: server_run.induct) auto
  then show ?thesis using assms(3) by blast
qed

section \<open>The cases of Notify\<close>

text \<open>On a descriptor that is not the listening one, or when \<^verbatim>\<open>accept\<close> fails, a request is read.\<close>

lemma Notify_cases:
  assumes "mediator_Notify ans sv fd = (sv', Returns ())"
  obtains (connected) d c where "Driver_TryAccept (sv_driver sv) ans fd = (d, c)" and "0 \<le> c"
      and "mediator_add (sv\<lparr>sv_driver := d\<rparr>) c = (sv', Returns ())"
      and "notify_event ans sv fd = Connected c"
    | (received) d c sv1 q where "Driver_TryAccept (sv_driver sv) ans fd = (d, c)" and "c < 0"
      and "mediator_receive (sv\<lparr>sv_driver := d\<rparr>) fd = (sv1, Returns q)"
      and "sv' = sv1\<lparr>sv_pool := (sv_pool sv1)\<lparr>tp_command := tp_command (sv_pool sv1) @ [FunctionCommand q]\<rparr>\<rparr>"
      and "notify_event ans sv fd = Received q"
    | (dropped) d c sv1 e sv2 where "Driver_TryAccept (sv_driver sv) ans fd = (d, c)" and "c < 0"
      and "mediator_receive (sv\<lparr>sv_driver := d\<rparr>) fd = (sv1, Throws e)"
      and "mediator_remove sv1 fd = (sv2, Returns ())"
      and "sv' = sv2\<lparr>sv_driver := Driver_RemoveClientFD (sv_driver sv2) fd\<rparr>"
      and "notify_event ans sv fd = Dropped fd"
proof -
  obtain d c where acc: "Driver_TryAccept (sv_driver sv) ans fd = (d, c)" by fastforce
  show thesis
  proof (cases "0 \<le> c")
    case True
    with acc assms show ?thesis
      by (intro connected) (auto simp add: mediator_Notify_def notify_event_def Let_def)
  next
    case False
    obtain sv1 oc where rcv: "mediator_receive (sv\<lparr>sv_driver := d\<rparr>) fd = (sv1, oc)" by fastforce
    show ?thesis
    proof (cases oc)
      case (Returns q)
      show ?thesis
        by (rule received [OF acc])
           (use False rcv Returns acc assms in
             \<open>auto simp add: mediator_Notify_def notify_event_def mediator_enqueue_def pool_AddCommand_def
                wpq_Push_def Let_def\<close>)
    next
      case (Throws e)
      obtain sv2 oc2 where rem: "mediator_remove sv1 fd = (sv2, oc2)" by fastforce
      then have "oc2 = Returns ()" "sv' = sv2\<lparr>sv_driver := Driver_RemoveClientFD (sv_driver sv2) fd\<rparr>"
        using False rcv Throws acc assms
        by (cases oc2; simp add: mediator_Notify_def Let_def)+
      then show ?thesis
        using False rcv Throws acc rem by (intro dropped [OF acc]) (simp_all add: notify_event_def)
    qed (use False rcv acc assms in \<open>simp_all add: mediator_Notify_def Let_def\<close>)
  qed
qed

end
