(* ===== verification/Driver_Contract.thy ===== *)
theory Driver_Contract
  imports Server_Runs
begin

text \<open>
  What the mediator relies on in a driver, as a locale over \<^verbatim>\<open>IDriverComm\<close>: whatever else a call
  does to the driver, what its peers have been sent changes by whole replies only. Inside it: a
  server over a healthy array serves the abstract disk, one event at a time, and no worker is
  stuck with a request. \<open>Server_Refinement\<close> and \<open>Nbd_Server\<close> interpret it on the two drivers.
\<close>

section \<open>The promise\<close>

text \<open>
  The promise of a server is a disk and a view \<open>'w\<close> of what the peers have been sent. A new
  connection changes the view by \<open>meets\<close>, a reply by \<open>tells\<close>.
\<close>

definition contract_step ::
  "('w \<Rightarrow> int \<Rightarrow> 'w) \<Rightarrow> ('w \<Rightarrow> DriverData \<Rightarrow> 'w) \<Rightarrow> disk \<times> 'w \<Rightarrow> event \<Rightarrow> disk \<times> 'w" where
  "contract_step meets tells pr ev =
     (case ev of
        Connected fd \<Rightarrow> (fst pr, meets (snd pr) fd)
      | Served q \<Rightarrow>
          (case disk_serve (fst pr) q of
             (dk, None) \<Rightarrow> (dk, snd pr)
           | (dk, Some a) \<Rightarrow> (dk, tells (snd pr) a))
      | _ \<Rightarrow> pr)"

definition serves_as :: "(driver \<Rightarrow> 'w \<Rightarrow> bool) \<Rightarrow> server \<Rightarrow> disk \<times> 'w \<Rightarrow> bool" where
  "serves_as speaks sv pr \<longleftrightarrow> speaks (sv_driver sv) (snd pr) \<and>
     (\<exists>r. sv_storage sv = Raid_storage r \<and> raid_ok r \<and> fst pr = disk_of r)"

fun answer_ok :: "accept_answer \<Rightarrow> bool" where
  "answer_ok Accept_failed \<longleftrightarrow> True"
| "answer_ok (Accepted fd ip s) \<longleftrightarrow> 0 \<le> fd \<and> accepting s \<and> sk_out s = []"

lemma kernel_accepts_ok: "kernel_accepts sv ans \<Longrightarrow> answer_ok ans"
  by (cases ans) simp_all

text \<open>How the execution of a request ends: only a type without a handler throws.\<close>

definition execute_outcome :: "DriverData \<Rightarrow> unit outcome" where
  "execute_outcome q =
     (case m_type q of Other_action w \<Rightarrow> Throws (Out_of_range ''map::at'') | _ \<Rightarrow> Returns ())"

lemma execute_outcome_goes_on: "goes_on (execute_outcome q)"
  by (simp add: execute_outcome_def split: ActionType.splits)

lemma push_offsets_listing: "push_offsets buffer m = buffer @ listing m"
  by (induction buffer m rule: push_offsets.induct) (simp_all add: listing_def)

lemma mediator_add_fields:
  assumes "mediator_add sv fd = (sv', oc)"
  shows "sv_driver sv' = sv_driver sv" and "sv_storage sv' = sv_storage sv" and "sv_pool sv' = sv_pool sv"
  using assms by (auto simp add: mediator_add_def split: prod.splits)

lemma mediator_remove_fields:
  assumes "mediator_remove sv fd = (sv', oc)"
  shows "sv_driver sv' = sv_driver sv" and "sv_storage sv' = sv_storage sv" and "sv_pool sv' = sv_pool sv"
  using assms by (auto simp add: mediator_remove_def split: prod.splits)

lemma serves_as_cong:
  "sv_driver sv' = sv_driver sv \<Longrightarrow> sv_storage sv' = sv_storage sv \<Longrightarrow>
    serves_as speaks sv' pr \<longleftrightarrow> serves_as speaks sv pr"
  by (simp add: serves_as_def)

text \<open>Whatever a request is, its execution touches the driver by sending one reply at most.\<close>

definition replies_once :: "server \<Rightarrow> server \<Rightarrow> bool" where
  "replies_once sv sv' \<longleftrightarrow> sv_reactor sv' = sv_reactor sv \<and> sv_pool sv' = sv_pool sv \<and>
     (sv_driver sv' = sv_driver sv \<or> (\<exists>a. sv_driver sv' = fst (Driver_SendReply (sv_driver sv) a)))"

lemma replies_once_reply: "replies_once sv (fst (mediator_reply (sv\<lparr>sv_storage := st\<rparr>) a))"
  "replies_once sv (fst (mediator_reply sv a))"
  by (auto simp add: replies_once_def mediator_reply_def case_prod_unfold)

lemma Execute_replies: "replies_once sv (fst (mediator_Execute sv q))"
proof (cases "m_type q")
  case READ
  then show ?thesis
    by (cases "Storage_Read (sv_storage sv) q")
       (simp_all add: mediator_Execute_def handle_READ_def replies_once_reply, simp_all add: replies_once_def)
next
  case WRITE
  then show ?thesis
    by (cases "Storage_Write (sv_storage sv) q")
       (simp_all add: mediator_Execute_def handle_WRITE_def case_prod_unfold replies_once_reply, simp_all add: replies_once_def)
qed (simp_all add: mediator_Execute_def handle_FLUSH_def handle_TRIM_def handle_DISCONNECT_def
      handle_GET_SIZE_def handle_LIST_OFFSETS_def replies_once_reply Let_def, simp_all add: replies_once_def)

section \<open>The contract\<close>

locale driver_contract =
  fixes speaks :: "driver \<Rightarrow> 'w \<Rightarrow> bool"
    and meets :: "'w \<Rightarrow> int \<Rightarrow> 'w"
    and tells :: "'w \<Rightarrow> DriverData \<Rightarrow> 'w"
  assumes accepts: "speaks d w \<Longrightarrow> answer_ok ans \<Longrightarrow> Driver_TryAccept d ans fd = (d', c) \<Longrightarrow>
      speaks d' (if 0 \<le> c then meets w c else w)"
    and receives: "speaks d w \<Longrightarrow> speaks (fst (Driver_ReceiveRequest d fd)) w"
    and replies: "speaks d w \<Longrightarrow> \<exists>d'. Driver_SendReply d q = (d', Returns ()) \<and> speaks d' (tells w q)"
    and forgets: "speaks d w \<Longrightarrow> speaks (Driver_RemoveClientFD d fd) w"
    and failure_without_data: "m_status q = FAILURE \<Longrightarrow> tells w (q\<lparr>m_buffer := b\<rparr>) = tells w q"
begin

lemma receive_serves:
  assumes "serves_as speaks sv pr" and "mediator_receive sv fd = (sv1, oc)"
  shows "serves_as speaks sv1 pr" and "sv_pool sv1 = sv_pool sv" and "sv_reactor sv1 = sv_reactor sv"
proof -
  have "sv1 = sv\<lparr>sv_driver := fst (Driver_ReceiveRequest (sv_driver sv) fd)\<rparr>"
    using assms(2) by (auto simp add: mediator_receive_def split: prod.splits)
  then show "serves_as speaks sv1 pr" "sv_pool sv1 = sv_pool sv" "sv_reactor sv1 = sv_reactor sv"
    using assms(1) receives by (auto simp add: serves_as_def)
qed

lemma reply_serves:
  assumes "serves_as speaks sv (dk, w)"
  obtains sv' where "mediator_reply sv a = (sv', Returns ())" and "serves_as speaks sv' (dk, tells w a)"
    and "sv_pool sv' = sv_pool sv" and "sv_reactor sv' = sv_reactor sv"
proof -
  obtain d where "Driver_SendReply (sv_driver sv) a = (d, Returns ())" "speaks d (tells w a)"
    using replies [of "sv_driver sv" w a] assms by (auto simp add: serves_as_def)
  then show thesis
    using assms by (intro that [of "sv\<lparr>sv_driver := d\<rparr>"]) (auto simp add: mediator_reply_def serves_as_def)
qed

lemma execute_serves:
  assumes "serves_as speaks sv pr" and "range_ok q" and "mediator_Execute sv q = (sv', oc)"
  shows "serves_as speaks sv' (contract_step meets tells pr (Served q)) \<and>
    sv_pool sv' = sv_pool sv \<and> sv_reactor sv' = sv_reactor sv \<and> oc = execute_outcome q"
proof -
  obtain dk w where pr: "pr = (dk, w)" by fastforce
  obtain r where r: "sv_storage sv = Raid_storage r" "raid_ok r" "dk = disk_of r"
    using assms(1) pr by (auto simp add: serves_as_def)
  have reply: ?thesis
    if known: "mediator_Execute sv q = mediator_reply sv1 a" and s1: "serves_as speaks sv1 (dk', w)"
      and same: "sv_pool sv1 = sv_pool sv" "sv_reactor sv1 = sv_reactor sv"
      and served: "disk_serve dk q = (dk', Some a')" and told: "tells w a' = tells w a"
      and fine: "execute_outcome q = Returns ()" for sv1 a dk' a'
    by (rule reply_serves [OF s1, of a])
       (use known same served told fine assms(3) in \<open>simp add: contract_step_def pr\<close>)
  have silent: ?thesis
    if "mediator_Execute sv q = (sv, execute_outcome q)" and "disk_serve dk q = (dk, None)"
    using that assms(1,3) by (simp add: contract_step_def pr)
  note here = assms(1) [unfolded pr]
  show ?thesis
  proof (cases "m_type q")
    case READ
    obtain b where b: "RAID_Read r q = Returns
        (if disk_covers dk (m_offset q) (unat (m_len q)) then disk_read dk q
         else (disk_read dk q)\<lparr>m_buffer := b\<rparr>)"
      by (rule raid_read_disk [OF r(2) assms(2), folded r(3)])
    let ?a = "if disk_covers dk (m_offset q) (unat (m_len q)) then disk_read dk q
         else (disk_read dk q)\<lparr>m_buffer := b\<rparr>"
    have "tells w (disk_read dk q) = tells w ?a"
      by (simp add: disk_read_def failure_without_data)
    moreover have "mediator_Execute sv q = mediator_reply sv ?a"
      using READ b r(1) by (simp add: mediator_Execute_def handle_READ_def)
    moreover have "disk_serve dk q = (dk, Some (disk_read dk q))" "execute_outcome q = Returns ()"
      using READ by (simp_all add: disk_serve_def execute_outcome_def)
    ultimately show ?thesis using reply [OF _ here refl refl] by blast
  next
    case WRITE
    obtain r' where r': "RAID_Write r q = Returns (r', snd (disk_write dk q))" "raid_ok r'"
      "disk_of r' = fst (disk_write dk q)"
      by (rule raid_write_disk [OF r(2) assms(2), folded r(3)])
    have "serves_as speaks (sv\<lparr>sv_storage := Raid_storage r'\<rparr>) (fst (disk_write dk q), w)"
      using here r'(2,3) by (simp add: serves_as_def)
    then show ?thesis
      by (rule reply [where a = "snd (disk_write dk q)", rotated])
         (use WRITE r'(1) r(1) in
           \<open>simp_all add: mediator_Execute_def handle_WRITE_def disk_serve_def execute_outcome_def\<close>)
  next
    case DISCONNECT
    then show ?thesis
      using silent by (simp add: mediator_Execute_def handle_DISCONNECT_def disk_serve_def execute_outcome_def)
  next
    case FLUSH
    show ?thesis
      by (rule reply [OF _ here refl refl])
         (use FLUSH in \<open>simp_all add: mediator_Execute_def handle_FLUSH_def disk_serve_def execute_outcome_def\<close>)
  next
    case TRIM
    show ?thesis
      by (rule reply [OF _ here refl refl])
         (use TRIM in \<open>simp_all add: mediator_Execute_def handle_TRIM_def disk_serve_def execute_outcome_def\<close>)
  next
    case GET_SIZE
    show ?thesis
      by (rule reply [OF _ here refl refl])
         (use GET_SIZE r in \<open>simp_all add: mediator_Execute_def handle_GET_SIZE_def disk_serve_def disk_of_def
            RAID_GetDataSize_def execute_outcome_def\<close>)
  next
    case LIST_OFFSETS
    show ?thesis
      by (rule reply [OF _ here refl refl])
         (use LIST_OFFSETS r in \<open>simp_all add: mediator_Execute_def handle_LIST_OFFSETS_def disk_serve_def
            disk_of_def push_offsets_listing execute_outcome_def Let_def\<close>)
  next
    case (Other_action x)
    then show ?thesis
      using silent by (simp add: mediator_Execute_def disk_serve_def execute_outcome_def)
  qed
qed

lemma accept_serves:
  assumes "serves_as speaks sv pr" and "kernel_accepts sv ans"
    and "Driver_TryAccept (sv_driver sv) ans fd = (d, c)"
  shows "serves_as speaks (sv\<lparr>sv_driver := d\<rparr>) (if 0 \<le> c then (fst pr, meets (snd pr) c) else pr)"
  using accepts [OF _ kernel_accepts_ok [OF assms(2)] assms(3)] assms(1) by (auto simp add: serves_as_def)

lemma notify_serves:
  assumes "serves_as speaks sv pr" and "kernel_accepts sv ans"
    and "mediator_Notify ans sv fd = (sv', Returns ())"
  shows "serves_as speaks sv' (contract_step meets tells pr (notify_event ans sv fd))"
  using assms(3)
proof (cases rule: Notify_cases)
  case (connected d c)
  have "serves_as speaks (sv\<lparr>sv_driver := d\<rparr>) (fst pr, meets (snd pr) c)"
    using accept_serves [OF assms(1,2) connected(1)] connected(2) by simp
  then have "serves_as speaks sv' (fst pr, meets (snd pr) c)"
    by (simp only: serves_as_cong [OF mediator_add_fields(1,2) [OF connected(3)]])
  then show ?thesis by (simp add: connected(4) contract_step_def)
next
  case (received d c sv1 q)
  have "serves_as speaks (sv\<lparr>sv_driver := d\<rparr>) pr"
    using accept_serves [OF assms(1,2) received(1)] received(2) by simp
  then have "serves_as speaks sv1 pr" by (rule receive_serves(1)) (rule received(3))
  then show ?thesis by (simp add: received(4,5) serves_as_def contract_step_def)
next
  case (dropped d c sv1 e sv2)
  have "serves_as speaks (sv\<lparr>sv_driver := d\<rparr>) pr"
    using accept_serves [OF assms(1,2) dropped(1)] dropped(2) by simp
  then have "serves_as speaks sv1 pr" by (rule receive_serves(1)) (rule dropped(3))
  then have sv2: "serves_as speaks sv2 pr"
    by (simp only: serves_as_cong [OF mediator_remove_fields(1,2) [OF dropped(4)]])
  then have "speaks (Driver_RemoveClientFD (sv_driver sv2) fd) (snd pr)"
    by (intro forgets) (simp add: serves_as_def)
  then show ?thesis
    using sv2 by (simp add: dropped(5,6) serves_as_def contract_step_def)
qed

lemma step_serves:
  assumes "server_step sv ev sv'" and "serves_as speaks sv pr" and "\<And>q. ev = Served q \<Longrightarrow> range_ok q"
  shows "serves_as speaks sv' (contract_step meets tells pr ev)"
  using assms(1)
proof cases
  case (notifies fd ans)
  then show ?thesis using notify_serves assms(2) by simp
next
  case (works p)
  then show ?thesis using assms(2) by (simp add: serves_as_def contract_step_def)
next
  case (serves p prio q oc)
  have "serves_as speaks (sv\<lparr>sv_pool := p\<rparr>) pr" using assms(2) by (simp add: serves_as_def)
  from execute_serves [OF this assms(3) serves(4)] show ?thesis using serves(1) by simp
qed

lemma run_serves:
  assumes "server_run sv evs sv'" and "serves_as speaks sv pr" and "\<forall>q. Served q \<in> set evs \<longrightarrow> range_ok q"
  shows "serves_as speaks sv' (foldl (contract_step meets tells) pr evs)"
  using assms by (induction rule: server_run.induct) (auto intro: step_serves)

text \<open>A worker that holds a request in range finishes it.\<close>

lemma busy_worker_serves:
  assumes "serves_as speaks sv pr" and "range_ok q"
    and "k < length (tp_threads (sv_pool sv))" and "tp_threads (sv_pool sv) ! k = Busy (FunctionCommand q)"
  obtains sv' where "server_step sv (Served q) sv'"
    and "serves_as speaks sv' (contract_step meets tells pr (Served q))"
    and "sv_pool sv' = (sv_pool sv)\<lparr>tp_threads := (tp_threads (sv_pool sv))[k := Idle],
           tp_done := tp_done (sv_pool sv) @ [FunctionCommand q]\<rparr>"
    and "sv_reactor sv' = sv_reactor sv"
proof -
  let ?p = "(sv_pool sv)\<lparr>tp_threads := (tp_threads (sv_pool sv))[k := Idle],
           tp_done := tp_done (sv_pool sv) @ [FunctionCommand q]\<rparr>"
  have w: "worker_step (sv_pool sv) ?p"
    using executes [OF assms(3,4), of Idle "[FunctionCommand q]"] by (simp add: FunctionCommand_def)
  obtain sv' oc where ex: "mediator_Execute (sv\<lparr>sv_pool := ?p\<rparr>) q = (sv', oc)" by fastforce
  have "serves_as speaks (sv\<lparr>sv_pool := ?p\<rparr>) pr" using assms(1) by (simp add: serves_as_def)
  note e = execute_serves [OF this assms(2) ex]
  have "server_step sv (Served q) sv'"
    by (rule serves [OF w _ ex]) (use e execute_outcome_goes_on in \<open>simp_all add: FunctionCommand_def\<close>)
  then show thesis using that e by simp
qed

end

end
