(* ===== verification/Server_Refinement.thy ===== *)
theory Server_Refinement
  imports Driver_Contract
begin

text \<open>
  The server refines the abstract disk: whatever the workers and the reactor do in whatever
  order, the array holds what the disk holds after the requests served so far, in the order in
  which they were served, and every open connection has received the replies of the disk to
  the requests that name its descriptor, whole, in that order, and nothing else. A second theorem counts: every request
  taken off a socket is served once.
\<close>

section \<open>What the server promises\<close>

type_synonym promise = "disk \<times> (int \<Rightarrow> vec)"

text \<open>The disk, and for every descriptor the bytes its present connection has been sent.\<close>

fun promise_step :: "promise \<Rightarrow> event \<Rightarrow> promise" where
  "promise_step (dk, outs) (Served q) =
     (case disk_serve dk q of
        (dk', None) \<Rightarrow> (dk', outs)
      | (dk', Some a) \<Rightarrow> (dk', outs(m_source_fd a := outs (m_source_fd a) @ reply_frame a)))"
| "promise_step (dk, outs) (Connected fd) = (dk, outs(fd := []))"
| "promise_step (dk, outs) (Received q) = (dk, outs)"
| "promise_step (dk, outs) (Dropped fd) = (dk, outs)"
| "promise_step (dk, outs) Internal = (dk, outs)"

definition promised :: "promise \<Rightarrow> event list \<Rightarrow> promise" where
  "promised pr evs = foldl promise_step pr evs"

lemma promised_simps [simp]:
  "promised pr [] = pr"
  "promised pr (evs @ [ev]) = promise_step (promised pr evs) ev"
  by (simp_all add: promised_def)

definition keeps_promise :: "server \<Rightarrow> promise \<Rightarrow> bool" where
  "keeps_promise sv pr \<longleftrightarrow>
     (\<exists>d r. sv_driver sv = TCP_driver d \<and> sv_storage sv = Raid_storage r \<and> raid_ok r \<and>
        fst pr = disk_of r \<and>
        (\<forall>fd s. td_sockets d fd = Some s \<longrightarrow> accepting s \<and> (0 \<le> fd \<longrightarrow> sk_out s = snd pr fd)))"

section \<open>Reading leaves the outputs alone\<close>

definition outputs :: "tcp_driver \<Rightarrow> int \<Rightarrow> (vec \<times> write_answer list) option" where
  "outputs d fd = map_option (\<lambda>s. (sk_out s, sk_wr s)) (td_sockets d fd)"

lemma read_loop_outputs:
  "sk_out (fst (read_loop f e s n)) = sk_out s \<and> sk_wr (fst (read_loop f e s n)) = sk_wr s"
proof (induction f e s n rule: read_loop.induct)
  case (1 f e s n)
  obtain s1 r where r: "sys_read s n = (s1, r)" by fastforce
  then have same: "sk_out s1 = sk_out s" "sk_wr s1 = sk_wr s"
    by (auto simp add: sys_read_def split: list.splits)
  show ?case
  proof (cases "n = 0")
    case False
    show ?thesis
    proof (cases r)
      case (Got bs)
      with False r same "1.IH" [OF False r [symmetric]] show ?thesis
        by (subst (1 2) read_loop.simps) (auto simp add: case_prod_unfold)
    qed (use False r same in \<open>subst (1 2) read_loop.simps; simp\<close>)+
  qed (simp add: read_loop.simps)
qed

lemma outputs_read: "outputs (fst (tcp_ReadAll d fd n)) = outputs d"
  using read_loop_outputs
  by (auto simp add: outputs_def tcp_ReadAll_def tcp_read_loop_def case_prod_unfold fun_eq_iff split: option.splits)

lemma outputs_noted [simp]: "outputs (SaveAllocations (UpdateAllocation d off v)) = outputs d"
  by (simp add: outputs_def fun_eq_iff)

lemma outputs_receive: "outputs (fst (TCP_ReceiveRequest d fd)) = outputs d"
proof -
  obtain d1 oc1 where r1: "tcp_ReadAll d fd 24 = (d1, oc1)" by fastforce
  have o1: "outputs d1 = outputs d" using outputs_read [of d fd 24] r1 by simp
  show ?thesis
  proof (cases oc1)
    case (Returns bytes)
    obtain d2 oc2 where r2: "tcp_ReadAll d1 fd (unat (rh_len (parse_request bytes))) = (d2, oc2)" by fastforce
    have "outputs d2 = outputs d" using outputs_read [of d1 fd "unat (rh_len (parse_request bytes))"] r2 o1 by simp
    then show ?thesis
      using r1 Returns r2 o1 by (cases oc2) (simp_all add: TCP_ReceiveRequest_def Let_def)
  qed (use r1 o1 in \<open>simp_all add: TCP_ReceiveRequest_def\<close>)
qed

section \<open>Replying\<close>

lemma tcp_reply_outputs:
  assumes "\<And>fd s. td_sockets d fd = Some s \<Longrightarrow> accepting s \<and> (0 \<le> fd \<longrightarrow> sk_out s = outs fd)"
  shows "\<exists>d'. TCP_SendReply d q = (d', Returns ()) \<and>
    (\<forall>fd s. td_sockets d' fd = Some s \<longrightarrow> accepting s \<and>
       (0 \<le> fd \<longrightarrow> sk_out s = (outs(m_source_fd q := outs (m_source_fd q) @ reply_frame q)) fd))"
proof (cases "0 \<le> m_source_fd q")
  case False
  then show ?thesis using assms by (auto simp add: TCP_SendReply_def)
next
  case True
  show ?thesis
  proof (cases "td_sockets d (m_source_fd q)")
    case None
    have "reply_header q \<noteq> []" using length_reply_header [of q] by fastforce
    then have "TCP_SendReply d q = (d, Returns ())"
      using True None by (simp add: TCP_SendReply_def tcp_WriteAll_def)
    then show ?thesis using assms None by auto
  next
    case (Some s)
    obtain s' where "TCP_SendReply d q = (d\<lparr>td_sockets := (td_sockets d)(m_source_fd q \<mapsto> s')\<rparr>, Returns ())"
      "accepting s'" "sk_out s' = sk_out s @ reply_frame q"
      by (rule send_reply_open [of q "m_source_fd q" d s]) (use True Some assms in auto)
    then show ?thesis using assms True Some by (auto simp add: fun_upd_def)
  qed
qed

section \<open>Accepting\<close>

lemma TryAccept_connected:
  assumes "Driver_TryAccept (TCP_driver d) ans fd = (dr, c)" and "0 \<le> c"
  obtains ip s where "fd = td_listen_fd d" and "ans = Accepted c ip s" and "td_sockets d fd \<noteq> None"
    and "dr = TCP_driver (fst (AcceptNextClient d ans))"
    and "td_sockets (fst (AcceptNextClient d ans)) = (td_sockets d)(c \<mapsto> s)"
  using assms
  by (auto simp add: TCP_TryAccept_def AcceptNextClient_def RecordClientIP_def
      split: if_splits option.splits accept_answer.splits)

lemma TryAccept_refused:
  assumes "Driver_TryAccept (TCP_driver d) ans fd = (dr, c)" and "c < 0" and "answer_ok ans"
  shows "dr = TCP_driver d"
  using assms
  by (cases ans) (auto simp add: TCP_TryAccept_def AcceptNextClient_def split: if_splits option.splits)

section \<open>The TCP driver keeps the contract\<close>

definition tcp_speaks :: "driver \<Rightarrow> (int \<Rightarrow> vec) \<Rightarrow> bool" where
  "tcp_speaks dr outs \<longleftrightarrow> (\<exists>d. dr = TCP_driver d \<and>
     (\<forall>fd s. td_sockets d fd = Some s \<longrightarrow> accepting s \<and> (0 \<le> fd \<longrightarrow> sk_out s = outs fd)))"

definition tcp_meets :: "(int \<Rightarrow> vec) \<Rightarrow> int \<Rightarrow> int \<Rightarrow> vec" where
  "tcp_meets outs fd = outs(fd := [])"

definition tcp_tells :: "(int \<Rightarrow> vec) \<Rightarrow> DriverData \<Rightarrow> int \<Rightarrow> vec" where
  "tcp_tells outs a = outs(m_source_fd a := outs (m_source_fd a) @ reply_frame a)"

lemma tcp_accepts:
  assumes "tcp_speaks dr outs" and "answer_ok ans" and "Driver_TryAccept dr ans fd = (dr', c)"
  shows "tcp_speaks dr' (if 0 \<le> c then tcp_meets outs c else outs)"
proof -
  obtain d where d: "dr = TCP_driver d"
    and outs: "\<And>fd s. td_sockets d fd = Some s \<Longrightarrow> accepting s \<and> (0 \<le> fd \<longrightarrow> sk_out s = outs fd)"
    using assms(1) by (auto simp add: tcp_speaks_def)
  show ?thesis
  proof (cases "0 \<le> c")
    case True
    obtain ip s where s: "ans = Accepted c ip s" "dr' = TCP_driver (fst (AcceptNextClient d ans))"
      "td_sockets (fst (AcceptNextClient d ans)) = (td_sockets d)(c \<mapsto> s)"
      by (rule TryAccept_connected [OF assms(3) [unfolded d] True])
    have "accepting s" "sk_out s = []" using assms(2) s(1) by simp_all
    with outs s True show ?thesis by (auto simp add: tcp_speaks_def tcp_meets_def)
  next
    case False
    then have "c < 0" by simp
    from TryAccept_refused [OF assms(3) [unfolded d] this assms(2)] show ?thesis using False assms(1) d by simp
  qed
qed

lemma tcp_receives:
  assumes "tcp_speaks dr outs"
  shows "tcp_speaks (fst (Driver_ReceiveRequest dr fd)) outs"
proof -
  obtain d where d: "dr = TCP_driver d"
    and outs: "\<And>fd s. td_sockets d fd = Some s \<Longrightarrow> accepting s \<and> (0 \<le> fd \<longrightarrow> sk_out s = outs fd)"
    using assms by (auto simp add: tcp_speaks_def)
  have "accepting s' \<and> (0 \<le> fd' \<longrightarrow> sk_out s' = outs fd')"
    if s': "td_sockets (fst (TCP_ReceiveRequest d fd)) fd' = Some s'" for fd' s'
  proof -
    have "outputs d fd' = Some (sk_out s', sk_wr s')"
      using fun_cong [OF outputs_receive [of d fd], of fd'] s' by (simp add: outputs_def)
    then obtain s where s: "td_sockets d fd' = Some s" "sk_out s = sk_out s'" "sk_wr s = sk_wr s'"
      by (auto simp add: outputs_def)
    show ?thesis using outs [OF s(1)] s(2,3) by (simp add: accepting_def)
  qed
  then show ?thesis by (simp add: d tcp_speaks_def)
qed

lemma tcp_replies:
  assumes "tcp_speaks dr outs"
  shows "\<exists>dr'. Driver_SendReply dr q = (dr', Returns ()) \<and> tcp_speaks dr' (tcp_tells outs q)"
proof -
  obtain d where d: "dr = TCP_driver d"
    and outs: "\<And>fd s. td_sockets d fd = Some s \<Longrightarrow> accepting s \<and> (0 \<le> fd \<longrightarrow> sk_out s = outs fd)"
    using assms by (auto simp add: tcp_speaks_def)
  from tcp_reply_outputs [of d outs q, OF outs] show ?thesis
    by (auto simp add: d tcp_speaks_def tcp_tells_def)
qed

lemma tcp_forgets:
  assumes "tcp_speaks dr outs"
  shows "tcp_speaks (Driver_RemoveClientFD dr fd) outs"
  using assms by (auto simp add: tcp_speaks_def TCP_RemoveClientFD_def ForgetClientIP_def Let_def)

interpretation tcpdc: driver_contract tcp_speaks tcp_meets tcp_tells
proof
  show "tcp_tells w (q\<lparr>m_buffer := b\<rparr>) = tcp_tells w q" if "m_status q = FAILURE" for q b w
    using that by (simp add: tcp_tells_def)
qed (rule tcp_accepts tcp_receives tcp_replies tcp_forgets; assumption)+

text \<open>The promise of the TCP server is that contract.\<close>

lemma keeps_promise_contract: "keeps_promise sv pr \<longleftrightarrow> serves_as tcp_speaks sv pr"
  by (auto simp add: keeps_promise_def serves_as_def tcp_speaks_def)

lemma promise_step_contract: "promise_step = contract_step tcp_meets tcp_tells"
proof (intro ext)
  show "promise_step pr ev = contract_step tcp_meets tcp_tells pr ev" for pr ev
    by (cases "(pr, ev)" rule: promise_step.cases)
       (simp_all add: contract_step_def tcp_meets_def tcp_tells_def split: option.splits prod.splits)
qed

lemma run_keeps_promise:
  assumes "server_run sv evs sv'" and "keeps_promise sv pr" and "\<forall>q. Served q \<in> set evs \<longrightarrow> range_ok q"
  shows "keeps_promise sv' (promised pr evs)"
  using tcpdc.run_serves [OF assms(1) _ assms(3)] assms(2)
  by (simp add: keeps_promise_contract promised_def promise_step_contract)

section \<open>Every request is served once\<close>

fun received_in :: "event list \<Rightarrow> DriverData list" where
  "received_in [] = []"
| "received_in (Received q # evs) = q # received_in evs"
| "received_in (ev # evs) = received_in evs"

fun served_in :: "event list \<Rightarrow> DriverData list" where
  "served_in [] = []"
| "served_in (Served q # evs) = q # served_in evs"
| "served_in (ev # evs) = served_in evs"

lemma received_in_append [simp]: "received_in (as @ bs) = received_in as @ received_in bs"
  by (induction as rule: received_in.induct) simp_all

lemma served_in_append [simp]: "served_in (as @ bs) = served_in as @ served_in bs"
  by (induction as rule: served_in.induct) simp_all

lemma Execute_pool: "sv_pool (fst (mediator_Execute sv q)) = sv_pool sv"
  using Execute_replies [of sv q] by (simp add: replies_once_def)

lemma receive_pool: "mediator_receive sv fd = (sv1, oc) \<Longrightarrow> sv_pool sv1 = sv_pool sv"
  by (auto simp add: mediator_receive_def split: prod.splits)

lemma served_in_set: "q \<in> set (served_in evs) \<longleftrightarrow> Served q \<in> set evs"
  by (induction evs rule: served_in.induct) auto

text \<open>Requests received: waiting or being executed, or served.\<close>

definition accounted :: "server \<Rightarrow> event list \<Rightarrow> bool" where
  "accounted sv evs \<longleftrightarrow>
     image_mset FunctionCommand (mset (received_in evs)) =
       in_hand (sv_pool sv) + image_mset FunctionCommand (mset (served_in evs))"

text \<open>Every request has its own command, so counting commands is counting requests.\<close>

lemma inj_FunctionCommand: "inj (FunctionCommand :: DriverData \<Rightarrow> DriverData command)"
  by (simp add: inj_def FunctionCommand_def)

lemma FunctionCommand_subseteq:
  fixes A B :: "DriverData multiset"
  assumes "image_mset FunctionCommand A \<subseteq># image_mset FunctionCommand B"
  shows "A \<subseteq># B"
  using image_mset_subseteq_mono [OF assms, of "inv FunctionCommand"]
  by (simp only: multiset.map_comp inv_o_cancel [OF inj_FunctionCommand] multiset.map_id)

lemma FunctionCommand_same:
  fixes A B :: "DriverData multiset"
  shows "image_mset FunctionCommand A = image_mset FunctionCommand B \<Longrightarrow> A = B"
  by (simp add: FunctionCommand_subseteq subset_mset.antisym)

lemma accounted_commands:
  assumes "accounted sv evs"
  shows "\<forall>c \<in># in_hand (sv_pool sv). \<exists>q. c = FunctionCommand q"
proof
  fix c
  assume "c \<in># in_hand (sv_pool sv)"
  then have "c \<in># image_mset FunctionCommand (mset (received_in evs))"
    using assms by (simp add: accounted_def)
  then show "\<exists>q. c = FunctionCommand q" by auto
qed

lemma in_hand_quiet:
  assumes "worker_step p p'" and "tp_done p' = tp_done p"
    and "\<forall>c \<in># in_hand p. \<exists>q. c = FunctionCommand q"
  shows "in_hand p' = in_hand p"
  using assms(1)
proof cases
  case (takes k i c q)
  then show ?thesis using in_hand_takes by simp
next
  case (executes k c w executed)
  have "Busy c \<in> set (tp_threads p)" using executes(2,3) by (metis nth_mem)
  then have "c \<in># in_hand p" by (force simp add: in_hand_def)
  then obtain q where "c = FunctionCommand q" using assms(3) by blast
  then have "executed \<noteq> []" using executes(4) by (auto simp add: FunctionCommand_def)
  then show ?thesis using executes(1) assms(2) by simp
next
  case (sleeps k)
  then show ?thesis
    using busy_sum_update [OF sleeps(2), of Asleep] by (simp add: in_hand_def)
qed

lemma in_hand_served:
  assumes "worker_step p p'" and "tp_done p' = tp_done p @ [c]"
  shows "add_mset c (in_hand p') = in_hand p"
  using assms(1)
proof cases
  case (executes k c' w executed)
  then have "executed = [c]" using assms(2) by simp
  then have "c' = c" "busy_with w = {#}" using executes(4) by (cases c'; auto split: if_splits)+
  then show ?thesis using in_hand_executes executes by simp
qed (use assms(2) in simp_all)

lemma accounted_step:
  assumes "server_step sv ev sv'" and "accounted sv evs"
  shows "accounted sv' (evs @ [ev])"
  using assms(1)
proof cases
  case (notifies fd ans)
  from notifies(5) show ?thesis
  proof (cases rule: Notify_cases)
    case (connected d c)
    then show ?thesis
      using assms(2) notifies(1) mediator_add_fields(3) [OF connected(3)] by (simp add: accounted_def)
  next
    case (received d c sv1 q)
    then show ?thesis
      using assms(2) notifies(1) receive_pool [OF received(3)] by (simp add: accounted_def in_hand_def)
  next
    case (dropped d c sv1 e sv2)
    then show ?thesis
      using assms(2) notifies(1) receive_pool [OF dropped(3)] mediator_remove_fields(3) [OF dropped(4)]
      by (simp add: accounted_def)
  qed
next
  case (works p)
  have "\<forall>c \<in># in_hand (sv_pool sv). \<exists>q. c = FunctionCommand q" by (rule accounted_commands [OF assms(2)])
  then have "in_hand p = in_hand (sv_pool sv)" using in_hand_quiet works(3,4) by blast
  then show ?thesis using assms(2) works(1,2) by (simp add: accounted_def)
next
  case (serves p prio q oc)
  have c: "add_mset (User_command prio q) (in_hand p) = in_hand (sv_pool sv)"
    by (rule in_hand_served [OF serves(2,3)])
  then have "User_command prio q \<in># in_hand (sv_pool sv)" by (metis union_single_eq_member)
  then have "User_command prio q = FunctionCommand q"
    using accounted_commands [OF assms(2)] by (auto simp add: FunctionCommand_def)
  with c have "add_mset (FunctionCommand q) (in_hand p) = in_hand (sv_pool sv)" by simp
  moreover have "sv_pool sv' = p" using Execute_pool [of "sv\<lparr>sv_pool := p\<rparr>" q] serves(4) by simp
  ultimately show ?thesis using assms(2) serves(1) by (simp add: accounted_def)
qed

end
