(* ===== verification/Server_Clients.thy ===== *)
theory Server_Clients
  imports Server_Refinement
begin

text \<open>
  Connections of the running server: what one \<open>Notify\<close> does on every branch, the invariant
  that ties the reactor's descriptors to the driver's clients, and the two ways in which one
  connection takes the others down: a failed \<^verbatim>\<open>accept\<close> closes the listening socket, and a
  client that stops in the middle of a request holds the reactor.
\<close>

section \<open>Notify on a client\<close>

lemma TryAccept_client: "fd \<noteq> td_listen_fd d \<Longrightarrow> TCP_TryAccept d ans fd = (d, -1)"
  by (simp add: TCP_TryAccept_def)

lemma notify_whole_request:
  assumes "sv_driver sv = TCP_driver d" and "fd \<noteq> td_listen_fd d" and "wire_request fd q"
    and "td_sockets d fd = Some s" and "sock_wf s" and "stream s = encode_request q @ rest"
  obtains s' where "mediator_Notify ans sv fd =
      (sv\<lparr>sv_driver := TCP_driver (noted (d\<lparr>td_sockets := (td_sockets d)(fd \<mapsto> s')\<rparr>) q),
          sv_pool := (sv_pool sv)\<lparr>tp_command := tp_command (sv_pool sv) @ [FunctionCommand q]\<rparr>\<rparr>, Returns ())"
    and "sock_wf s'" and "stream s' = rest" and "sk_out s' = sk_out s"
    and "sk_end s' = sk_end s" and "notify_event ans sv fd = Received q"
proof -
  obtain s' where s': "TCP_ReceiveRequest d fd =
      (noted (d\<lparr>td_sockets := (td_sockets d)(fd \<mapsto> s')\<rparr>) q, Returns q)"
    "sock_wf s'" "stream s' = rest" "sk_out s' = sk_out s" "sk_end s' = sk_end s"
    by (rule receive_request_front [OF assms(3-6)])
  show thesis
    by (rule that [of s'])
       (use s' assms(1,2) in \<open>simp_all add: mediator_Notify_def notify_event_def mediator_receive_def
          mediator_enqueue_def pool_AddCommand_def wpq_Push_def TryAccept_client Let_def\<close>)
qed

lemma RemoveClientFD_socket [simp]:
  "TCP_RemoveClientFD (d\<lparr>td_sockets := (td_sockets d)(fd \<mapsto> s)\<rparr>) fd = TCP_RemoveClientFD d fd"
  by (simp add: TCP_RemoveClientFD_def ForgetClientIP_def Let_def)

lemma notify_partial_request:
  assumes "sv_driver sv = TCP_driver d" and "fd \<noteq> td_listen_fd d" and "wire_request fd q"
    and "td_sockets d fd = Some s" and "sock_wf s"
    and "stream s = take k (encode_request q)" and "k < length (encode_request q)"
    and "fd \<in> map_keys (rx_watched (sv_reactor sv))"
  shows "if sk_end s = Quiet
    then \<exists>s'. mediator_Notify ans sv fd =
      (sv\<lparr>sv_driver := TCP_driver (d\<lparr>td_sockets := (td_sockets d)(fd \<mapsto> s')\<rparr>)\<rparr>, Blocks)
    else mediator_Notify ans sv fd =
      (sv\<lparr>sv_driver := TCP_driver (TCP_RemoveClientFD d fd),
          sv_reactor := (sv_reactor sv)\<lparr>rx_watched := map_erase fd (rx_watched (sv_reactor sv))\<rparr>\<rparr>, Returns ())"
proof -
  obtain s' where s': "TCP_ReceiveRequest d fd = (d\<lparr>td_sockets := (td_sockets d)(fd \<mapsto> s')\<rparr>,
      case sk_end s of Eof \<Rightarrow> Throws (Driver_error ''Client disconnected'')
      | Reset \<Rightarrow> Throws (Driver_error (''Read failed: '' @ sk_errno s)) | Quiet \<Rightarrow> Blocks)"
    by (rule receive_request_truncated [OF assms(3-7)])
  show ?thesis
    using s' assms(1,2,8)
    by (cases "sk_end s") (auto simp add: mediator_Notify_def mediator_receive_def mediator_remove_def
        Reactor_Remove_def TryAccept_client Let_def)
qed

section \<open>Descriptors\<close>

text \<open>
  The reactor watches the signal, the listening socket as long as it is open, and the clients
  the driver knows.
\<close>

definition watch_ok :: "server \<Rightarrow> bool" where
  "watch_ok sv \<longleftrightarrow>
     (\<exists>d. sv_driver sv = TCP_driver d \<and> clients_ok d \<and> map_inv (rx_watched (sv_reactor sv)) \<and>
        map_keys (rx_watched (sv_reactor sv)) =
          insert (rx_signal_fd (sv_reactor sv))
            (map_keys (td_client_fds d) \<union> (if td_sockets d (td_listen_fd d) = None then {} else {td_listen_fd d})) \<and>
        rx_signal_fd (sv_reactor sv) \<notin> insert (td_listen_fd d) (map_keys (td_client_fds d)))"

lemma receive_same_clients:
  assumes "sv_driver sv = TCP_driver d" and "mediator_receive sv fd = (sv1, oc)"
  obtains d1 where "sv1 = sv\<lparr>sv_driver := TCP_driver d1\<rparr>" and "same_clients d d1"
  using assms same_clients_receive [of d fd]
  by (cases "TCP_ReceiveRequest d fd") (auto simp add: mediator_receive_def)

lemma same_clients_open:
  assumes "same_clients d d'"
  shows "td_sockets d' fd = None \<longleftrightarrow> td_sockets d fd = None"
proof -
  have "fd \<in> dom (td_sockets d') \<longleftrightarrow> fd \<in> dom (td_sockets d)" using assms by (simp add: same_clients_def)
  then show ?thesis unfolding domIff by argo
qed

lemma watch_ok_cong:
  "sv_driver sv' = sv_driver sv \<Longrightarrow> sv_reactor sv' = sv_reactor sv \<Longrightarrow> watch_ok sv' \<longleftrightarrow> watch_ok sv"
  by (simp add: watch_ok_def)

lemma watch_ok_same:
  assumes "watch_ok sv" and "sv_driver sv = TCP_driver d" and "same_clients d d'"
    and "sv_driver sv' = TCP_driver d'" and "sv_reactor sv' = sv_reactor sv"
  shows "watch_ok sv'"
  using assms clients_ok_same [OF assms(3)] same_clients_open [OF assms(3)]
  by (simp add: watch_ok_def same_clients_def)

lemma watch_ok_connected:
  assumes "watch_ok sv" and "sv_driver sv = TCP_driver d" and "kernel_accepts sv (Accepted c ip s)"
    and "td_sockets d (td_listen_fd d) \<noteq> None"
  shows "mediator_add (sv\<lparr>sv_driver := TCP_driver (fst (AcceptNextClient d (Accepted c ip s)))\<rparr>) c =
      (sv\<lparr>sv_driver := TCP_driver (fst (AcceptNextClient d (Accepted c ip s))),
          sv_reactor := (sv_reactor sv)\<lparr>rx_watched := map_put c () (rx_watched (sv_reactor sv))\<rparr>\<rparr>, Returns ())"
    and "watch_ok (sv\<lparr>sv_driver := TCP_driver (fst (AcceptNextClient d (Accepted c ip s))),
          sv_reactor := (sv_reactor sv)\<lparr>rx_watched := map_put c () (rx_watched (sv_reactor sv))\<rparr>\<rparr>)"
proof -
  have c: "0 \<le> c" "c \<noteq> rx_signal_fd (sv_reactor sv)" "td_sockets d c = None"
    using assms(2,3) by simp_all
  have ok: "clients_ok d" using assms(1,2) by (simp add: watch_ok_def)
  then have not_client: "c \<notin> map_keys (td_client_fds d)" using c(3) unfolding clients_ok_def by blast
  have "c \<noteq> td_listen_fd d" using c(3) assms(4) by auto
  then have new: "c \<notin> map_keys (rx_watched (sv_reactor sv))"
    using assms(1,2,4) c(2) not_client by (auto simp add: watch_ok_def)
  let ?d = "fst (AcceptNextClient d (Accepted c ip s))"
  have fields: "td_listen_fd ?d = td_listen_fd d" "map_keys (td_client_fds ?d) = insert c (map_keys (td_client_fds d))"
    "td_sockets ?d = (td_sockets d)(c \<mapsto> s)"
    using assms(4) by (auto simp add: AcceptNextClient_def RecordClientIP_def)
  show "mediator_add (sv\<lparr>sv_driver := TCP_driver ?d\<rparr>) c =
      (sv\<lparr>sv_driver := TCP_driver ?d,
          sv_reactor := (sv_reactor sv)\<lparr>rx_watched := map_put c () (rx_watched (sv_reactor sv))\<rparr>\<rparr>, Returns ())"
    using new fields(3) by (simp add: mediator_add_def Reactor_Add_def)
  show "watch_ok (sv\<lparr>sv_driver := TCP_driver ?d,
          sv_reactor := (sv_reactor sv)\<lparr>rx_watched := map_put c () (rx_watched (sv_reactor sv))\<rparr>\<rparr>)"
    using clients_ok_accept [OF ok c(1,3), of ip s] assms(1,2,4) c(2) \<open>c \<noteq> td_listen_fd d\<close>
    by (auto simp add: watch_ok_def fields)
qed

lemma watch_ok_dropped:
  assumes "watch_ok sv" and "sv_driver sv = TCP_driver d"
    and "fd \<in> map_keys (rx_watched (sv_reactor sv))" and "fd \<noteq> rx_signal_fd (sv_reactor sv)"
  shows "watch_ok (sv\<lparr>sv_driver := TCP_driver (TCP_RemoveClientFD d fd),
    sv_reactor := (sv_reactor sv)\<lparr>rx_watched := map_erase fd (rx_watched (sv_reactor sv))\<rparr>\<rparr>)"
proof -
  let ?d = "TCP_RemoveClientFD d fd"
  have ok: "clients_ok d" and inv: "map_inv (td_client_fds d)"
    using assms(1,2) by (auto simp add: watch_ok_def clients_ok_def)
  have "td_listen_fd ?d = td_listen_fd d" "map_keys (td_client_fds ?d) = map_keys (td_client_fds d) - {fd}"
    "td_sockets ?d = (td_sockets d)(fd := None)"
    using inv by (simp_all add: TCP_RemoveClientFD_def ForgetClientIP_def Let_def)
  moreover have "td_listen_fd d \<notin> map_keys (td_client_fds d)" using ok by (auto simp add: clients_ok_def)
  ultimately show ?thesis
    using clients_ok_remove [OF ok, of fd] assms by (auto simp add: watch_ok_def)
qed

lemma watch_ok_notify:
  assumes "watch_ok sv" and "kernel_accepts sv ans"
    and "fd \<in> map_keys (rx_watched (sv_reactor sv))" and "fd \<noteq> rx_signal_fd (sv_reactor sv)"
    and "mediator_Notify ans sv fd = (sv', oc)"
  shows "(oc = Returns () \<longrightarrow> watch_ok sv') \<and> (\<forall>e. oc \<noteq> Throws e)"
proof -
  obtain d where d: "sv_driver sv = TCP_driver d" using assms(1) by (auto simp add: watch_ok_def)
  obtain dr c where acc: "Driver_TryAccept (TCP_driver d) ans fd = (dr, c)" by fastforce
  show ?thesis
  proof (cases "0 \<le> c")
    case True
    obtain ip s where s: "fd = td_listen_fd d" "ans = Accepted c ip s" "td_sockets d fd \<noteq> None"
      "dr = TCP_driver (fst (AcceptNextClient d ans))"
      by (rule TryAccept_connected [OF acc True])
    have "td_sockets d (td_listen_fd d) \<noteq> None" using s(1,3) by simp
    from watch_ok_connected [OF assms(1) d _ this, of c ip s] assms(2,5) s(2,4) acc d True show ?thesis
      by (auto simp add: mediator_Notify_def Let_def simp del: kernel_accepts.simps)
  next
    case False
    then have "dr = TCP_driver d" using TryAccept_refused [OF acc _ kernel_accepts_ok [OF assms(2)]] by simp
    then have acc': "Driver_TryAccept (sv_driver sv) ans fd = (TCP_driver d, c)" "sv\<lparr>sv_driver := TCP_driver d\<rparr> = sv"
      using acc d by simp_all
    obtain sv1 oc1 where rcv: "mediator_receive sv fd = (sv1, oc1)" by fastforce
    obtain d1 where d1: "sv1 = sv\<lparr>sv_driver := TCP_driver d1\<rparr>" "same_clients d d1"
      by (rule receive_same_clients [OF d rcv])
    have ok1: "watch_ok (sv\<lparr>sv_driver := TCP_driver d1\<rparr>)" by (rule watch_ok_same [OF assms(1) d d1(2)]) simp_all
    have unfold: "mediator_Notify ans sv fd =
      scatch (sbind (sv1, oc1) mediator_enqueue) (\<lambda>sv2 e. sthen (mediator_remove sv2 fd) (\<lambda>sv3.
        (sv3\<lparr>sv_driver := Driver_RemoveClientFD (sv_driver sv3) fd\<rparr>, Returns ())))"
      using False by (simp add: mediator_Notify_def acc' rcv Let_def)
    show ?thesis
    proof (cases oc1)
      case (Returns q)
      have "watch_ok (sv\<lparr>sv_driver := TCP_driver d1, sv_pool := p\<rparr>)" for p
        by (rule watch_ok_same [OF ok1 _ same_clients_refl]) simp_all
      then show ?thesis
        using assms(5) Returns
        by (auto simp add: unfold mediator_enqueue_def pool_AddCommand_def d1(1))
    next
      case (Throws e)
      have "watch_ok (sv\<lparr>sv_driver := TCP_driver (TCP_RemoveClientFD d1 fd),
          sv_reactor := (sv_reactor sv)\<lparr>rx_watched := map_erase fd (rx_watched (sv_reactor sv))\<rparr>\<rparr>)"
        using watch_ok_dropped [OF ok1, of d1 fd] assms(3,4) by simp
      moreover have "sv_driver sv' = TCP_driver (TCP_RemoveClientFD d1 fd)" "oc = Returns ()"
        "sv_reactor sv' = (sv_reactor sv)\<lparr>rx_watched := map_erase fd (rx_watched (sv_reactor sv))\<rparr>"
        using assms(3,5) Throws by (auto simp add: unfold mediator_remove_def Reactor_Remove_def d1(1))
      ultimately show ?thesis by (simp add: watch_ok_def)
    qed (use assms(5) in \<open>auto simp add: unfold\<close>)
  qed
qed

section \<open>The invariant in a run\<close>

text \<open>Serving a request opens and closes nothing.\<close>

definition same_connections :: "server \<Rightarrow> server \<Rightarrow> bool" where
  "same_connections sv sv' \<longleftrightarrow> sv_reactor sv' = sv_reactor sv \<and>
     (\<forall>d. sv_driver sv = TCP_driver d \<longrightarrow> (\<exists>d'. sv_driver sv' = TCP_driver d' \<and> same_clients d d'))"

lemma same_connections_reply: "same_connections sv (fst (mediator_reply sv q))"
  using same_clients_reply by (auto simp add: same_connections_def mediator_reply_def case_prod_unfold)

lemma same_connections_Execute: "same_connections sv (fst (mediator_Execute sv q))"
  using Execute_replies [of sv q, unfolded replies_once_def] same_clients_reply same_clients_refl
  by (auto simp add: same_connections_def)

lemma watch_ok_step:
  assumes "server_step sv ev sv'" and "watch_ok sv"
  shows "watch_ok sv'"
  using assms(1)
proof cases
  case (notifies fd ans)
  then show ?thesis using watch_ok_notify [OF assms(2) notifies(4,2,3,5)] by simp
next
  case (works p)
  then show ?thesis using assms(2) by (simp add: watch_ok_def)
next
  case (serves p prio q oc)
  obtain d where d: "sv_driver sv = TCP_driver d" using assms(2) by (auto simp add: watch_ok_def)
  obtain d' where "sv_driver sv' = TCP_driver d'" "same_clients d d'" "sv_reactor sv' = sv_reactor sv"
    using same_connections_Execute [of "sv\<lparr>sv_pool := p\<rparr>" q] serves(4) d
    by (auto simp add: same_connections_def)
  then show ?thesis using watch_ok_same [OF assms(2) d] by blast
qed

section \<open>A started server\<close>

lemma TCPDriverComm_fields:
  assumes "TCPDriverComm la env port = (d, Returns ())" and "td_sockets env = (\<lambda>fd. None)"
  shows "td_listen_fd d = la_fd la" and "0 \<le> td_listen_fd d" and "td_client_fds d = []" and "td_fd_to_ip d = []"
    and "td_sockets d = [td_listen_fd d \<mapsto> listen_socket]"
  using assms by (auto simp add: TCPDriverComm_def LoadAllocations_def Let_def split: if_splits option.splits prod.splits)

lemma started_watch_ok:
  assumes "TCPDriverComm la env port = (d, Returns ())" and "td_sockets env = (\<lambda>fd. None)"
    and "RunServer hardware ra (TCP_driver d) st = Returns sv"
  shows "watch_ok sv"
proof -
  note d = TCPDriverComm_fields [OF assms(1,2)] and sv = RunServer_result [OF assms(3)]
  have "map_inv (rx_watched (sv_reactor sv))" unfolding sv(4) by (simp add: map_inv_def)
  then show ?thesis
    using sv d by (auto simp add: watch_ok_def clients_ok_def TCP_GetFD_def)
qed

lemma started_keeps_promise:
  assumes "TCPDriverComm la env port = (d, Returns ())" and "td_sockets env = (\<lambda>fd. None)"
    and "RunServer hardware ra (TCP_driver d) (Raid_storage r) = Returns sv" and "raid_ok r"
  shows "keeps_promise sv (disk_of r, \<lambda>fd. [])"
  using TCPDriverComm_fields [OF assms(1,2)] RunServer_result [OF assms(3)] assms(4)
  by (auto simp add: keeps_promise_def listen_socket_def accepting_def)

lemma idle_busy_with: "\<Sum>\<^sub># (image_mset busy_with (mset (replicate n Idle))) = {#}"
  by (induction n) simp_all

lemma started_accounted:
  assumes "RunServer hardware ra drv st = Returns sv"
  shows "accounted sv []" and "tp_done (sv_pool sv) = []"
  using RunServer_result(3) [OF assms]
  by (simp_all add: accounted_def in_hand_def ThreadPool_def InitThreads_def idle_busy_with del: mset_replicate)

lemma run_accounted:
  assumes "RunServer hardware ra drv st = Returns sv" and "server_run sv evs sv'"
  shows "accounted sv' evs"
  using assms(2) started_accounted(1) [OF assms(1)]
  by (induction rule: server_run.induct) (auto intro: accounted_step)

section \<open>A server that lost its listening socket\<close>

definition deaf :: "server \<Rightarrow> bool" where
  "deaf sv \<longleftrightarrow> (\<exists>d. sv_driver sv = TCP_driver d \<and> td_sockets d (td_listen_fd d) = None)"

lemma deaf_same_clients:
  assumes "same_clients d d'" and "td_sockets d (td_listen_fd d) = None"
  shows "td_sockets d' (td_listen_fd d') = None"
proof -
  have "td_listen_fd d' = td_listen_fd d" using assms(1) by (simp add: same_clients_def)
  then show ?thesis using same_clients_open [OF assms(1)] assms(2) by simp
qed

lemma deaf_same:
  assumes "same_connections sv sv'" and "deaf sv"
  shows "deaf sv'"
proof -
  obtain d where d: "sv_driver sv = TCP_driver d" "td_sockets d (td_listen_fd d) = None"
    using assms(2) by (auto simp add: deaf_def)
  then obtain d' where "sv_driver sv' = TCP_driver d'" "same_clients d d'"
    using assms(1) by (auto simp add: same_connections_def)
  then show ?thesis using deaf_same_clients d(2) by (auto simp add: deaf_def)
qed

lemma deaf_step:
  assumes "server_step sv ev sv'" and "deaf sv"
  shows "deaf sv' \<and> (\<forall>fd. ev \<noteq> Connected fd)"
  using assms(1)
proof cases
  case (notifies fd ans)
  obtain d where d: "sv_driver sv = TCP_driver d" "td_sockets d (td_listen_fd d) = None"
    using assms(2) by (auto simp add: deaf_def)
  have refused: "Driver_TryAccept (sv_driver sv) ans fd = (TCP_driver d, -1)"
    using d by (simp add: TCP_TryAccept_def AcceptNextClient_def)
  have sv: "sv\<lparr>sv_driver := TCP_driver d\<rparr> = sv" using d(1) by simp
  have deaf1: "deaf sv1" if rcv: "mediator_receive sv fd = (sv1, oc)" for sv1 oc
  proof -
    obtain d1 where d1: "sv1 = sv\<lparr>sv_driver := TCP_driver d1\<rparr>" "same_clients d d1"
      by (rule receive_same_clients [OF d(1) rcv])
    then show ?thesis using deaf_same_clients [OF d1(2) d(2)] by (simp add: deaf_def)
  qed
  from notifies(5) show ?thesis
  proof (cases rule: Notify_cases)
    case (connected dr c)
    then show ?thesis using refused by simp
  next
    case (received dr c sv1 q)
    then show ?thesis using deaf1 [of sv1] refused sv notifies(1) by (simp add: deaf_def)
  next
    case (dropped dr c sv1 e sv2)
    then have "deaf sv1" using deaf1 refused sv by simp
    then have "deaf sv2" using mediator_remove_fields(1) [OF dropped(4)] by (simp add: deaf_def)
    then show ?thesis
      using notifies(1)
      by (auto simp add: dropped(5,6) deaf_def TCP_RemoveClientFD_def ForgetClientIP_def Let_def)
  qed
next
  case (works p)
  then show ?thesis using assms(2) by (simp add: deaf_def)
next
  case (serves p prio q oc)
  have "deaf (sv\<lparr>sv_pool := p\<rparr>)" using assms(2) by (simp add: deaf_def)
  then have "deaf sv'" using deaf_same [OF same_connections_Execute [of "sv\<lparr>sv_pool := p\<rparr>" q]] serves(4) by simp
  then show ?thesis using serves(1) by simp
qed

lemma deaf_run: "server_run sv evs sv' \<Longrightarrow> deaf sv \<Longrightarrow> deaf sv' \<and> (\<forall>fd. Connected fd \<notin> set evs)"
  by (induction rule: server_run.induct) (auto dest: deaf_step)

text \<open>A connection is open until it is dropped.\<close>

definition open_at :: "int \<Rightarrow> server \<Rightarrow> bool" where
  "open_at fd sv \<longleftrightarrow> (\<exists>d s. sv_driver sv = TCP_driver d \<and> td_sockets d fd = Some s)"

lemma open_same_clients:
  assumes "same_clients d d'" and "td_sockets d fd \<noteq> None"
  shows "\<exists>s. td_sockets d' fd = Some s"
  using same_clients_open [OF assms(1), of fd] assms(2) by (cases "td_sockets d' fd") auto

lemma open_step:
  assumes "server_step sv ev sv'" and "ev \<noteq> Dropped x" and "open_at x sv"
  shows "open_at x sv'"
  using assms(1)
proof cases
  case (notifies fd ans)
  obtain d where d: "sv_driver sv = TCP_driver d" "td_sockets d x \<noteq> None"
    using assms(3) by (auto simp add: open_at_def)
  have open1: "open_at x sv1" if rcv: "mediator_receive sv fd = (sv1, oc)" for sv1 oc
  proof -
    obtain d1 where d1: "sv1 = sv\<lparr>sv_driver := TCP_driver d1\<rparr>" "same_clients d d1"
      by (rule receive_same_clients [OF d(1) rcv])
    then show ?thesis using open_same_clients [OF d1(2) d(2)] by (auto simp add: open_at_def)
  qed
  from notifies(5) show ?thesis
  proof (cases rule: Notify_cases)
    case (connected dr c)
    obtain ip s where "dr = TCP_driver (fst (AcceptNextClient d ans))"
      "td_sockets (fst (AcceptNextClient d ans)) = (td_sockets d)(c \<mapsto> s)"
      by (rule TryAccept_connected [OF connected(1) [unfolded d(1)] connected(2)])
    then show ?thesis using mediator_add_fields(1) [OF connected(3)] d(2) by (auto simp add: open_at_def)
  next
    case (received dr c sv1 q)
    have "sv\<lparr>sv_driver := dr\<rparr> = sv"
      using TryAccept_refused [OF received(1) [unfolded d(1)] received(2) kernel_accepts_ok [OF notifies(4)]] d(1) by simp
    then show ?thesis using open1 received(3,4) by (simp add: open_at_def)
  next
    case (dropped dr c sv1 e sv2)
    have "sv\<lparr>sv_driver := dr\<rparr> = sv"
      using TryAccept_refused [OF dropped(1) [unfolded d(1)] dropped(2) kernel_accepts_ok [OF notifies(4)]] d(1) by simp
    then have "open_at x sv2"
      using open1 dropped(3) mediator_remove_fields(1) [OF dropped(4)] by (simp add: open_at_def)
    moreover have "x \<noteq> fd" using notifies(1) dropped(6) assms(2) by auto
    ultimately show ?thesis
      by (auto simp add: dropped(5) open_at_def TCP_RemoveClientFD_def ForgetClientIP_def Let_def)
  qed
next
  case (works p)
  then show ?thesis using assms(3) by (simp add: open_at_def)
next
  case (serves p prio q oc)
  obtain d where d: "sv_driver sv = TCP_driver d" "td_sockets d x \<noteq> None"
    using assms(3) by (auto simp add: open_at_def)
  then obtain d' where "sv_driver sv' = TCP_driver d'" "same_clients d d'"
    using same_connections_Execute [of "sv\<lparr>sv_pool := p\<rparr>" q] serves(4) by (auto simp add: same_connections_def)
  then show ?thesis using open_same_clients d(2) by (fastforce simp add: open_at_def)
qed

text \<open>A connection that was accepted and never dropped is open at the end of the run.\<close>

lemma connected_open:
  assumes "server_step sv (Connected x) sv'" and "watch_ok sv"
  shows "open_at x sv'"
  using assms(1)
proof cases
  case (notifies fd ans)
  obtain d where d: "sv_driver sv = TCP_driver d" using assms(2) by (auto simp add: watch_ok_def)
  from notifies(5) show ?thesis
  proof (cases rule: Notify_cases)
    case (connected dr c)
    obtain ip s where "dr = TCP_driver (fst (AcceptNextClient d ans))"
      "td_sockets (fst (AcceptNextClient d ans)) = (td_sockets d)(c \<mapsto> s)"
      by (rule TryAccept_connected [OF connected(1) [unfolded d] connected(2)])
    moreover have "x = c" using notifies(1) connected(4) by simp
    ultimately show ?thesis using mediator_add_fields(1) [OF connected(3)] by (auto simp add: open_at_def)
  qed (use notifies(1) in simp_all)
qed

lemma run_open:
  assumes "server_run sv (as @ Connected x # bs) sv'" and "watch_ok sv" and "Dropped x \<notin> set bs"
  shows "open_at x sv'"
  using assms(1,3)
proof (induction bs arbitrary: sv' rule: rev_induct)
  case Nil
  from Nil.prems(1) obtain sv1 where "server_run sv as sv1" "server_step sv1 (Connected x) sv'"
    by (auto elim: server_run.cases)
  then show ?case
    using connected_open server_run_keeps [of sv as sv1 watch_ok] assms(2) watch_ok_step by blast
next
  case (snoc ev bs)
  from snoc.prems(1) obtain sv1 where "server_run sv (as @ Connected x # bs) sv1" "server_step sv1 ev sv'"
    by (cases rule: server_run.cases) (auto simp flip: append_Cons append_assoc)
  then show ?case using snoc.IH snoc.prems(2) open_step by auto
qed

lemma read_listen_socket:
  assumes "td_sockets d fd = Some listen_socket"
  shows "TCP_ReceiveRequest d fd =
    (d, Throws (Driver_error ''Read failed: Transport endpoint is not connected''))"
proof -
  have "tcp_read_loop listen_socket 24 =
      (listen_socket, Throws (Driver_error ''Read failed: Transport endpoint is not connected''))"
    by (simp add: tcp_read_loop_def read_loop.simps sys_read_def listen_socket_def)
  moreover have "d\<lparr>td_sockets := (td_sockets d)(fd \<mapsto> listen_socket)\<rparr> = d"
    using assms by (simp only: fun_upd_triv [of "td_sockets d" fd, unfolded assms]) simp
  ultimately show ?thesis using assms by (simp add: TCP_ReceiveRequest_def tcp_ReadAll_def)
qed

section \<open>Properties\<close>


text \<open>C22: A failed \<^verbatim>\<open>accept\<close> (out of descriptors, or a client that gave up in the queue) is taken
  for a request on the listening socket: its read fails, and the socket is removed from the
  reactor and closed. From then on no client is ever accepted again.\<close>

theorem failed_accept_closes_server:
  assumes "watch_ok sv" and "sv_driver sv = TCP_driver d" and "td_sockets d (td_listen_fd d) = Some listen_socket"
  shows "\<exists>sv' d'. mediator_Notify Accept_failed sv (td_listen_fd d) = (sv', Returns ()) \<and>
    sv_driver sv' = TCP_driver d' \<and> td_sockets d' (td_listen_fd d) = None \<and>
    td_listen_fd d \<notin> map_keys (rx_watched (sv_reactor sv')) \<and>
    (\<forall>evs sv'' fd. server_run sv' evs sv'' \<longrightarrow> Connected fd \<notin> set evs)"
proof -
  let ?fd = "td_listen_fd d" and ?d = "TCP_RemoveClientFD d (td_listen_fd d)"
  let ?watched = "map_erase ?fd (rx_watched (sv_reactor sv))"
  let ?sv = "sv\<lparr>sv_driver := TCP_driver ?d, sv_reactor := (sv_reactor sv)\<lparr>rx_watched := ?watched\<rparr>\<rparr>"
  have w: "?fd \<in> map_keys (rx_watched (sv_reactor sv))" "map_inv (rx_watched (sv_reactor sv))"
    using assms by (auto simp add: watch_ok_def)
  have "TCP_TryAccept d Accept_failed ?fd = (d, -1)"
    by (simp add: TCP_TryAccept_def AcceptNextClient_def split: option.splits)
  then have run: "mediator_Notify Accept_failed sv ?fd = (?sv, Returns ())"
    using w(1) assms(2) read_listen_socket [OF assms(3)]
    by (simp add: mediator_Notify_def mediator_receive_def mediator_remove_def Reactor_Remove_def Let_def)
  have closed: "td_sockets ?d ?fd = None" "td_listen_fd ?d = ?fd"
    by (simp_all add: TCP_RemoveClientFD_def ForgetClientIP_def Let_def)
  then have "deaf ?sv" by (simp add: deaf_def)
  then have "\<forall>evs sv'' fd. server_run ?sv evs sv'' \<longrightarrow> Connected fd \<notin> set evs" using deaf_run by blast
  then show ?thesis using run closed(1) w(2) by (intro exI [of _ ?sv] exI [of _ ?d]) simp
qed

text \<open>C23: A client that sends a part of a request and then neither goes on nor closes holds the
  reactor: \<open>Run\<close> never returns from its \<open>Notify\<close>, and none of the descriptors reported after it
  is looked at, whatever waits on them.\<close>

theorem slow_client_blocks_server:
  assumes "sv_driver sv = TCP_driver d" and "fd \<noteq> td_listen_fd d" and "wire_request fd q"
    and "td_sockets d fd = Some s" and "sock_wf s" and "sk_end s = Quiet"
    and "stream s = take k (encode_request q)" and "k < length (encode_request q)"
    and "fd \<in> map_keys (rx_watched (sv_reactor sv))" and "fd \<noteq> rx_signal_fd (sv_reactor sv)"
  shows "\<exists>s'. Reactor_Run (rx_signal_fd (sv_reactor sv)) (Some (mediator_Notify ans)) sv (Events (fd # fds) # ws) =
    (sv\<lparr>sv_driver := TCP_driver (d\<lparr>td_sockets := (td_sockets d)(fd \<mapsto> s')\<rparr>)\<rparr>, Blocks)"
proof -
  obtain s' where "mediator_Notify ans sv fd =
      (sv\<lparr>sv_driver := TCP_driver (d\<lparr>td_sockets := (td_sockets d)(fd \<mapsto> s')\<rparr>)\<rparr>, Blocks)"
    using notify_partial_request [OF assms(1-5,7-9), of ans] assms(6) by auto
  then show ?thesis using assms(10) by (intro exI [of _ s']) (simp add: Reactor_Run_def)
qed

end
