(* ===== verification/Server_Schedules.thy ===== *)
theory Server_Schedules
  imports Server_Clients
begin

text \<open>
  Schedules of the server: the single steps as lemmas, a started server with a client for the
  witnesses, and what the freedom of the workers costs a client that sends several requests at
  once: they may be served in any order, and their replies may be mixed up on the wire.
\<close>

section \<open>Single steps\<close>

lemma run_step: "server_run sv evs sv1 \<Longrightarrow> server_step sv1 ev sv2 \<Longrightarrow> evs' = evs @ [ev] \<Longrightarrow> server_run sv evs' sv2"
  by (simp add: run_snoc)

definition watched_client :: "server \<Rightarrow> tcp_driver \<Rightarrow> int \<Rightarrow> bool" where
  "watched_client sv d fd \<longleftrightarrow> sv_driver sv = TCP_driver d \<and> fd \<noteq> td_listen_fd d \<and>
     fd \<in> map_keys (rx_watched (sv_reactor sv)) \<and> fd \<noteq> rx_signal_fd (sv_reactor sv)"

lemma step_receive:
  assumes "watched_client sv d fd" and "wire_request fd q"
    and "td_sockets d fd = Some s" and "sock_wf s" and "stream s = encode_request q @ rest"
  obtains d' s' where "server_step sv (Received q) (sv\<lparr>sv_driver := TCP_driver d',
      sv_pool := (sv_pool sv)\<lparr>tp_command := tp_command (sv_pool sv) @ [FunctionCommand q]\<rparr>\<rparr>)"
    and "td_listen_fd d' = td_listen_fd d" and "td_sockets d' = (td_sockets d)(fd \<mapsto> s')"
    and "sock_wf s'" and "stream s' = rest" and "sk_end s' = sk_end s"
proof -
  have c: "sv_driver sv = TCP_driver d" "fd \<noteq> td_listen_fd d" "fd \<in> map_keys (rx_watched (sv_reactor sv))"
    "fd \<noteq> rx_signal_fd (sv_reactor sv)"
    using assms(1) by (simp_all add: watched_client_def)
  obtain s' where s': "mediator_Notify Accept_failed sv fd =
      (sv\<lparr>sv_driver := TCP_driver (noted (d\<lparr>td_sockets := (td_sockets d)(fd \<mapsto> s')\<rparr>) q),
          sv_pool := (sv_pool sv)\<lparr>tp_command := tp_command (sv_pool sv) @ [FunctionCommand q]\<rparr>\<rparr>, Returns ())"
    "sock_wf s'" "stream s' = rest" "sk_end s' = sk_end s" "notify_event Accept_failed sv fd = Received q"
    using notify_whole_request [OF c(1,2) assms(2-5)] by metis
  have "td_listen_fd (noted (d\<lparr>td_sockets := (td_sockets d)(fd \<mapsto> s')\<rparr>) q) = td_listen_fd d"
    by (simp add: noted_def)
  then show thesis
    using notifies [OF c(3,4) _ s'(1)] s' that by simp
qed

lemma step_take:
  assumes "tp_command (sv_pool sv) = FunctionCommand q # map FunctionCommand qs"
    and "k < length (tp_threads (sv_pool sv))" and "tp_threads (sv_pool sv) ! k = Idle"
  shows "server_step sv Internal (sv\<lparr>sv_pool := (sv_pool sv)\<lparr>tp_command := map FunctionCommand qs,
    tp_threads := (tp_threads (sv_pool sv))[k := Busy (FunctionCommand q)]\<rparr>\<rparr>)"
proof -
  have "wpq_Pop (tp_command (sv_pool sv)) 0 = Some (FunctionCommand q, map FunctionCommand qs)"
    unfolding assms(1) by (auto simp add: wpq_Pop_def wpq_top_def command_less_def FunctionCommand_def ICommand_default_def)
  from takes [OF assms(2,3) this] show ?thesis by (intro works) simp_all
qed

lemma step_serve:
  assumes "keeps_promise sv pr" and "range_ok q"
    and "k < length (tp_threads (sv_pool sv))" and "tp_threads (sv_pool sv) ! k = Busy (FunctionCommand q)"
  obtains sv' where "server_step sv (Served q) sv'" and "keeps_promise sv' (promise_step pr (Served q))"
    and "sv_pool sv' = (sv_pool sv)\<lparr>tp_threads := (tp_threads (sv_pool sv))[k := Idle],
           tp_done := tp_done (sv_pool sv) @ [FunctionCommand q]\<rparr>"
    and "sv_reactor sv' = sv_reactor sv"
  using tcpdc.busy_worker_serves [OF _ assms(2-4), of pr] assms(1) that
  by (metis keeps_promise_contract promise_step_contract)

section \<open>Requests of one client overtake each other\<close>

text \<open>
  Two requests lie on the connection, two workers are idle: both are being executed at once,
  and either may be done first.
\<close>

lemma two_requests_at_once:
  assumes "watched_client sv d fd" and "keeps_promise sv pr"
    and "wire_request fd q1" and "wire_request fd q2" and "range_ok q1" and "range_ok q2"
    and "td_sockets d fd = Some s" and "sock_wf s"
    and "stream s = encode_request q1 @ encode_request q2 @ rest"
    and "tp_command (sv_pool sv) = []" and "i < length (tp_threads (sv_pool sv))"
    and "j < length (tp_threads (sv_pool sv))" and "i \<noteq> j"
    and "tp_threads (sv_pool sv) ! i = Idle" and "tp_threads (sv_pool sv) ! j = Idle"
  obtains sv4 where "server_run sv [Received q1, Received q2, Internal, Internal] sv4"
    and "keeps_promise sv4 (promised pr [Received q1, Received q2, Internal, Internal])"
    and "tp_threads (sv_pool sv4) =
      ((tp_threads (sv_pool sv))[i := Busy (FunctionCommand q1)])[j := Busy (FunctionCommand q2)]"
proof -
  let ?ts = "tp_threads (sv_pool sv)"
  obtain d1 s1 where one: "server_step sv (Received q1) (sv\<lparr>sv_driver := TCP_driver d1,
      sv_pool := (sv_pool sv)\<lparr>tp_command := [FunctionCommand q1]\<rparr>\<rparr>)"
    "td_listen_fd d1 = td_listen_fd d" "td_sockets d1 = (td_sockets d)(fd \<mapsto> s1)" "sock_wf s1"
    "stream s1 = encode_request q2 @ rest" "sk_end s1 = sk_end s"
    by (rule step_receive [OF assms(1,3,7-9)]) (simp add: assms(10))
  let ?sv1 = "sv\<lparr>sv_driver := TCP_driver d1, sv_pool := (sv_pool sv)\<lparr>tp_command := [FunctionCommand q1]\<rparr>\<rparr>"
  have "watched_client ?sv1 d1 fd" using assms(1) one(2) by (simp add: watched_client_def)
  then obtain d2 s2 where two: "server_step ?sv1 (Received q2) (?sv1\<lparr>sv_driver := TCP_driver d2,
      sv_pool := (sv_pool ?sv1)\<lparr>tp_command := tp_command (sv_pool ?sv1) @ [FunctionCommand q2]\<rparr>\<rparr>)"
    by (rule step_receive [OF _ assms(4) _ one(4,5)]) (simp_all add: one(3))
  let ?sv2 = "?sv1\<lparr>sv_driver := TCP_driver d2,
      sv_pool := (sv_pool ?sv1)\<lparr>tp_command := tp_command (sv_pool ?sv1) @ [FunctionCommand q2]\<rparr>\<rparr>"
  let ?sv3 = "?sv2\<lparr>sv_pool := (sv_pool ?sv2)\<lparr>tp_command := map FunctionCommand [q2],
      tp_threads := ?ts[i := Busy (FunctionCommand q1)]\<rparr>\<rparr>"
  have three: "server_step ?sv2 Internal ?sv3"
    using step_take [of ?sv2 q1 "[q2]" i] assms(10,11,14) by simp
  let ?sv4 = "?sv3\<lparr>sv_pool := (sv_pool ?sv3)\<lparr>tp_command := map FunctionCommand [],
      tp_threads := (?ts[i := Busy (FunctionCommand q1)])[j := Busy (FunctionCommand q2)]\<rparr>\<rparr>"
  have four: "server_step ?sv3 Internal ?sv4"
    using step_take [of ?sv3 q2 "[]" j] assms(12,13,15) by simp
  have run4: "server_run sv [Received q1, Received q2, Internal, Internal] ?sv4"
    using run_snoc [OF run_snoc [OF run_snoc [OF run_snoc [OF run_nil one(1)] two] three] four] by simp
  have keep4: "keeps_promise ?sv4 (promised pr [Received q1, Received q2, Internal, Internal])"
    by (rule run_keeps_promise [OF run4 assms(2)]) simp
  show thesis by (rule that [OF run4 keep4]) simp
qed

lemma serve_two:
  assumes "server_run sv evs sv1" and "keeps_promise sv1 pr" and "range_ok a" and "range_ok b"
    and "k < length (tp_threads (sv_pool sv1))" and "l < length (tp_threads (sv_pool sv1))" and "k \<noteq> l"
    and "tp_threads (sv_pool sv1) ! k = Busy (FunctionCommand a)"
    and "tp_threads (sv_pool sv1) ! l = Busy (FunctionCommand b)"
  shows "\<exists>sv2. server_run sv (evs @ [Served a, Served b]) sv2"
proof -
  obtain sv5 where five: "server_step sv1 (Served a) sv5" "keeps_promise sv5 (promise_step pr (Served a))"
    "sv_pool sv5 = (sv_pool sv1)\<lparr>tp_threads := (tp_threads (sv_pool sv1))[k := Idle],
       tp_done := tp_done (sv_pool sv1) @ [FunctionCommand a]\<rparr>"
    by (rule step_serve [OF assms(2,3,5,8)])
  have "l < length (tp_threads (sv_pool sv5))" "tp_threads (sv_pool sv5) ! l = Busy (FunctionCommand b)"
    using assms(6,7,9) by (simp_all add: five(3))
  then obtain sv6 where "server_step sv5 (Served b) sv6"
    by (rule step_serve [OF five(2) assms(4)])
  then show ?thesis using run_snoc [OF run_snoc [OF assms(1) five(1)], of "Served b" sv6] by auto
qed

lemma either_order:
  assumes "watched_client sv d fd" and "keeps_promise sv pr"
    and "wire_request fd q1" and "wire_request fd q2" and "range_ok q1" and "range_ok q2"
    and "td_sockets d fd = Some s" and "sock_wf s"
    and "stream s = encode_request q1 @ encode_request q2 @ rest"
    and "tp_command (sv_pool sv) = []" and "i < length (tp_threads (sv_pool sv))"
    and "j < length (tp_threads (sv_pool sv))" and "i \<noteq> j"
    and "tp_threads (sv_pool sv) ! i = Idle" and "tp_threads (sv_pool sv) ! j = Idle"
  shows "(\<exists>sv'. server_run sv [Received q1, Received q2, Internal, Internal, Served q1, Served q2] sv') \<and>
    (\<exists>sv'. server_run sv [Received q1, Received q2, Internal, Internal, Served q2, Served q1] sv')"
proof -
  obtain sv4 where sv4: "server_run sv [Received q1, Received q2, Internal, Internal] sv4"
    "keeps_promise sv4 (promised pr [Received q1, Received q2, Internal, Internal])"
    "tp_threads (sv_pool sv4) =
      ((tp_threads (sv_pool sv))[i := Busy (FunctionCommand q1)])[j := Busy (FunctionCommand q2)]"
    by (rule two_requests_at_once [OF assms])
  have "i < length (tp_threads (sv_pool sv4))" "j < length (tp_threads (sv_pool sv4))"
    "tp_threads (sv_pool sv4) ! i = Busy (FunctionCommand q1)"
    "tp_threads (sv_pool sv4) ! j = Busy (FunctionCommand q2)"
    unfolding sv4(3) using assms(11-13) by simp_all
  then show ?thesis
    using serve_two [OF sv4(1,2) assms(5,6), of i j] serve_two [OF sv4(1,2) assms(6,5), of j i] assms(13) by simp
qed

lemma server_run_append: "server_run sv1 bs sv2 \<Longrightarrow> server_run sv as sv1 \<Longrightarrow> server_run sv (as @ bs) sv2"
proof (induction rule: server_run.induct)
  case (run_snoc sv1 evs sv2 ev sv3)
  then show ?case using server_run.run_snoc [of sv "as @ evs" sv2 ev sv3] by simp
qed simp

section \<open>A client connects\<close>

lemma step_connect:
  assumes "watch_ok sv" and "sv_driver sv = TCP_driver d" and "td_sockets d (td_listen_fd d) \<noteq> None"
    and "kernel_accepts sv (Accepted c ip s)"
  obtains sv' d' where "server_step sv (Connected c) sv'" and "watched_client sv' d' c"
    and "td_sockets d' = (td_sockets d)(c \<mapsto> s)" and "sv_pool sv' = sv_pool sv"
    and "td_listen_fd d' = td_listen_fd d"
proof -
  let ?d = "fst (AcceptNextClient d (Accepted c ip s))"
  let ?sv = "sv\<lparr>sv_driver := TCP_driver ?d,
          sv_reactor := (sv_reactor sv)\<lparr>rx_watched := map_put c () (rx_watched (sv_reactor sv))\<rparr>\<rparr>"
  have c: "0 \<le> c" "c \<noteq> rx_signal_fd (sv_reactor sv)" "c \<noteq> td_listen_fd d"
    using assms(2-4) by auto
  have acc: "Driver_TryAccept (sv_driver sv) (Accepted c ip s) (td_listen_fd d) = (TCP_driver ?d, c)"
    "td_listen_fd ?d = td_listen_fd d" "td_sockets ?d = (td_sockets d)(c \<mapsto> s)"
    using assms(2,3) by (auto simp add: TCP_TryAccept_def AcceptNextClient_def RecordClientIP_def)
  have "mediator_Notify (Accepted c ip s) sv (td_listen_fd d) = (?sv, Returns ())"
    using watch_ok_connected(1) [OF assms(1,2,4,3)] acc(1) c(1) by (simp add: mediator_Notify_def Let_def)
  moreover have "notify_event (Accepted c ip s) sv (td_listen_fd d) = Connected c"
    using acc(1) c(1) by (simp add: notify_event_def)
  moreover have "td_listen_fd d \<in> map_keys (rx_watched (sv_reactor sv))"
    "td_listen_fd d \<noteq> rx_signal_fd (sv_reactor sv)"
    using assms(1-3) by (auto simp add: watch_ok_def)
  ultimately have "server_step sv (Connected c) ?sv" using notifies [OF _ _ assms(4)] by metis
  then show thesis
    by (rule that [of ?sv ?d]) (use acc c in \<open>simp_all add: watched_client_def\<close>)
qed

section \<open>A small server for the witnesses\<close>

definition demo_listen :: listen_answers where
  "demo_listen = \<lparr>la_fd = 4, la_setsockopt_ok = True, la_bind_ok = True, la_listen_ok = True, la_errno = ''''\<rparr>"

definition demo_env :: tcp_driver where
  "demo_env = (demo_tcp (demo_socket [] Eof))\<lparr>td_sockets := (\<lambda>fd. None)\<rparr>"

definition demo_driver :: tcp_driver where
  "demo_driver = fst (TCPDriverComm demo_listen demo_env 9999)"

definition demo_answers :: reactor_answers where
  "demo_answers = \<lparr>ra_epoll_fd = 3, ra_sigprocmask_ok = True, ra_signal_fd = 5, ra_epoll_ctl_ok = True\<rparr>"

definition demo_server :: server where
  "demo_server = \<lparr>sv_driver = TCP_driver demo_driver, sv_storage = Raid_storage demo_raid,
     sv_pool = ThreadPool 2, sv_reactor = \<lparr>rx_epoll_fd = 3, rx_signal_fd = 5, rx_watched = [(4, ()), (5, ())]\<rparr>\<rparr>"

lemma demo_constructed:
  "TCPDriverComm demo_listen demo_env 9999 = (demo_driver, Returns ())" "td_sockets demo_env = (\<lambda>fd. None)"
  by (simp_all add: demo_driver_def TCPDriverComm_def demo_listen_def demo_env_def demo_tcp_def LoadAllocations_def)

lemma demo_driver_fields: "td_listen_fd demo_driver = 4" "td_sockets demo_driver = [4 \<mapsto> listen_socket]"
  using TCPDriverComm_fields(1,5) [OF demo_constructed] by (simp_all add: demo_listen_def)

lemma demo_started: "RunServer 2 demo_answers (TCP_driver demo_driver) (Raid_storage demo_raid) = Returns demo_server"
  by (simp add: RunServer_def Reactor_def Reactor_SetupSignals_def demo_answers_def mediator_add_def Reactor_Add_def
      TCP_GetFD_def demo_driver_fields SetDefNumThreads_def demo_server_def)

lemma demo_range [simp]: "range_ok demo_put" "range_ok demo_get"
  by (simp_all add: range_ok_def demo_put_def demo_get_def new_DriverData_def)

lemma encode_request_not_Nil: "encode_request q \<noteq> []"
proof -
  have "0 < length (encode_request q)" by (simp add: encode_request_def)
  then show ?thesis by auto
qed

text \<open>A client that sends two requests and then is quiet.\<close>

definition demo_connection :: "DriverData \<Rightarrow> DriverData \<Rightarrow> socket" where
  "demo_connection q1 q2 = demo_socket [encode_request q1 @ encode_request q2] Quiet"

lemma demo_connection_stream:
  "sock_wf (demo_connection q1 q2)" "stream (demo_connection q1 q2) = encode_request q1 @ encode_request q2 @ []"
  by (simp_all add: demo_connection_def demo_socket_def sock_wf_def stream_def encode_request_not_Nil)

lemma demo_accepts:
  assumes "sock_wf c" and "accepting c" and "sk_out c = []"
  obtains sv d where "server_run demo_server [Connected 7] sv" and "watched_client sv d 7"
    and "td_sockets d = (td_sockets demo_driver)(7 \<mapsto> c)" and "sv_pool sv = ThreadPool 2"
    and "td_listen_fd d = 4"
proof -
  have "kernel_accepts demo_server (Accepted 7 ''10.0.0.9'' c)"
    using assms by (simp add: demo_server_def demo_driver_fields)
  then obtain sv d where "server_step demo_server (Connected 7) sv" "watched_client sv d 7"
    "td_sockets d = (td_sockets demo_driver)(7 \<mapsto> c)" "sv_pool sv = sv_pool demo_server"
    "td_listen_fd d = td_listen_fd demo_driver"
    by (rule step_connect [OF started_watch_ok [OF demo_constructed demo_started], where d = demo_driver, rotated 2])
       (simp_all add: demo_server_def demo_driver_fields)
  then show thesis
    using that [of sv d] run_snoc [OF run_nil, of demo_server "Connected 7" sv] by (simp add: demo_server_def demo_driver_fields)
qed

lemma demo_connects:
  obtains sv d where "server_run demo_server [Connected 7] sv" and "watched_client sv d 7"
    and "td_sockets d 7 = Some (demo_connection q1 q2)" and "sv_pool sv = ThreadPool 2"
proof -
  have "accepting (demo_connection q1 q2)" "sk_out (demo_connection q1 q2) = []"
    by (simp_all add: demo_connection_def)
  then show thesis
    using demo_accepts [OF demo_connection_stream(1) [of q1 q2]] that by (metis fun_upd_same)
qed

lemma demo_runs:
  assumes "wire_request 7 q1" and "wire_request 7 q2" and "range_ok q1" and "range_ok q2"
  shows "\<exists>sv. server_run demo_server [Connected 7, Received q1, Received q2, Internal, Internal, Served q1, Served q2] sv"
    and "\<exists>sv. server_run demo_server [Connected 7, Received q1, Received q2, Internal, Internal, Served q2, Served q1] sv"
proof -
  obtain sv d where sv: "server_run demo_server [Connected 7] sv" "watched_client sv d 7"
    "td_sockets d 7 = Some (demo_connection q1 q2)" "sv_pool sv = ThreadPool 2"
    by (rule demo_connects)
  have keep: "keeps_promise sv (promised (disk_of demo_raid, \<lambda>fd. []) [Connected 7])"
    by (rule run_keeps_promise [OF sv(1) started_keeps_promise [OF demo_constructed demo_started demo_raid_ok]]) simp
  note wf = demo_connection_stream
  have "(\<exists>sv'. server_run sv [Received q1, Received q2, Internal, Internal, Served q1, Served q2] sv') \<and>
    (\<exists>sv'. server_run sv [Received q1, Received q2, Internal, Internal, Served q2, Served q1] sv')"
    by (rule either_order [OF sv(2) keep assms sv(3) wf, where i = 0 and j = 1])
       (simp_all add: sv(4) ThreadPool_def InitThreads_def replicate_small)
  then show "\<exists>sv. server_run demo_server [Connected 7, Received q1, Received q2, Internal, Internal, Served q1, Served q2] sv"
    and "\<exists>sv. server_run demo_server [Connected 7, Received q1, Received q2, Internal, Internal, Served q2, Served q1] sv"
    using server_run_append [OF _ sv(1)] by (metis append_Cons append_Nil)+
qed

section \<open>Two replies at once\<close>

text \<open>
  \<open>SendReply\<close> takes no lock: its header and its payload are two calls of \<open>WriteAll\<close>, and
  another worker's calls may fall in between. \<open>reply_writes\<close> lists the calls.
\<close>

definition reply_writes :: "DriverData \<Rightarrow> (int \<times> vec) list" where
  "reply_writes q = (m_source_fd q, reply_header q) #
     (if sends_payload q then [(m_source_fd q, m_buffer q)] else [])"

fun tcp_writes :: "tcp_driver \<Rightarrow> (int \<times> vec) list \<Rightarrow> tcp_driver \<times> unit outcome" where
  "tcp_writes d [] = (d, Returns ())"
| "tcp_writes d ((fd, bs) # ws) = sthen (tcp_WriteAll d fd bs) (\<lambda>d1. tcp_writes d1 ws)"

lemma SendReply_writes:
  assumes "0 \<le> m_source_fd q"
  shows "TCP_SendReply d q = scatch (tcp_writes d (reply_writes q)) (\<lambda>d1 _. (d1, Returns ()))"
proof -
  obtain d1 oc1 where w: "tcp_WriteAll d (m_source_fd q) (reply_header q) = (d1, oc1)" by fastforce
  show ?thesis
    using assms by (cases oc1) (auto simp add: TCP_SendReply_def reply_writes_def w)
qed

definition sent_to :: "int \<Rightarrow> (int \<times> vec) list \<Rightarrow> vec" where
  "sent_to fd ws = concat (map snd (filter (\<lambda>w. fst w = fd) ws))"

lemma tcp_writes_sent:
  assumes "\<forall>fd \<in> fst ` set ws. \<exists>s. td_sockets d fd = Some s \<and> accepting s"
  shows "\<exists>d'. tcp_writes d ws = (d', Returns ()) \<and>
    (\<forall>fd s. td_sockets d fd = Some s \<longrightarrow>
       (\<exists>s'. td_sockets d' fd = Some s' \<and> sk_out s' = sk_out s @ sent_to fd ws))"
  using assms
proof (induction ws arbitrary: d)
  case Nil
  then show ?case by (simp add: sent_to_def)
next
  case (Cons w ws)
  obtain fd bs where w: "w = (fd, bs)" by fastforce
  then obtain s where s: "td_sockets d fd = Some s" "accepting s" using Cons.prems by auto
  obtain s1 where s1: "tcp_WriteAll d fd bs = (d\<lparr>td_sockets := (td_sockets d)(fd \<mapsto> s1)\<rparr>, Returns ())"
    "accepting s1" "sk_out s1 = sk_out s @ bs"
    by (rule tcp_WriteAll_open [OF s])
  let ?d1 = "d\<lparr>td_sockets := (td_sockets d)(fd \<mapsto> s1)\<rparr>"
  have "\<forall>x \<in> fst ` set ws. \<exists>s. td_sockets ?d1 x = Some s \<and> accepting s"
    using Cons.prems s1(2) by auto
  then obtain d' where d': "tcp_writes ?d1 ws = (d', Returns ())"
    "\<And>x y. td_sockets ?d1 x = Some y \<Longrightarrow> \<exists>s'. td_sockets d' x = Some s' \<and> sk_out s' = sk_out y @ sent_to x ws"
    using Cons.IH [of ?d1] by blast
  have "\<exists>s'. td_sockets d' x = Some s' \<and> sk_out s' = sk_out y @ sent_to x (w # ws)"
    if "td_sockets d x = Some y" for x y
    using d'(2) [of x] that s(1) s1(3) w by (cases "x = fd") (auto simp add: sent_to_def)
  then show ?case using d'(1) s1(1) w by auto
qed

lemma writes_to_two:
  assumes "td_sockets d a = Some s1" and "accepting s1" and "td_sockets d b = Some s2" and "accepting s2"
    and "fst ` set ws \<subseteq> {a, b}"
  shows "\<exists>d' t1 t2. tcp_writes d ws = (d', Returns ()) \<and>
    td_sockets d' a = Some t1 \<and> sk_out t1 = sk_out s1 @ sent_to a ws \<and>
    td_sockets d' b = Some t2 \<and> sk_out t2 = sk_out s2 @ sent_to b ws"
proof -
  have "\<exists>s. td_sockets d fd = Some s \<and> accepting s" if "fd \<in> fst ` set ws" for fd
    using subsetD [OF assms(5) that] assms(1-4) by auto
  then obtain d' where d': "tcp_writes d ws = (d', Returns ())"
    "\<forall>fd s. td_sockets d fd = Some s \<longrightarrow> (\<exists>s'. td_sockets d' fd = Some s' \<and> sk_out s' = sk_out s @ sent_to fd ws)"
    using tcp_writes_sent [of ws d] by auto
  then show ?thesis using assms(1,3) by metis
qed

lemma sent_to_shuffle:
  assumes "ws \<in> shuffles as bs" and "\<forall>b \<in> set bs. fst b \<noteq> fd"
  shows "sent_to fd ws = sent_to fd as"
  using assms
proof (induction ws arbitrary: as bs)
  case Nil
  then show ?case by simp
next
  case (Cons w ws)
  from Cons.prems(1) consider as' where "as = w # as'" "ws \<in> shuffles as' bs"
    | bs' where "bs = w # bs'" "ws \<in> shuffles as bs'"
    by (cases as; cases bs) (auto simp add: Cons_in_shuffles_iff)
  then show ?case
  proof cases
    case 1
    then show ?thesis using Cons.IH [OF 1(2) Cons.prems(2)] by (simp add: sent_to_def)
  next
    case 2
    then show ?thesis using Cons.IH [OF 2(2)] Cons.prems(2) by (simp add: sent_to_def)
  qed
qed

lemma sent_reply_writes: "sent_to (m_source_fd q) (reply_writes q) = reply_frame q"
  by (simp add: sent_to_def reply_writes_def reply_frame_def)

lemma other_source: "m_source_fd q \<noteq> fd \<Longrightarrow> \<forall>b \<in> set (reply_writes q). fst b \<noteq> fd"
  by (simp add: reply_writes_def)

lemma decode_reply_broken:
  assumes "sends_payload q" and "length (m_buffer q) < 2 ^ 32" and "expects (m_handle q) = payload_type q"
    and "decode_reply expects (reply_header q @ h @ bs) = Some (a, rest)"
    and "take (length (m_buffer q)) h \<noteq> take (length h) (m_buffer q)"
  shows "a \<noteq> answer q \<and> fst (snd a) = m_handle q"
proof -
  have q: "m_status q = SUCCESS" "payload_type q"
    using assms(1) by (simp_all add: sends_payload_def payload_type_def)
  have n: "unat (reply_len q) = length (m_buffer q)" by (rule unat_reply_len [OF assms(2) q])
  have a: "a = (0, m_handle q, reply_len q, take (length (m_buffer q)) (h @ bs))"
    using assms(4) q assms(3) unfolding decode_reply_def reply_header_fields Let_def
    by (auto simp add: n split: if_splits)
  have "take (length (m_buffer q)) (h @ bs) \<noteq> m_buffer q"
  proof
    assume eq: "take (length (m_buffer q)) (h @ bs) = m_buffer q"
    have "take (length h) (take (length (m_buffer q)) (h @ bs)) = take (length (m_buffer q)) (take (length h) (h @ bs))"
      by (simp only: take_take min.commute)
    also have "\<dots> = take (length (m_buffer q)) h" by simp
    finally have "take (length h) (take (length (m_buffer q)) (h @ bs)) = take (length (m_buffer q)) h" .
    then have "take (length h) (m_buffer q) = take (length (m_buffer q)) h" unfolding eq .
    with assms(5) show False by metis
  qed
  then show ?thesis using a q by (simp add: answer_def)
qed

section \<open>Properties\<close>

text \<open>Requests that lie on a connection together may overtake each other: after a \<open>WRITE\<close> and
  a \<open>READ\<close> sent at once, with two workers idle, there is a run in which the read is served first;
  its reply, sent before the other, carries what the disk held before the write.\<close>

theorem pipelined_read_may_overtake:
  assumes "watched_client sv d fd" and "keeps_promise sv (dk, outs)"
    and "wire_request fd q1" and "wire_request fd q2" and "m_type q1 = WRITE" and "m_type q2 = READ"
    and "range_ok q1" and "range_ok q2" and "td_sockets d fd = Some s" and "sock_wf s"
    and "stream s = encode_request q1 @ encode_request q2 @ rest"
    and "tp_command (sv_pool sv) = []" and "i < length (tp_threads (sv_pool sv))"
    and "j < length (tp_threads (sv_pool sv))" and "i \<noteq> j"
    and "tp_threads (sv_pool sv) ! i = Idle" and "tp_threads (sv_pool sv) ! j = Idle"
  shows "\<exists>evs sv'. server_run sv evs sv' \<and> received_in evs = [q1, q2] \<and> served_in evs = [q2, q1] \<and>
    keeps_promise sv' (fst (disk_write dk q1),
      outs(fd := outs fd @ reply_frame (disk_read dk q2) @ reply_frame (snd (disk_write dk q1))))"
proof -
  let ?evs = "[Received q1, Received q2, Internal, Internal, Served q2, Served q1]"
  obtain sv' where run: "server_run sv ?evs sv'"
    using either_order [OF assms(1-4,7-17)] by blast
  have "m_source_fd q1 = fd" "m_source_fd q2 = fd" using assms(3,4) by (simp_all add: wire_request_def)
  then have "promised (dk, outs) ?evs = (fst (disk_write dk q1),
      outs(fd := outs fd @ reply_frame (disk_read dk q2) @ reply_frame (snd (disk_write dk q1))))"
    using assms(5,6)
    by (simp add: promised_def disk_serve_def) (simp add: disk_read_def disk_write_def)
  moreover have "keeps_promise sv' (promised (dk, outs) ?evs)"
    by (rule run_keeps_promise [OF run assms(2)]) (use assms(7,8) in auto)
  ultimately show ?thesis using run by (intro exI [of _ ?evs] exI [of _ sv']) simp
qed

text \<open>C24: Two workers that reply at the same time: on different connections every interleaving of
  their writes leaves both frames whole; on one connection the header of one may fall between
  the header and the payload of the other, and a client that decodes what it got takes that
  header for its data.\<close>

theorem replies_interleave:
  assumes "td_sockets d (m_source_fd q1) = Some s1" and "accepting s1"
    and "td_sockets d (m_source_fd q2) = Some s2" and "accepting s2"
  shows "(m_source_fd q1 \<noteq> m_source_fd q2 \<longrightarrow>
      (\<forall>ws \<in> shuffles (reply_writes q1) (reply_writes q2). \<exists>d' t1 t2. tcp_writes d ws = (d', Returns ()) \<and>
         td_sockets d' (m_source_fd q1) = Some t1 \<and> sk_out t1 = sk_out s1 @ reply_frame q1 \<and>
         td_sockets d' (m_source_fd q2) = Some t2 \<and> sk_out t2 = sk_out s2 @ reply_frame q2)) \<and>
    (m_source_fd q1 = m_source_fd q2 \<and> m_handle q1 \<noteq> m_handle q2 \<and> sends_payload q1 \<and>
       length (m_buffer q1) < 2 ^ 32 \<and> expects (m_handle q1) \<and>
       take (length (m_buffer q1)) (reply_header q2) \<noteq> take 16 (m_buffer q1) \<longrightarrow>
      (\<exists>ws \<in> shuffles (reply_writes q1) (reply_writes q2). \<exists>d' t. tcp_writes d ws = (d', Returns ()) \<and>
         td_sockets d' (m_source_fd q1) = Some t \<and>
         (\<forall>a rest. decode_reply expects (drop (length (sk_out s1)) (sk_out t)) = Some (a, rest) \<longrightarrow>
            a \<noteq> answer q1 \<and> a \<noteq> answer q2)))"
proof (intro conjI impI ballI)
  fix ws
  assume fds: "m_source_fd q1 \<noteq> m_source_fd q2" and ws: "ws \<in> shuffles (reply_writes q1) (reply_writes q2)"
  have "fst ` set ws \<subseteq> {m_source_fd q1, m_source_fd q2}"
    unfolding set_shuffles [OF ws] by (auto simp add: reply_writes_def)
  note sent = writes_to_two [OF assms(1,2) assms(3,4) this]
  have "sent_to (m_source_fd q1) ws = reply_frame q1"
    using sent_to_shuffle [OF ws, of "m_source_fd q1"] fds other_source [of q2 "m_source_fd q1"]
    by (simp add: sent_reply_writes)
  moreover have "sent_to (m_source_fd q2) ws = reply_frame q2"
    using sent_to_shuffle [of ws "reply_writes q2" "reply_writes q1" "m_source_fd q2"] ws fds
      other_source [of q1 "m_source_fd q2"]
    by (simp add: sent_reply_writes shuffles_commutes)
  ultimately show "\<exists>d' t1 t2. tcp_writes d ws = (d', Returns ()) \<and>
      td_sockets d' (m_source_fd q1) = Some t1 \<and> sk_out t1 = sk_out s1 @ reply_frame q1 \<and>
      td_sockets d' (m_source_fd q2) = Some t2 \<and> sk_out t2 = sk_out s2 @ reply_frame q2"
    using sent by simp
next
  assume q: "m_source_fd q1 = m_source_fd q2 \<and> m_handle q1 \<noteq> m_handle q2 \<and> sends_payload q1 \<and>
       length (m_buffer q1) < 2 ^ 32 \<and> expects (m_handle q1) \<and>
       take (length (m_buffer q1)) (reply_header q2) \<noteq> take 16 (m_buffer q1)"
  let ?fd = "m_source_fd q1"
  let ?ws = "(?fd, reply_header q1) # (?fd, reply_header q2) # (?fd, m_buffer q1) # tl (reply_writes q2)"
  have ws: "?ws \<in> shuffles (reply_writes q1) (reply_writes q2)"
    using q by (simp add: reply_writes_def Cons_in_shuffles_iff)
  have "fst ` set ?ws \<subseteq> {?fd}" using q by (auto simp add: reply_writes_def)
  then have "fst ` set ?ws \<subseteq> {?fd, ?fd}" by simp
  from writes_to_two [OF assms(1,2) assms(1,2) this] obtain d' t where d':
    "tcp_writes d ?ws = (d', Returns ())" "td_sockets d' ?fd = Some t" "sk_out t = sk_out s1 @ sent_to ?fd ?ws"
    by blast
  have sent: "sent_to ?fd ?ws = reply_header q1 @ reply_header q2 @ (m_buffer q1 @ sent_to ?fd (tl (reply_writes q2)))"
    by (simp add: sent_to_def)
  have "a \<noteq> answer q1 \<and> a \<noteq> answer q2"
    if "decode_reply expects (drop (length (sk_out s1)) (sk_out t)) = Some (a, rest)" for a rest
  proof -
    have type: "expects (m_handle q1) = payload_type q1"
      using q by (simp add: sends_payload_def payload_type_def)
    have "drop (length (sk_out s1)) (sk_out t) =
        reply_header q1 @ reply_header q2 @ (m_buffer q1 @ sent_to ?fd (tl (reply_writes q2)))"
      unfolding d'(3) sent by simp
    then have dec: "decode_reply expects
        (reply_header q1 @ reply_header q2 @ (m_buffer q1 @ sent_to ?fd (tl (reply_writes q2)))) = Some (a, rest)"
      using that by (simp only:)
    have "a \<noteq> answer q1 \<and> fst (snd a) = m_handle q1"
      by (rule decode_reply_broken [OF _ _ type dec]) (use q in simp_all)
    then show ?thesis using q by (auto simp add: answer_def)
  qed
  then show "\<exists>ws \<in> shuffles (reply_writes q1) (reply_writes q2). \<exists>d' t. tcp_writes d ws = (d', Returns ()) \<and>
         td_sockets d' (m_source_fd q1) = Some t \<and>
         (\<forall>a rest. decode_reply expects (drop (length (sk_out s1)) (sk_out t)) = Some (a, rest) \<longrightarrow>
            a \<noteq> answer q1 \<and> a \<noteq> answer q2)"
    using ws d'(1,2) by blast
qed

section \<open>Witnesses\<close>


theorem failed_accept_closes_server_witness:
  "\<exists>sv'. mediator_Notify Accept_failed demo_server 4 = (sv', Returns ()) \<and>
    4 \<notin> map_keys (rx_watched (sv_reactor sv')) \<and>
    (\<forall>evs sv'' fd. server_run sv' evs sv'' \<longrightarrow> Connected fd \<notin> set evs)"
proof -
  have "watch_ok demo_server" by (rule started_watch_ok [OF demo_constructed demo_started])
  moreover have "sv_driver demo_server = TCP_driver demo_driver" by (simp add: demo_server_def)
  moreover have "td_sockets demo_driver (td_listen_fd demo_driver) = Some listen_socket"
    by (simp add: demo_driver_fields)
  ultimately have "\<exists>sv' d'. mediator_Notify Accept_failed demo_server (td_listen_fd demo_driver) = (sv', Returns ()) \<and>
    sv_driver sv' = TCP_driver d' \<and> td_sockets d' (td_listen_fd demo_driver) = None \<and>
    td_listen_fd demo_driver \<notin> map_keys (rx_watched (sv_reactor sv')) \<and>
    (\<forall>evs sv'' fd. server_run sv' evs sv'' \<longrightarrow> Connected fd \<notin> set evs)"
    by (rule failed_accept_closes_server)
  then show ?thesis unfolding demo_driver_fields(1) by blast
qed

definition demo_stalled :: server where
  "demo_stalled = demo_server\<lparr>
     sv_driver := TCP_driver (demo_tcp (demo_socket [take 10 (encode_request demo_get)] Quiet)),
     sv_reactor := \<lparr>rx_epoll_fd = 3, rx_signal_fd = 5, rx_watched = [(4, ()), (5, ()), (7, ())]\<rparr>\<rparr>"

theorem slow_client_blocks_server_witness:
  "snd (Reactor_Run 5 (Some (mediator_Notify Accept_failed)) demo_stalled [Events [7, 4]]) = Blocks"
proof -
  let ?s = "demo_socket [take 10 (encode_request demo_get)] Quiet"
  have len: "10 < length (encode_request demo_get)" by (simp add: encode_request_def)
  then have ne: "take 10 (encode_request demo_get) \<noteq> []" by auto
  have "\<exists>s'. Reactor_Run (rx_signal_fd (sv_reactor demo_stalled)) (Some (mediator_Notify Accept_failed)) demo_stalled
      (Events (7 # [4]) # []) =
    (demo_stalled\<lparr>sv_driver := TCP_driver ((demo_tcp ?s)\<lparr>td_sockets := (td_sockets (demo_tcp ?s))(7 \<mapsto> s')\<rparr>)\<rparr>, Blocks)"
    by (rule slow_client_blocks_server [where q = demo_get and s = ?s and k = 10])
       (use len ne in \<open>simp_all add: demo_stalled_def demo_tcp_def demo_socket_def sock_wf_def stream_def\<close>)
  then show ?thesis by (auto simp add: demo_stalled_def)
qed

theorem pipelined_read_may_overtake_witness:
  "\<exists>sv evs sv'. server_run demo_server [Connected 7] sv \<and> server_run sv evs sv' \<and>
    received_in evs = [demo_put, demo_get] \<and> served_in evs = [demo_get, demo_put]"
proof -
  obtain sv d where sv: "server_run demo_server [Connected 7] sv" "watched_client sv d 7"
    "td_sockets d 7 = Some (demo_connection demo_put demo_get)" "sv_pool sv = ThreadPool 2"
    by (rule demo_connects)
  have keep: "keeps_promise sv (disk_of demo_raid, (\<lambda>fd. [])(7 := []))"
    using run_keeps_promise [OF sv(1) started_keeps_promise [OF demo_constructed demo_started demo_raid_ok]]
    by (simp add: promised_def)
  have types: "m_type demo_put = WRITE" "m_type demo_get = READ"
    by (simp_all add: demo_put_def demo_get_def)
  note wf = demo_connection_stream
  have "\<exists>evs sv'. server_run sv evs sv' \<and> received_in evs = [demo_put, demo_get] \<and>
      served_in evs = [demo_get, demo_put] \<and>
      keeps_promise sv' (fst (disk_write (disk_of demo_raid) demo_put),
        ((\<lambda>fd :: int. [])(7 := []))(7 := ((\<lambda>fd :: int. [])(7 := [])) 7 @ reply_frame (disk_read (disk_of demo_raid) demo_get) @
           reply_frame (snd (disk_write (disk_of demo_raid) demo_put))))"
    by (rule pipelined_read_may_overtake
        [OF sv(2) keep demo_wire_requests types demo_range sv(3) wf, where i = 0 and j = 1])
       (simp_all add: sv(4) ThreadPool_def InitThreads_def replicate_small)
  then show ?thesis using sv(1) by blast
qed

theorem replies_interleave_witness:
  "\<exists>ws \<in> shuffles (reply_writes (demo_get\<lparr>m_buffer := [1, 2, 3]\<rparr>)) (reply_writes demo_put).
    \<exists>d' t. tcp_writes (demo_tcp (demo_socket [] Quiet)) ws = (d', Returns ()) \<and>
      td_sockets d' (m_source_fd (demo_get\<lparr>m_buffer := [1, 2, 3]\<rparr>)) = Some t \<and>
      (\<forall>a rest. decode_reply (\<lambda>h. h = 2) (drop (length (sk_out (demo_socket [] Quiet))) (sk_out t)) = Some (a, rest) \<longrightarrow>
         a \<noteq> answer (demo_get\<lparr>m_buffer := [1, 2, 3]\<rparr>) \<and> a \<noteq> answer demo_put)"
proof -
  let ?q1 = "demo_get\<lparr>m_buffer := [1, 2, 3]\<rparr>" and ?d = "demo_tcp (demo_socket [] Quiet)"
  have fds: "m_source_fd ?q1 = 7" "m_source_fd demo_put = 7" by (simp_all add: demo_get_def demo_put_def)
  have open7: "td_sockets ?d 7 = Some (demo_socket [] Quiet)" "accepting (demo_socket [] Quiet)"
    by (simp_all add: demo_tcp_def demo_socket_def accepting_def)
  have "take 3 (reply_header demo_put) = [0, 0, 0]"
    by (simp add: reply_header_def demo_put_def be_bytes_def numeral_eq_Suc)
  then have "m_source_fd ?q1 = m_source_fd demo_put \<and> m_handle ?q1 \<noteq> m_handle demo_put \<and> sends_payload ?q1 \<and>
      length (m_buffer ?q1) < 2 ^ 32 \<and> (\<lambda>h. h = 2) (m_handle ?q1) \<and>
      take (length (m_buffer ?q1)) (reply_header demo_put) \<noteq> take 16 (m_buffer ?q1)"
    using fds by (simp add: numeral_3_eq_3 sends_payload_def) (simp add: demo_get_def demo_put_def)
  note mixed = this
  have o1: "td_sockets ?d (m_source_fd ?q1) = Some (demo_socket [] Quiet)"
    and o2: "td_sockets ?d (m_source_fd demo_put) = Some (demo_socket [] Quiet)"
    using open7(1) fds by simp_all
  show ?thesis
    by (rule conjunct2 [OF replies_interleave [where expects = "\<lambda>h. h = 2", OF o1 open7(2) o2 open7(2)],
          THEN mp, OF mixed])
qed

end
