(* ===== verification/Server_Descriptors.thy ===== *)
theory Server_Descriptors
  imports Server_Schedules
begin

text \<open>
  Descriptors are numbers the kernel gives out again: a request carries the descriptor it was read
  from (\<^verbatim>\<open>m_source_fd\<close>) and nothing else that says which connection asked. A client that hangs up
  while its request is being served, and a newcomer that is given the same descriptor, make the
  worker send the reply to the newcomer.
\<close>

section \<open>A client hangs up\<close>

lemma step_drop:
  assumes "watched_client sv d fd" and "wire_request fd q"
    and "td_sockets d fd = Some s" and "sock_wf s" and "stream s = []" and "sk_end s = Eof"
  shows "server_step sv (Dropped fd) (sv\<lparr>sv_driver := TCP_driver (TCP_RemoveClientFD d fd),
    sv_reactor := (sv_reactor sv)\<lparr>rx_watched := map_erase fd (rx_watched (sv_reactor sv))\<rparr>\<rparr>)"
proof -
  have c: "sv_driver sv = TCP_driver d" "fd \<noteq> td_listen_fd d" "fd \<in> map_keys (rx_watched (sv_reactor sv))"
    "fd \<noteq> rx_signal_fd (sv_reactor sv)"
    using assms(1) by (simp_all add: watched_client_def)
  have none: "stream s = take 0 (encode_request q)" "0 < length (encode_request q)"
    using assms(5) encode_request_not_Nil by simp_all
  obtain s' where "TCP_ReceiveRequest d fd = (d\<lparr>td_sockets := (td_sockets d)(fd \<mapsto> s')\<rparr>,
      Throws (Driver_error ''Client disconnected''))"
    using receive_request_truncated [OF assms(2-4) none] assms(6) by auto
  then have "notify_event Accept_failed sv fd = Dropped fd"
    using c(1,2) by (simp add: notify_event_def TryAccept_client mediator_receive_def)
  moreover have "mediator_Notify Accept_failed sv fd =
      (sv\<lparr>sv_driver := TCP_driver (TCP_RemoveClientFD d fd),
          sv_reactor := (sv_reactor sv)\<lparr>rx_watched := map_erase fd (rx_watched (sv_reactor sv))\<rparr>\<rparr>, Returns ())"
    using notify_partial_request [OF c(1,2) assms(2-4) none c(3)] assms(6) by simp
  ultimately show ?thesis using notifies [OF c(3,4)] by (metis kernel_accepts.simps(1))
qed

lemma watched_open:
  assumes "watch_ok sv" and "sv_driver sv = TCP_driver d"
    and "fd \<in> map_keys (rx_watched (sv_reactor sv))" and "fd \<noteq> rx_signal_fd (sv_reactor sv)"
  obtains s where "td_sockets d fd = Some s"
  using assms by (fastforce simp add: watch_ok_def clients_ok_def split: if_splits)

lemma disk_serve_source: "disk_serve dk q = (dk', Some a) \<Longrightarrow> m_source_fd a = m_source_fd q"
  by (cases "m_type q") (auto simp add: disk_serve_def disk_read_def disk_write_def)

section \<open>Properties\<close>

text \<open>C25: A reply goes to whoever has the descriptor when it is sent. A client sends a request and hangs
  up; while a worker is about to serve it the connection is closed and another client is accepted,
  to which the kernel may give the descriptor that has become free: then there is a run in which
  that client, who has asked nothing, is sent the reply, for a \<open>READ\<close> the data the other one
  asked for.\<close>

theorem reply_reaches_next_client:
  assumes "watch_ok sv" and "keeps_promise sv (dk, outs)" and "watched_client sv d fd"
    and "td_sockets d (td_listen_fd d) \<noteq> None" and "0 \<le> fd"
    and "wire_request fd q" and "range_ok q" and "disk_serve dk q = (dk', Some a)"
    and "td_sockets d fd = Some s" and "sock_wf s" and "stream s = encode_request q" and "sk_end s = Eof"
    and "tp_command (sv_pool sv) = []" and "i < length (tp_threads (sv_pool sv))"
    and "tp_threads (sv_pool sv) ! i = Idle"
    and "sock_wf t" and "accepting t" and "sk_out t = []"
  shows "\<exists>sv4 d4 sv5 d5 t'. server_run sv [Received q, Internal, Dropped fd, Connected fd] sv4 \<and>
    sv_driver sv4 = TCP_driver d4 \<and> td_sockets d4 fd = Some t \<and>
    server_run sv [Received q, Internal, Dropped fd, Connected fd, Served q] sv5 \<and>
    sv_driver sv5 = TCP_driver d5 \<and> td_sockets d5 fd = Some t' \<and> sk_out t' = reply_frame a"
proof -
  let ?p = "sv_pool sv"
  obtain d1 s1 where one: "server_step sv (Received q) (sv\<lparr>sv_driver := TCP_driver d1,
      sv_pool := ?p\<lparr>tp_command := [FunctionCommand q]\<rparr>\<rparr>)"
    "td_listen_fd d1 = td_listen_fd d" "td_sockets d1 = (td_sockets d)(fd \<mapsto> s1)" "sock_wf s1" "stream s1 = []"
    "sk_end s1 = sk_end s"
    by (rule step_receive [OF assms(3,6,9,10), of "[]"]) (simp_all add: assms(11,13))
  let ?sv1 = "sv\<lparr>sv_driver := TCP_driver d1, sv_pool := ?p\<lparr>tp_command := [FunctionCommand q]\<rparr>\<rparr>"
  let ?sv2 = "?sv1\<lparr>sv_pool := (sv_pool ?sv1)\<lparr>tp_command := map FunctionCommand [],
      tp_threads := (tp_threads (sv_pool ?sv1))[i := Busy (FunctionCommand q)]\<rparr>\<rparr>"
  have two: "server_step ?sv1 Internal ?sv2"
    using step_take [of ?sv1 q "[]" i] assms(14,15) by simp
  let ?d = "TCP_RemoveClientFD d1 fd"
  let ?sv3 = "?sv2\<lparr>sv_driver := TCP_driver ?d,
      sv_reactor := (sv_reactor ?sv2)\<lparr>rx_watched := map_erase fd (rx_watched (sv_reactor ?sv2))\<rparr>\<rparr>"
  have "watched_client ?sv2 d1 fd" using assms(3) one(2) by (simp add: watched_client_def)
  from step_drop [OF this assms(6) _ one(4,5)] one(3,6) assms(12)
  have three: "server_step ?sv2 (Dropped fd) ?sv3" by simp
  have run3: "server_run sv [Received q, Internal, Dropped fd] ?sv3"
    using run_snoc [OF run_snoc [OF run_snoc [OF run_nil one(1)] two] three] by simp
  have ok3: "watch_ok ?sv3" by (rule server_run_keeps [where J = watch_ok, OF run3 assms(1) watch_ok_step])
  have d3: "td_listen_fd ?d = td_listen_fd d" "td_sockets ?d = (td_sockets d)(fd := None)"
    using one(2,3) by (simp_all add: TCP_RemoveClientFD_def ForgetClientIP_def Let_def)
  have fd: "fd \<noteq> td_listen_fd d" "fd \<noteq> rx_signal_fd (sv_reactor sv)"
    using assms(3) by (simp_all add: watched_client_def)
  obtain sv4 d4 where four: "server_step ?sv3 (Connected fd) sv4" "watched_client sv4 d4 fd"
    "td_sockets d4 = (td_sockets ?d)(fd \<mapsto> t)" "sv_pool sv4 = sv_pool ?sv3" "td_listen_fd d4 = td_listen_fd ?d"
    by (rule step_connect [OF ok3, of ?d fd ip t])
       (use assms(4,5,16-18) d3 fd in \<open>simp_all add: fun_upd_def\<close>)
  have run4: "server_run sv [Received q, Internal, Dropped fd, Connected fd] sv4"
    using run_snoc [OF run3 four(1)] by simp
  have keep4: "keeps_promise sv4 (dk, outs(fd := []))"
    using run_keeps_promise [OF run4 assms(2)] by (simp add: promised_def)
  obtain sv5 where five: "server_step sv4 (Served q) sv5"
    "keeps_promise sv5 (promise_step (dk, outs(fd := [])) (Served q))" "sv_reactor sv5 = sv_reactor sv4"
    by (rule step_serve [OF keep4 assms(7), of i]) (use assms(14) in \<open>simp_all add: four(4)\<close>)
  have run5: "server_run sv [Received q, Internal, Dropped fd, Connected fd, Served q] sv5"
    using run_snoc [OF run4 five(1)] by simp
  have source: "m_source_fd a = fd" using disk_serve_source [OF assms(8)] assms(6) by (simp add: wire_request_def)
  obtain d5 where d5: "sv_driver sv5 = TCP_driver d5"
    "\<And>x y. td_sockets d5 x = Some y \<Longrightarrow> 0 \<le> x \<Longrightarrow>
      sk_out y = snd (promise_step (dk, outs(fd := [])) (Served q)) x"
    using five(2) unfolding keeps_promise_def by blast
  have w4: "fd \<in> map_keys (rx_watched (sv_reactor sv4))" "fd \<noteq> rx_signal_fd (sv_reactor sv4)"
    "sv_driver sv4 = TCP_driver d4" "td_sockets d4 fd = Some t"
    using four(2,3) by (simp_all add: watched_client_def)
  have "watch_ok sv5" by (rule server_run_keeps [where J = watch_ok, OF run5 assms(1) watch_ok_step])
  from watched_open [OF this d5(1), of fd] obtain t' where t': "td_sockets d5 fd = Some t'"
    unfolding five(3) using w4 by blast
  have "sk_out t' = reply_frame a" using d5(2) [OF t' assms(5)] assms(8) source by simp
  with run4 w4(3,4) run5 d5(1) t' show ?thesis by blast
qed

theorem reply_reaches_next_client_witness:
  "\<exists>sv sv5 d5 t'. server_run demo_server [Connected 7] sv \<and>
    server_run sv [Received demo_get, Internal, Dropped 7, Connected 7, Served demo_get] sv5 \<and>
    sv_driver sv5 = TCP_driver d5 \<and> td_sockets d5 7 = Some t' \<and>
    sk_out t' = reply_frame (demo_get\<lparr>m_buffer := [0, 0, 0]\<rparr>)"
proof -
  let ?s = "demo_socket [encode_request demo_get] Eof" and ?t = "demo_socket [] Quiet"
  have s: "sock_wf ?s" "stream ?s = encode_request demo_get" "sock_wf ?t"
    by (simp_all add: sock_wf_def stream_def encode_request_not_Nil encode_request_not_Nil [symmetric])
  obtain sv d where sv: "server_run demo_server [Connected 7] sv" "watched_client sv d 7"
    "td_sockets d = (td_sockets demo_driver)(7 \<mapsto> ?s)" "sv_pool sv = ThreadPool 2" "td_listen_fd d = 4"
    by (rule demo_accepts [of ?s]) (use s in simp_all)
  have sockets: "td_sockets d 7 = Some ?s"
    using sv(3) by simp
  have ok: "watch_ok sv"
    by (rule server_run_keeps [where J = watch_ok, OF sv(1) started_watch_ok [OF demo_constructed demo_started] watch_ok_step])
  have keep: "keeps_promise sv (disk_of demo_raid, (\<lambda>fd. [])(7 := []))"
    using run_keeps_promise [OF sv(1) started_keeps_promise [OF demo_constructed demo_started demo_raid_ok]]
    by (simp add: promised_def)
  have listening: "td_sockets d (td_listen_fd d) \<noteq> None" by (simp add: sv(3,5) demo_driver_fields)
  have data: "subvec [0, 0, 0, 0, 0, 0, 0, 0 :: byte] 5 3 = [0, 0, 0]"
    by (simp add: subvec_def numeral_eq_Suc)
  have "disk_serve (disk_of demo_raid) demo_get = (disk_of demo_raid, Some (demo_get\<lparr>m_buffer := [0, 0, 0]\<rparr>))"
    using data by (simp add: disk_serve_def disk_read_def disk_covers_def disk_of_def demo_get_def new_DriverData_def)
  from reply_reaches_next_client [OF ok keep sv(2) listening _ demo_wire_requests(2) demo_range(2) this sockets s(1,2)
      _ _ _ _ s(3), of 0]
  show ?thesis using sv(1) by (auto simp add: sv(4) ThreadPool_def InitThreads_def replicate_small)
qed

end
