(* ===== verification/Raid_Threads.thy ===== *)
theory Raid_Threads
  imports Raid_Properties Input_Mediator Abstract_Disk
begin

text \<open>
  The handlers of the mediator as threads on one array, a minion operation at a time.
  \<^verbatim>\<open>RAIDStorage\<close> takes no lock around a request: every minion locks its own operations, and
  the metadata have a lock of their own. A \<open>job\<close> is where a worker stands in \<^verbatim>\<open>RAIDStorage::Read\<close>,
  \<^verbatim>\<open>RAIDStorage::Write\<close> or a query; \<open>thread_step\<close> takes it to its next access to the shared state.
  A job that runs alone does what \<open>RAID_Read\<close> and \<open>RAID_Write\<close> do in one go.
\<close>

section \<open>Jobs\<close>

text \<open>
  The loop head of a write, between its two minion writes, and before the metadata; the loop
  head of a read and its way to the mirror; a request that asks no minion; the end.
\<close>

datatype job =
    At_write DriverData size_t size_t size_t
  | At_mirror DriverData size_t size_t size_t
  | At_record DriverData
  | At_read DriverData size_t size_t size_t
  | At_failover DriverData size_t size_t size_t
  | At_query DriverData
  | Finished DriverData

definition write_job :: "DriverData \<Rightarrow> job" where
  "write_job q = At_write q (m_offset q) (vsize (m_buffer q)) 0"

definition read_job :: "DriverData \<Rightarrow> job" where
  "read_job q = At_read (q\<lparr>m_buffer := vec_resize (m_buffer q) (unat (m_len q))\<rparr>) (m_offset q) (m_len q) 0"

text \<open>The storage part of the handlers; \<open>DISCONNECT\<close> and unknown types do not touch the storage.\<close>

fun handler_job :: "DriverData \<Rightarrow> job option" where
  "handler_job q =
     (case m_type q of
        READ \<Rightarrow> Some (read_job q)
      | WRITE \<Rightarrow> Some (write_job q)
      | FLUSH \<Rightarrow> Some (At_query q)
      | TRIM \<Rightarrow> Some (At_query q)
      | GET_SIZE \<Rightarrow> Some (At_query q)
      | LIST_OFFSETS \<Rightarrow> Some (At_query q)
      | DISCONNECT \<Rightarrow> None
      | Other_action w \<Rightarrow> None)"

section \<open>Steps\<close>

text \<open>One minion operation of a chunk: on the primary or on the mirror.\<close>

definition write_primary :: "raid \<Rightarrow> size_t \<Rightarrow> vec \<Rightarrow> raid \<times> unit outcome" where
  "write_primary r offset chunk =
     (case (PrimaryIndex r offset, LocalOffset r offset) of
        (Returns p, Returns l) \<Rightarrow> raid_minion_write r p l chunk
      | _ \<Rightarrow> (r, Undef))"

definition write_mirror :: "raid \<Rightarrow> size_t \<Rightarrow> vec \<Rightarrow> raid \<times> unit outcome" where
  "write_mirror r offset chunk =
     (case (PrimaryIndex r offset, LocalOffset r offset) of
        (Returns p, Returns l) \<Rightarrow> raid_minion_write r (MirrorIndex r p) l chunk
      | _ \<Rightarrow> (r, Undef))"

definition read_primary :: "raid \<Rightarrow> size_t \<Rightarrow> size_t \<Rightarrow> vec outcome" where
  "read_primary r offset n =
     obind (PrimaryIndex r offset) (\<lambda>p. obind (LocalOffset r offset) (\<lambda>l.
       obind (minion_at r p) (\<lambda>m. minion_Read m l (replicate (unat n) 0))))"

definition read_mirror :: "raid \<Rightarrow> size_t \<Rightarrow> size_t \<Rightarrow> vec outcome" where
  "read_mirror r offset n =
     obind (PrimaryIndex r offset) (\<lambda>p. obind (LocalOffset r offset) (\<lambda>l.
       obind (minion_at r (MirrorIndex r p)) (\<lambda>m. minion_Read m l (replicate (unat n) 0))))"

text \<open>The \<^verbatim>\<open>try\<close> around both loops: an exception ends the request with \<open>FAILURE\<close>.\<close>

fun or_fail :: "DriverData \<Rightarrow> raid \<times> unit outcome \<Rightarrow> job \<Rightarrow> raid \<times> job outcome" where
  "or_fail q (r, Returns u) j = (r, Returns j)"
| "or_fail q (r, Throws e) j = (r, Returns (Finished (q\<lparr>m_status := FAILURE\<rparr>)))"
| "or_fail q (r, Blocks) j = (r, Blocks)"
| "or_fail q (r, Dies) j = (r, Dies)"
| "or_fail q (r, Undef) j = (r, Undef)"

definition raid_record :: "raid \<Rightarrow> size_t \<Rightarrow> size_t \<Rightarrow> raid" where
  "raid_record r offset n =
     (let sizes = map_put offset n (rs_offset_sizes r)
      in r\<lparr>rs_offset_sizes := sizes, rs_metadata_store := Store_Save (rs_metadata_store r) sizes\<rparr>)"

text \<open>A request that asks no minion: the metadata are read under their lock.\<close>

definition query_answer :: "raid \<Rightarrow> DriverData \<Rightarrow> DriverData" where
  "query_answer r q =
     (if m_type q = GET_SIZE then q\<lparr>m_len := RAID_GetDataSize r (m_offset q), m_status := SUCCESS\<rparr>
      else if m_type q = LIST_OFFSETS
      then (let buffer = push_offsets [] (RAID_ListOffsets r)
            in q\<lparr>m_buffer := buffer, m_len := vsize buffer, m_status := SUCCESS\<rparr>)
      else q\<lparr>m_status := SUCCESS\<rparr>)"

definition next_read :: "raid \<Rightarrow> DriverData \<Rightarrow> size_t \<Rightarrow> size_t \<Rightarrow> size_t \<Rightarrow> vec \<Rightarrow> job" where
  "next_read r q offset remaining buf_pos temp_buf =
     (let n = chunk_len r offset remaining
      in At_read (q\<lparr>m_buffer := copy_into (m_buffer q) (unat buf_pos) temp_buf\<rparr>)
           (offset + n) (remaining - n) (buf_pos + n))"

fun thread_step :: "raid \<Rightarrow> job \<Rightarrow> raid \<times> job outcome" where
  "thread_step r (At_write q offset remaining buf_pos) =
     (if remaining = 0 then (r, Returns (At_record q))
      else let n = chunk_len r offset remaining
           in or_fail q (write_primary r offset (subvec (m_buffer q) (unat buf_pos) (unat n)))
                (At_mirror q offset remaining buf_pos))"
| "thread_step r (At_mirror q offset remaining buf_pos) =
     (let n = chunk_len r offset remaining
      in or_fail q (write_mirror r offset (subvec (m_buffer q) (unat buf_pos) (unat n)))
           (At_write q (offset + n) (remaining - n) (buf_pos + n)))"
| "thread_step r (At_record q) =
     (raid_record r (m_offset q) (vsize (m_buffer q)), Returns (Finished (q\<lparr>m_status := SUCCESS\<rparr>)))"
| "thread_step r (At_read q offset remaining buf_pos) =
     (if remaining = 0 then (r, Returns (Finished (q\<lparr>m_status := SUCCESS\<rparr>)))
      else case read_primary r offset (chunk_len r offset remaining) of
             Returns temp_buf \<Rightarrow> (r, Returns (next_read r q offset remaining buf_pos temp_buf))
           | Throws e \<Rightarrow> (r, Returns (At_failover q offset remaining buf_pos))
           | Blocks \<Rightarrow> (r, Blocks) | Dies \<Rightarrow> (r, Dies) | Undef \<Rightarrow> (r, Undef))"
| "thread_step r (At_failover q offset remaining buf_pos) =
     (case read_mirror r offset (chunk_len r offset remaining) of
        Returns temp_buf \<Rightarrow> (r, Returns (next_read r q offset remaining buf_pos temp_buf))
      | Throws e \<Rightarrow> (r, Returns (Finished (q\<lparr>m_status := FAILURE\<rparr>)))
      | Blocks \<Rightarrow> (r, Blocks) | Dies \<Rightarrow> (r, Dies) | Undef \<Rightarrow> (r, Undef))"
| "thread_step r (At_query q) = (r, Returns (Finished (query_answer r q)))"
| "thread_step r (Finished q) = (r, Blocks)"

section \<open>Alone\<close>

inductive thread_run :: "raid \<times> job \<Rightarrow> raid \<times> job \<Rightarrow> bool" where
  run_here: "thread_run x x"
| run_on: "thread_step r j = (r1, Returns j1) \<Longrightarrow> thread_run (r1, j1) y \<Longrightarrow> thread_run (r, j) y"

inductive_cases thread_run_FinishedE: "thread_run (r, Finished q) y"

lemma thread_run_stuck:
  assumes "thread_run (r, j) y" and "\<And>j1. snd (thread_step r j) \<noteq> Returns j1"
  shows "y = (r, j)"
  using assms by (cases rule: thread_run.cases) (auto simp add: prod_eq_iff)

lemma thread_run_step:
  assumes "\<And>q. j \<noteq> Finished q"
  shows "thread_run (r, j) (r', Finished a) \<longleftrightarrow>
    (case thread_step r j of (r1, Returns j1) \<Rightarrow> thread_run (r1, j1) (r', Finished a) | _ \<Rightarrow> False)"
proof
  assume "thread_run (r, j) (r', Finished a)"
  then show "case thread_step r j of (r1, Returns j1) \<Rightarrow> thread_run (r1, j1) (r', Finished a) | _ \<Rightarrow> False"
    by (cases rule: thread_run.cases) (use assms in auto)
next
  assume "case thread_step r j of (r1, Returns j1) \<Rightarrow> thread_run (r1, j1) (r', Finished a) | _ \<Rightarrow> False"
  then show "thread_run (r, j) (r', Finished a)"
    by (auto intro: run_on split: prod.splits outcome.splits)
qed

lemma thread_run_finished: "thread_run (r, Finished q) (r', Finished a) \<longleftrightarrow> r' = r \<and> a = q"
  by (auto intro: run_here elim: thread_run_FinishedE)

lemmas job_run_simps = thread_run_step [of "At_write q off rem pos" for q off rem pos, simplified]
  thread_run_step [of "At_mirror q off rem pos" for q off rem pos, simplified]
  thread_run_step [of "At_record q" for q, simplified]
  thread_run_step [of "At_read q off rem pos" for q off rem pos, simplified]
  thread_run_step [of "At_failover q off rem pos" for q off rem pos, simplified] thread_run_finished

lemma geometry_of_write:
  assumes "raid_minion_write r i l c = (r', oc)"
  shows "rs_stripe_size r' = rs_stripe_size r" and "rs_num_primary r' = rs_num_primary r"
    and "rs_offset_sizes r' = rs_offset_sizes r" and "rs_metadata_store r' = rs_metadata_store r"
  using assms by (auto simp add: raid_minion_write_def split: outcome.splits prod.splits)

lemma address_cong:
  assumes "rs_stripe_size r' = rs_stripe_size r" and "rs_num_primary r' = rs_num_primary r"
  shows "PrimaryIndex r' off = PrimaryIndex r off" and "LocalOffset r' off = LocalOffset r off"
    and "MirrorIndex r' i = MirrorIndex r i" and "chunk_len r' off n = chunk_len r off n"
  using assms by (simp_all add: PrimaryIndex_def LocalOffset_def MirrorIndex_def chunk_len_def)

lemma write_chunk_split:
  "raid_write_chunk r off c = sthen (write_primary r off c) (\<lambda>r1. write_mirror r1 off c)"
proof (cases "PrimaryIndex r off")
  case (Returns p)
  show ?thesis
  proof (cases "LocalOffset r off")
    case (Returns l)
    obtain r1 oc where w: "raid_minion_write r p l c = (r1, oc)" by fastforce
    note g = address_cong [OF geometry_of_write(1,2) [OF w]]
    show ?thesis
      using \<open>PrimaryIndex r off = Returns p\<close> Returns w
      by (cases oc) (simp_all add: raid_write_chunk_def write_primary_def write_mirror_def g)
  qed (simp_all add: raid_write_chunk_def write_primary_def \<open>PrimaryIndex r off = Returns p\<close>)
qed (simp_all add: raid_write_chunk_def write_primary_def)

lemma geometry_of_primary:
  assumes "write_primary r off c = (r', oc)"
  shows "rs_stripe_size r' = rs_stripe_size r" and "rs_num_primary r' = rs_num_primary r"
    and "rs_offset_sizes r' = rs_offset_sizes r" and "rs_metadata_store r' = rs_metadata_store r"
  using assms geometry_of_write by (auto simp add: write_primary_def split: outcome.splits)

lemma read_chunk_split:
  "raid_read_chunk r off n = ocatch (read_primary r off n) (\<lambda>_. read_mirror r off n)"
proof (cases "PrimaryIndex r off")
  case (Returns p)
  then show ?thesis
    by (cases "LocalOffset r off") (simp_all add: raid_read_chunk_def read_primary_def read_mirror_def Let_def)
qed (simp_all add: raid_read_chunk_def read_primary_def read_mirror_def)

text \<open>The loops, from wherever they stand, are the runs of their jobs.\<close>

fun ends_as :: "raid \<times> unit outcome \<Rightarrow> (raid \<Rightarrow> raid \<times> DriverData) \<Rightarrow> DriverData \<Rightarrow> raid \<times> DriverData \<Rightarrow> bool" where
  "ends_as (r, Returns u) f q y \<longleftrightarrow> y = f r"
| "ends_as (r, Throws e) f q y \<longleftrightarrow> y = (r, q\<lparr>m_status := FAILURE\<rparr>)"
| "ends_as (r, oc) f q y \<longleftrightarrow> False"

lemma or_fail_run:
  assumes "\<And>r1. thread_run (r1, j) (r', Finished a) \<longleftrightarrow> ends_as (g r1) f q (r', a)"
  shows "(case or_fail q x j of (r1, Returns j1) \<Rightarrow> thread_run (r1, j1) (r', Finished a) | _ \<Rightarrow> False) \<longleftrightarrow>
    ends_as (sthen x g) f q (r', a)"
  using assms by (cases x; cases "snd x") (auto simp add: thread_run_finished)

lemma write_loop_split:
  "raid_write_loop r off rem pos buf =
    (if rem = 0 then (r, Returns ())
     else let n = chunk_len r off rem; chunk = subvec buf (unat pos) (unat n)
          in sthen (write_primary r off chunk) (\<lambda>r1. sthen (write_mirror r1 off chunk)
               (\<lambda>r2. raid_write_loop r2 (off + n) (rem - n) (pos + n) buf)))"
proof (cases "rem = 0 \<or> rs_stripe_size r = 0")
  case True
  then show ?thesis
    by (auto simp add: raid_write_loop.simps write_primary_def PrimaryIndex_def Let_def)
next
  case False
  then show ?thesis
    by (simp add: raid_write_loop.simps [of r off] write_chunk_split sthen_case sthen_assoc Let_def)
qed

lemma write_job_run:
  "thread_run (r, At_write q off rem pos) (r', Finished a) \<longleftrightarrow>
    ends_as (raid_write_loop r off rem pos (m_buffer q))
      (\<lambda>r1. (raid_record r1 (m_offset q) (vsize (m_buffer q)), q\<lparr>m_status := SUCCESS\<rparr>)) q (r', a)"
proof (induction "unat rem" arbitrary: r off rem pos rule: less_induct)
  case less
  let ?f = "\<lambda>r1. (raid_record r1 (m_offset q) (vsize (m_buffer q)), q\<lparr>m_status := SUCCESS\<rparr>)"
  show ?case
  proof (cases "rem = 0")
    case True
    then show ?thesis by (auto simp add: job_run_simps raid_write_loop.simps)
  next
    case False
    let ?n = "chunk_len r off rem"
    let ?c = "subvec (m_buffer q) (unat pos) (unat ?n)"
    show ?thesis
    proof (cases "rs_stripe_size r = 0")
      case True
      then show ?thesis
        using False by (simp add: raid_write_loop.simps job_run_simps write_primary_def PrimaryIndex_def Let_def)
    next
      case nz: False
      have mirror: "thread_run (r1, At_mirror q off rem pos) (r', Finished a) \<longleftrightarrow>
          ends_as (sthen (write_mirror r1 off ?c)
            (\<lambda>r2. raid_write_loop r2 (off + ?n) (rem - ?n) (pos + ?n) (m_buffer q))) ?f q (r', a)"
        if g: "rs_stripe_size r1 = rs_stripe_size r" "rs_num_primary r1 = rs_num_primary r" for r1
        unfolding job_run_simps thread_step.simps Let_def address_cong(4) [OF g]
        by (rule or_fail_run) (rule less [OF chunk_len_decreases [OF False nz]])
      obtain r1 oc where p: "write_primary r off ?c = (r1, oc)" by fastforce
      from mirror [OF geometry_of_primary(1,2) [OF p]] show ?thesis
        unfolding write_loop_split [of r off rem] using False p
        by (cases oc) (auto simp add: job_run_simps Let_def thread_run_finished)
    qed
  qed
qed

lemma raid_write_alone:
  "RAID_Write r q = Returns (r', a) \<longleftrightarrow> thread_run (r, write_job q) (r', Finished a)"
proof -
  obtain r1 oc where loop: "raid_write_loop r (m_offset q) (vsize (m_buffer q)) 0 (m_buffer q) = (r1, oc)"
    by fastforce
  then show ?thesis
    by (cases oc) (auto simp add: RAID_Write_def write_job_def write_job_run raid_record_def Let_def)
qed

text \<open>A read changes nothing.\<close>

fun reads_as :: "vec \<times> unit outcome \<Rightarrow> DriverData \<Rightarrow> DriverData \<Rightarrow> bool" where
  "reads_as (b, Returns u) q a \<longleftrightarrow> a = q\<lparr>m_buffer := b, m_status := SUCCESS\<rparr>"
| "reads_as (b, Throws e) q a \<longleftrightarrow> a = q\<lparr>m_buffer := b, m_status := FAILURE\<rparr>"
| "reads_as (b, oc) q a \<longleftrightarrow> False"

lemma reads_as_buffer [simp]: "reads_as x (q\<lparr>m_buffer := b\<rparr>) a \<longleftrightarrow> reads_as x q a"
  by (cases "(x, q, a)" rule: reads_as.cases) simp_all

lemma read_job_run:
  "thread_run (r, At_read q off rem pos) (r', Finished a) \<longleftrightarrow>
    r' = r \<and> reads_as (raid_read_loop r off rem pos (m_buffer q)) q a"
proof (induction "unat rem" arbitrary: q off rem pos rule: less_induct)
  case less
  show ?case
  proof (cases "rem = 0")
    case True
    then show ?thesis by (auto simp add: job_run_simps raid_read_loop.simps)
  next
    case False
    let ?n = "chunk_len r off rem"
    show ?thesis
    proof (cases "rs_stripe_size r = 0")
      case True
      then show ?thesis
        using False by (simp add: raid_read_loop.simps job_run_simps read_primary_def PrimaryIndex_def)
    next
      case nz: False
      note next_one = less [OF chunk_len_decreases [OF False nz]]
      show ?thesis
        using False nz
        by (cases "read_primary r off ?n"; cases "read_mirror r off ?n")
           (simp_all add: thread_run_step [of "At_read q off rem pos"] thread_run_step [of "At_failover q off rem pos"]
              thread_run_finished raid_read_loop.simps [of r off] read_chunk_split next_read_def next_one Let_def)
    qed
  qed
qed

lemma raid_read_alone:
  "RAID_Read r q = Returns a \<and> r' = r \<longleftrightarrow> thread_run (r, read_job q) (r', Finished a)"
proof -
  obtain b oc where loop: "raid_read_loop r (m_offset q) (m_len q) 0 (vec_resize (m_buffer q) (unat (m_len q))) = (b, oc)"
    by fastforce
  then show ?thesis
    by (cases oc) (auto simp add: RAID_Read_def read_job_def read_job_run)
qed


end
