(* ===== verification/Raid_Linear.thy ===== *)
theory Raid_Linear
  imports Raid_Threads Driver_Contract
begin

text \<open>
  Any number of requests on the array at once. The two halves of the array are two flat vectors;
  a thread that writes has patched a prefix of its range in each of them, and where no thread
  writes both hold the bytes of the disk. From this: as long as no request in flight overlaps one
  that writes, every interleaving of the minion operations answers as the disk does when it is
  given the requests one after the other, in the order in which they finish.
\<close>

section \<open>The two halves\<close>

definition mirror_flat :: "raid \<Rightarrow> vec" where
  "mirror_flat r = concat (map minion_content (drop (raid_np r) (rs_minions r)))"

lemma mirror_flat_parts:
  "raid_filled r \<Longrightarrow>
    \<forall>xs \<in> set (map minion_content (drop (raid_np r) (rs_minions r))). length xs = raid_stripe r"
  by (auto simp add: raid_filled_def dest: in_set_dropD)

lemma length_mirror_flat: "raid_ok r \<Longrightarrow> length (mirror_flat r) = raid_capacity r"
  using length_concat_uniform [OF mirror_flat_parts [OF raid_ok_filled], of r] raid_shapeD(1) [OF raid_ok_shape, of r]
  by (simp add: mirror_flat_def raid_capacity_def)

lemma mirrored_halves:
  assumes "raid_ok r"
  shows "raid_mirrored r \<longleftrightarrow> mirror_flat r = raid_flat r"
proof -
  note sh = raid_ok_shape [OF assms] and len = raid_shapeD(1) [OF raid_ok_shape [OF assms]]
  let ?p = "map minion_content (take (raid_np r) (rs_minions r))"
  let ?m = "map minion_content (drop (raid_np r) (rs_minions r))"
  have eq: "raid_mirrored r \<longleftrightarrow> ?m = ?p"
    using len by (auto simp add: raid_mirrored_def list_eq_iff_nth_eq)
  have "length x = length y" if "(x, y) \<in> set (zip ?m ?p)" for x y
    using that mirror_flat_parts [OF raid_ok_filled [OF assms]] raid_flat_parts [OF raid_ok_filled [OF assms]]
    by (metis set_zip_leftD set_zip_rightD)
  then have "concat ?m = concat ?p \<longleftrightarrow> ?m = ?p"
    using len concat_eq_concat_iff [of ?m ?p] by fastforce
  with eq show ?thesis by (simp add: mirror_flat_def raid_flat_def)
qed

text \<open>From \<open>r\<close> to \<open>r'\<close> only the contents of minions changed.\<close>

definition raid_alike :: "raid \<Rightarrow> raid \<Rightarrow> bool" where
  "raid_alike r r' \<longleftrightarrow> raid_ok r' \<and> rs_stripe_size r' = rs_stripe_size r \<and>
     rs_num_primary r' = rs_num_primary r \<and> rs_offset_sizes r' = rs_offset_sizes r"

lemma minion_write_alike:
  assumes "raid_ok r" and "unat i < 2 * raid_np r" and "unat l + length c \<le> raid_stripe r"
  obtains r' where "raid_minion_write r i l c = (r', Returns ())" and "raid_alike r r'"
    and "map minion_content (rs_minions r') =
      (map minion_content (rs_minions r))[unat i := copy_into (minion_content (rs_minions r ! unat i)) (unat l) c]"
proof -
  obtain m' where m': "raid_minion_write r i l c = (r\<lparr>rs_minions := (rs_minions r)[unat i := m']\<rparr>, Returns ())"
    "minion_ok m'" "minion_Size m' = rs_stripe_size r"
    "minion_content m' = copy_into (minion_content (rs_minions r ! unat i)) (unat l) c"
    by (rule raid_minion_write_ok [OF assms])
  show thesis
    by (rule that [OF m'(1)])
       (use raid_ok_replace [OF assms(1) m'(2,3)] m'(4) in \<open>simp_all add: raid_alike_def map_update\<close>)
qed

lemma write_primary_ok:
  assumes "raid_ok r" and "0 < length c" and "unat off + length c \<le> raid_capacity r"
    and "length c \<le> raid_stripe r - unat off mod raid_stripe r"
  obtains r' where "write_primary r off c = (r', Returns ())" and "raid_alike r r'"
    and "raid_flat r' = copy_into (raid_flat r) (unat off) c" and "mirror_flat r' = mirror_flat r"
proof -
  note sh = raid_ok_shape [OF assms(1)] and len = raid_shapeD(1) [OF raid_ok_shape [OF assms(1)]]
  obtain p l where pl: "PrimaryIndex r off = Returns p" "LocalOffset r off = Returns l"
    using indices_defined [OF sh] .
  note w = within_stripe [OF sh assms(3,2,4) pl]
  obtain r' where r': "raid_minion_write r p l c = (r', Returns ())" "raid_alike r r'"
    "map minion_content (rs_minions r') =
      (map minion_content (rs_minions r))[unat p := copy_into (minion_content (rs_minions r ! unat p)) (unat l) c]"
    by (rule minion_write_alike [OF assms(1) _ w(2), where i = p]) (use w(1) in simp)
  have np: "raid_np r' = raid_np r" using r'(2) by (simp add: raid_alike_def)
  let ?ps = "map minion_content (take (raid_np r) (rs_minions r))"
  have "raid_flat r' = concat (?ps[unat p := copy_into (?ps ! unat p) (unat l) c])"
    using r'(3) w(1) len by (simp add: raid_flat_def np take_map [symmetric] take_update_swap)
  also have "\<dots> = copy_into (raid_flat r) (unat p * raid_stripe r + unat l) c"
    unfolding raid_flat_def using w(1,2) len
    by (intro copy_into_concat raid_flat_parts [OF raid_ok_filled [OF assms(1)]]) simp_all
  finally have "raid_flat r' = copy_into (raid_flat r) (unat off) c" by (simp add: w(3))
  moreover have "mirror_flat r' = mirror_flat r"
    using r'(3) w(1) by (simp add: mirror_flat_def np drop_map [symmetric] drop_update_cancel)
  ultimately show thesis using that [of r'] r'(1,2) pl by (simp add: write_primary_def)
qed

lemma write_mirror_ok:
  assumes "raid_ok r" and "0 < length c" and "unat off + length c \<le> raid_capacity r"
    and "length c \<le> raid_stripe r - unat off mod raid_stripe r"
  obtains r' where "write_mirror r off c = (r', Returns ())" and "raid_alike r r'"
    and "mirror_flat r' = copy_into (mirror_flat r) (unat off) c" and "raid_flat r' = raid_flat r"
proof -
  note sh = raid_ok_shape [OF assms(1)] and len = raid_shapeD(1) [OF raid_ok_shape [OF assms(1)]]
  obtain p l where pl: "PrimaryIndex r off = Returns p" "LocalOffset r off = Returns l"
    using indices_defined [OF sh] .
  note w = within_stripe [OF sh assms(3,2,4) pl]
  note q = unat_MirrorIndex [OF sh w(1)]
  obtain r' where r': "raid_minion_write r (MirrorIndex r p) l c = (r', Returns ())" "raid_alike r r'"
    "map minion_content (rs_minions r') =
      (map minion_content (rs_minions r))[unat (MirrorIndex r p) :=
         copy_into (minion_content (rs_minions r ! unat (MirrorIndex r p))) (unat l) c]"
    by (rule minion_write_alike [OF assms(1) _ w(2), where i = "MirrorIndex r p"]) (use w(1) q in simp)
  note upd = r'(3) [unfolded q]
  have np: "raid_np r' = raid_np r" using r'(2) by (simp add: raid_alike_def)
  let ?ms = "map minion_content (drop (raid_np r) (rs_minions r))"
  have "mirror_flat r' = concat (?ms[unat p := copy_into (?ms ! unat p) (unat l) c])"
    using upd w(1) len by (simp add: mirror_flat_def np drop_map [symmetric] drop_update_swap)
  also have "\<dots> = copy_into (mirror_flat r) (unat p * raid_stripe r + unat l) c"
    unfolding mirror_flat_def using w(1,2) len
    by (intro copy_into_concat mirror_flat_parts [OF raid_ok_filled [OF assms(1)]]) simp_all
  finally have "mirror_flat r' = copy_into (mirror_flat r) (unat off) c" by (simp add: w(3))
  moreover have "raid_flat r' = raid_flat r"
    using upd by (simp add: raid_flat_def np take_map [symmetric])
  ultimately show thesis using that [of r'] r'(1,2) pl by (simp add: write_mirror_def)
qed

lemma read_primary_ok:
  assumes "raid_ok r" and "0 < unat n" and "unat off + unat n \<le> raid_capacity r"
    and "unat n \<le> raid_stripe r - unat off mod raid_stripe r"
  shows "read_primary r off n = Returns (subvec (raid_flat r) (unat off) (unat n))"
proof -
  note sh = raid_ok_shape [OF assms(1)] and len = raid_shapeD(1) [OF raid_ok_shape [OF assms(1)]]
  obtain p l where pl: "PrimaryIndex r off = Returns p" "LocalOffset r off = Returns l"
    using indices_defined [OF sh] .
  note w = within_stripe [OF sh assms(3,2,4) pl]
  have "minion_Read (rs_minions r ! unat p) l (replicate (unat n) 0)
      = Returns (subvec (minion_content (rs_minions r ! unat p)) (unat l) (unat n))"
    using min.read_inside [OF raid_ok_minion [OF assms(1)], of "unat p" l "replicate (unat n) 0"] w(1,2)
    by (simp add: raid_shape_size [OF sh])
  then show ?thesis
    using w pl len
    by (simp add: read_primary_def minion_at_def subvec_raid_flat [OF raid_ok_filled [OF assms(1)]])
qed

section \<open>Ranges\<close>

definition req_len :: "DriverData \<Rightarrow> nat" where
  "req_len q = (if m_type q = WRITE then length (m_buffer q) else if m_type q = READ then unat (m_len q) else 0)"

definition overlapping :: "DriverData \<Rightarrow> DriverData \<Rightarrow> bool" where
  "overlapping q q' \<longleftrightarrow> max (unat (m_offset q)) (unat (m_offset q')) <
     min (unat (m_offset q) + req_len q) (unat (m_offset q') + req_len q')"

definition conflicting :: "DriverData \<Rightarrow> DriverData \<Rightarrow> bool" where
  "conflicting q q' \<longleftrightarrow> (m_type q = WRITE \<or> m_type q' = WRITE) \<and> overlapping q q'"

lemma conflicting_sym: "conflicting q q' \<longleftrightarrow> conflicting q' q"
  by (auto simp add: conflicting_def overlapping_def max.commute min.commute)

text \<open>A byte of a writer's range belongs to no request in flight that does not conflict.\<close>

lemma apart_bytes:
  assumes "m_type q = WRITE" and "\<not> conflicting q q'"
    and "unat (m_offset q) \<le> p" and "p < unat (m_offset q) + req_len q"
  shows "\<not> (unat (m_offset q') \<le> p \<and> p < unat (m_offset q') + req_len q')"
  using assms by (auto simp add: conflicting_def overlapping_def)

section \<open>Patches\<close>

text \<open>
  \<open>v\<close> is \<open>base\<close> where the threads in flight have written a prefix of their data: thread \<open>k\<close>
  that serves the write \<open>fl k\<close> has written \<open>prog k\<close> bytes.
\<close>

definition patched :: "(nat \<rightharpoonup> DriverData) \<Rightarrow> (nat \<Rightarrow> nat) \<Rightarrow> vec \<Rightarrow> vec \<Rightarrow> bool" where
  "patched fl prog v base \<longleftrightarrow> length v = length base \<and>
     (\<forall>k q. fl k = Some q \<longrightarrow> m_type q = WRITE \<longrightarrow>
        prog k \<le> req_len q \<and> unat (m_offset q) + req_len q \<le> length base \<and>
        (\<forall>x < prog k. v ! (unat (m_offset q) + x) = m_buffer q ! x)) \<and>
     (\<forall>p < length base.
        (\<forall>k q. fl k = Some q \<longrightarrow> m_type q = WRITE \<longrightarrow>
           \<not> (unat (m_offset q) \<le> p \<and> p < unat (m_offset q) + prog k)) \<longrightarrow> v ! p = base ! p)"

definition peaceful :: "(nat \<rightharpoonup> DriverData) \<Rightarrow> bool" where
  "peaceful fl \<longleftrightarrow> (\<forall>k k' q q'. fl k = Some q \<longrightarrow> fl k' = Some q' \<longrightarrow> k \<noteq> k' \<longrightarrow> \<not> conflicting q q')"

lemma patchedD:
  assumes "patched fl prog v base"
  shows "length v = length base"
    and "fl k = Some q \<Longrightarrow> m_type q = WRITE \<Longrightarrow> prog k \<le> req_len q \<and> unat (m_offset q) + req_len q \<le> length base"
    and "fl k = Some q \<Longrightarrow> m_type q = WRITE \<Longrightarrow> x < prog k \<Longrightarrow> v ! (unat (m_offset q) + x) = m_buffer q ! x"
    and "p < length base \<Longrightarrow> (\<And>k q. fl k = Some q \<Longrightarrow> m_type q = WRITE \<Longrightarrow>
      \<not> (unat (m_offset q) \<le> p \<and> p < unat (m_offset q) + prog k)) \<Longrightarrow> v ! p = base ! p"
  using assms unfolding patched_def by blast+

lemma patched_cong:
  assumes "\<And>k q. fl' k = Some q \<and> m_type q = WRITE \<longleftrightarrow> fl k = Some q \<and> m_type q = WRITE"
  shows "patched fl' prog v base \<longleftrightarrow> patched fl prog v base"
  unfolding patched_def imp_conjL [symmetric] assms ..

lemma patched_none: "patched fl prog v base \<Longrightarrow> (\<And>k q. fl k = Some q \<Longrightarrow> m_type q = WRITE \<Longrightarrow> prog k = 0) \<Longrightarrow> v = base"
  by (intro nth_equalityI) (auto simp add: patchedD(1) intro!: patchedD(4))

lemma patched_prog: "patched fl prog v base \<Longrightarrow> (\<And>k q. fl k = Some q \<Longrightarrow> m_type q = WRITE \<Longrightarrow> prog' k = prog k) \<Longrightarrow> patched fl prog' v base"
  unfolding patched_def by metis

text \<open>The next piece of a write.\<close>

lemma patched_write:
  assumes "patched fl prog v base" and "peaceful fl" and "fl k = Some q" and "m_type q = WRITE"
    and "a = unat (m_offset q) + prog k" and "prog k + n \<le> length (m_buffer q)"
  shows "patched fl (prog(k := prog k + n)) (copy_into v a (subvec (m_buffer q) (prog k) n)) base"
proof -
  let ?v = "copy_into v a (subvec (m_buffer q) (prog k) n)"
  have len: "req_len q = length (m_buffer q)" using assms(4) by (simp add: req_len_def)
  have fits: "unat (m_offset q) + length (m_buffer q) \<le> length base"
    using patchedD(2) [OF assms(1,3,4)] len by simp
  have lv: "length v = length base" by (rule patchedD(1) [OF assms(1)])
  have nth: "?v ! p = (if a \<le> p \<and> p < a + n then m_buffer q ! (p - unat (m_offset q)) else v ! p)"
    if "p < length base" for p
    using that assms(5,6) fits lv by (auto simp add: nth_copy_into)
  show ?thesis
    unfolding patched_def
  proof (intro conjI allI impI)
    show "length ?v = length base" using assms(5,6) fits lv by simp
  next
    fix k' q'
    assume k': "fl k' = Some q'" "m_type q' = WRITE"
    show "(prog(k := prog k + n)) k' \<le> req_len q'" "unat (m_offset q') + req_len q' \<le> length base"
      using patchedD(2) [OF assms(1) k'] assms(3,6) k' len by (auto split: if_splits)
    fix x
    assume x: "x < (prog(k := prog k + n)) k'"
    show "?v ! (unat (m_offset q') + x) = m_buffer q' ! x"
    proof (cases "k' = k")
      case True
      then have q': "q' = q" "x < prog k + n" using assms(3) k'(1) x by simp_all
      then have "unat (m_offset q) + x < length base" using assms(6) fits by linarith
      from nth [OF this] show ?thesis
        using patchedD(3) [OF assms(1,3,4), of x] assms(5) q' by (cases "x < prog k") simp_all
    next
      case False
      then have x': "x < prog k'" using x by simp
      let ?p = "unat (m_offset q') + x"
      note l' = patchedD(2) [OF assms(1) k']
      have "\<not> conflicting q q'" using assms(2,3) k'(1) False by (auto simp add: peaceful_def)
      from apart_bytes [OF assms(4) this, of ?p] have "\<not> (a \<le> ?p \<and> ?p < a + n)"
        using x' l' assms(5,6) len by auto
      then show ?thesis using patchedD(3) [OF assms(1) k' x'] x' l' by (auto simp add: nth)
    qed
  next
    fix p
    assume p: "p < length base" and free: "\<forall>k' q'. fl k' = Some q' \<longrightarrow> m_type q' = WRITE \<longrightarrow>
      \<not> (unat (m_offset q') \<le> p \<and> p < unat (m_offset q') + (prog(k := prog k + n)) k')"
    have mine: "\<not> (unat (m_offset q) \<le> p \<and> p < unat (m_offset q) + (prog k + n))"
      using free [rule_format, OF assms(3,4)] by simp
    have "v ! p = base ! p"
    proof (rule patchedD(4) [OF assms(1) p])
      fix k' q'
      assume f: "fl k' = Some q'" "m_type q' = WRITE"
      show "\<not> (unat (m_offset q') \<le> p \<and> p < unat (m_offset q') + prog k')"
      proof (cases "k' = k")
        case True
        then show ?thesis using mine f(1) by (auto simp add: assms(3))
      next
        case False
        then show ?thesis using free [rule_format, OF f] by simp
      qed
    qed
    moreover have "\<not> (a \<le> p \<and> p < a + n)" using mine assms(5) by auto
    ultimately show "?v ! p = base ! p" using p by (auto simp add: nth)
  qed
qed

text \<open>What a request in flight reads is what the disk holds.\<close>

lemma patched_read:
  assumes "patched fl prog v base" and "peaceful fl" and "fl k = Some q" and "m_type q = READ"
    and "unat (m_offset q) \<le> a" and "a + n \<le> unat (m_offset q) + req_len q" and "a + n \<le> length base"
  shows "subvec v a n = subvec base a n"
proof (rule nth_equalityI)
  fix i
  assume "i < length (subvec v a n)"
  then have i: "i < n" "a + i < length base" using assms(7) patchedD(1) [OF assms(1)] by simp_all
  have "v ! (a + i) = base ! (a + i)"
  proof (rule patchedD(4) [OF assms(1) i(2)])
    fix k' q'
    assume k': "fl k' = Some q'" "m_type q' = WRITE"
    then have "k' \<noteq> k" using assms(3,4) by auto
    then have "\<not> conflicting q' q" using assms(2,3) k'(1) by (auto simp add: peaceful_def)
    from apart_bytes [OF k'(2) this, of "a + i"] patchedD(2) [OF assms(1) k']
    show "\<not> (unat (m_offset q') \<le> a + i \<and> a + i < unat (m_offset q') + prog k')"
      using i(1) assms(5,6) by auto
  qed
  then show "subvec v a n ! i = subvec base a n ! i" using i assms(7) patchedD(1) [OF assms(1)] by simp
qed (use patchedD(1) [OF assms(1)] assms(7) in simp)

text \<open>A request comes, and goes.\<close>

lemma patched_begin:
  assumes "patched fl prog v base" and "fl k = None" and "prog k = 0"
    and "m_type q = WRITE \<Longrightarrow> unat (m_offset q) + req_len q \<le> length base"
  shows "patched (fl(k \<mapsto> q)) prog v base"
proof -
  have other: "fl k' = Some q'" if "(fl(k \<mapsto> q)) k' = Some q'" "k' \<noteq> k" for k' q' using that by simp
  show ?thesis
    unfolding patched_def
  proof (intro conjI allI impI)
    show "length v = length base" by (rule patchedD(1) [OF assms(1)])
  next
    fix k' q'
    assume k': "(fl(k \<mapsto> q)) k' = Some q'" "m_type q' = WRITE"
    show "prog k' \<le> req_len q'" "unat (m_offset q') + req_len q' \<le> length base"
      using k' assms(3,4) patchedD(2) [OF assms(1) _ k'(2)] by (auto split: if_splits)
    fix x
    assume "x < prog k'"
    then show "v ! (unat (m_offset q') + x) = m_buffer q' ! x"
      using k' assms(3) patchedD(3) [OF assms(1) _ k'(2)] by (auto split: if_splits)
  next
    fix p
    assume "p < length base" and free: "\<forall>k' q'. (fl(k \<mapsto> q)) k' = Some q' \<longrightarrow> m_type q' = WRITE \<longrightarrow>
      \<not> (unat (m_offset q') \<le> p \<and> p < unat (m_offset q') + prog k')"
    show "v ! p = base ! p"
    proof (rule patchedD(4) [OF assms(1) \<open>p < length base\<close>])
      fix k' q'
      assume f: "fl k' = Some q'" "m_type q' = WRITE"
      then have "(fl(k \<mapsto> q)) k' = Some q'" using assms(2) by auto
      with free f(2) show "\<not> (unat (m_offset q') \<le> p \<and> p < unat (m_offset q') + prog k')" by blast
    qed
  qed
qed

lemma patched_reader_leaves:
  assumes "patched fl prog v base" and "fl k = Some q" and "m_type q \<noteq> WRITE"
  shows "patched (fl(k := None)) prog v base"
proof -
  have "(fl(k := None)) k' = Some q' \<and> m_type q' = WRITE \<longleftrightarrow> fl k' = Some q' \<and> m_type q' = WRITE" for k' q'
    using assms(2,3) by auto
  then show ?thesis using assms(1) by (simp only: patched_cong [of "fl(k := None)" fl])
qed

lemma patched_writer_leaves:
  assumes "patched fl prog v base" and "peaceful fl" and "fl k = Some q" and "m_type q = WRITE"
    and "prog k = length (m_buffer q)"
  shows "patched (fl(k := None)) prog v (copy_into base (unat (m_offset q)) (m_buffer q))"
proof -
  let ?b = "copy_into base (unat (m_offset q)) (m_buffer q)"
  have len: "req_len q = length (m_buffer q)" using assms(4) by (simp add: req_len_def)
  have fits: "unat (m_offset q) + length (m_buffer q) \<le> length base"
    using patchedD(2) [OF assms(1,3,4)] len by simp
  have lb: "length ?b = length base" using fits by simp
  show ?thesis
    unfolding patched_def lb
  proof (intro conjI allI impI)
    show "length v = length base" by (rule patchedD(1) [OF assms(1)])
  next
    fix k' q'
    assume k': "(fl(k := None)) k' = Some q'" "m_type q' = WRITE"
    then have f: "fl k' = Some q'" by (auto split: if_splits)
    show "prog k' \<le> req_len q'" "unat (m_offset q') + req_len q' \<le> length base"
      using patchedD(2) [OF assms(1) f k'(2)] by simp_all
    fix x
    assume "x < prog k'"
    then show "v ! (unat (m_offset q') + x) = m_buffer q' ! x" by (rule patchedD(3) [OF assms(1) f k'(2)])
  next
    fix p
    assume p: "p < length base" and free: "\<forall>k' q'. (fl(k := None)) k' = Some q' \<longrightarrow> m_type q' = WRITE \<longrightarrow>
      \<not> (unat (m_offset q') \<le> p \<and> p < unat (m_offset q') + prog k')"
    show "v ! p = ?b ! p"
    proof (cases "unat (m_offset q) \<le> p \<and> p < unat (m_offset q) + length (m_buffer q)")
      case True
      then obtain x where "p = unat (m_offset q) + x" "x < prog k"
        using assms(5) by (metis add_less_cancel_left le_Suc_ex)
      then show ?thesis
        using patchedD(3) [OF assms(1,3,4), of x] fits assms(5) by (simp add: nth_copy_into)
    next
      case False
      have "v ! p = base ! p"
      proof (rule patchedD(4) [OF assms(1) p])
        fix k' q'
        assume "fl k' = Some q'" "m_type q' = WRITE"
        then show "\<not> (unat (m_offset q') \<le> p \<and> p < unat (m_offset q') + prog k')"
          using free False assms(3,5) by (cases "k' = k") auto
      qed
      then show ?thesis using False fits p by (auto simp add: nth_copy_into)
    qed
  qed
qed

section \<open>Runs\<close>

datatype array_event =
    Begins nat DriverData
  | Moves nat
  | Ends nat DriverData

text \<open>\<open>k\<close> names the thread. A request that ends has its answer ready.\<close>

inductive array_step ::
  "raid \<times> (nat \<rightharpoonup> job) \<Rightarrow> array_event \<Rightarrow> raid \<times> (nat \<rightharpoonup> job) \<Rightarrow> bool" where
  begins: "js k = None \<Longrightarrow> handler_job q = Some j \<Longrightarrow> array_step (r, js) (Begins k q) (r, js(k \<mapsto> j))"
| moves: "js k = Some j \<Longrightarrow> thread_step r j = (r', Returns j') \<Longrightarrow> (\<forall>a. j' \<noteq> Finished a) \<Longrightarrow>
     array_step (r, js) (Moves k) (r', js(k \<mapsto> j'))"
| ends: "js k = Some j \<Longrightarrow> thread_step r j = (r', Returns (Finished a)) \<Longrightarrow>
     array_step (r, js) (Ends k a) (r', js(k := None))"

inductive_cases array_stepE: "array_step (r, js) ev (r', js')"

inductive array_run ::
  "raid \<times> (nat \<rightharpoonup> job) \<Rightarrow> array_event list \<Rightarrow> raid \<times> (nat \<rightharpoonup> job) \<Rightarrow> bool" where
  array_nil: "array_run x [] x"
| array_cons: "array_step x ev y \<Longrightarrow> array_run y evs z \<Longrightarrow> array_run x (ev # evs) z"

text \<open>The requests in flight after an event.\<close>

fun flies :: "(nat \<rightharpoonup> DriverData) \<Rightarrow> array_event \<Rightarrow> nat \<rightharpoonup> DriverData" where
  "flies fl (Begins k q) = fl(k \<mapsto> q)"
| "flies fl (Moves k) = fl"
| "flies fl (Ends k a) = fl(k := None)"

text \<open>
  The clients are careful: no request begins while one in flight conflicts with it, and every
  request lies within the first \<open>cap\<close> bytes.
\<close>

fun careful :: "nat \<Rightarrow> (nat \<rightharpoonup> DriverData) \<Rightarrow> array_event list \<Rightarrow> bool" where
  "careful cap fl [] \<longleftrightarrow> True"
| "careful cap fl (Begins k q # evs) \<longleftrightarrow>
     unat (m_offset q) + req_len q \<le> cap \<and> (\<forall>q' \<in> ran fl. \<not> conflicting q q') \<and>
     careful cap (flies fl (Begins k q)) evs"
| "careful cap fl (ev # evs) \<longleftrightarrow> careful cap (flies fl ev) evs"

text \<open>The requests in the order in which they end, and what they are answered.\<close>

fun ended :: "(nat \<rightharpoonup> DriverData) \<Rightarrow> array_event list \<Rightarrow> DriverData list" where
  "ended fl [] = []"
| "ended fl (Ends k a # evs) = (case fl k of Some q \<Rightarrow> [q] | None \<Rightarrow> []) @ ended (fl(k := None)) evs"
| "ended fl (ev # evs) = ended (flies fl ev) evs"

fun answered :: "array_event list \<Rightarrow> DriverData list" where
  "answered [] = []"
| "answered (Ends k a # evs) = a # answered evs"
| "answered (ev # evs) = answered evs"

text \<open>Steps and runs as functions, to evaluate them.\<close>

fun array_do :: "raid \<times> (nat \<rightharpoonup> job) \<Rightarrow> array_event \<Rightarrow> (raid \<times> (nat \<rightharpoonup> job)) option" where
  "array_do (r, js) (Begins k q) =
     (case (js k, handler_job q) of (None, Some j) \<Rightarrow> Some (r, js(k \<mapsto> j)) | _ \<Rightarrow> None)"
| "array_do (r, js) (Moves k) =
     (case js k of
        None \<Rightarrow> None
      | Some j \<Rightarrow> (case thread_step r j of
            (r', Returns j') \<Rightarrow> (case j' of Finished a \<Rightarrow> None | _ \<Rightarrow> Some (r', js(k \<mapsto> j')))
          | _ \<Rightarrow> None))"
| "array_do (r, js) (Ends k a) =
     (case js k of
        None \<Rightarrow> None
      | Some j \<Rightarrow> (case thread_step r j of
            (r', Returns (Finished a')) \<Rightarrow> if a' = a then Some (r', js(k := None)) else None
          | _ \<Rightarrow> None))"

lemma array_do_step: "array_do x ev = Some y \<Longrightarrow> array_step x ev y"
  by (induction x ev rule: array_do.induct)
    (auto intro: array_step.intros simp del: handler_job.simps
      split: option.splits prod.splits outcome.splits job.splits if_splits)

fun array_exec :: "raid \<times> (nat \<rightharpoonup> job) \<Rightarrow> array_event list \<Rightarrow> (raid \<times> (nat \<rightharpoonup> job)) option" where
  "array_exec x [] = Some x"
| "array_exec x (ev # evs) = (case array_do x ev of None \<Rightarrow> None | Some y \<Rightarrow> array_exec y evs)"

lemma array_exec_run: "array_exec x evs = Some y \<Longrightarrow> array_run x evs y"
  by (induction x evs rule: array_exec.induct)
    (auto intro: array_run.intros array_do_step split: option.splits)

inductive_simps array_run_nil_simp [simp]: "array_run x [] z"
inductive_simps array_run_cons_simp: "array_run x (ev # evs) z"

lemma array_run_append:
  "array_run x (evs1 @ evs2) z \<longleftrightarrow> (\<exists>y. array_run x evs1 y \<and> array_run y evs2 z)"
  by (induction evs1 arbitrary: x) (auto simp add: array_run_cons_simp)

text \<open>A thread that has no event stays where it is.\<close>

fun thread_of :: "array_event \<Rightarrow> nat" where
  "thread_of (Begins k q) = k"
| "thread_of (Moves k) = k"
| "thread_of (Ends k a) = k"

lemma step_elsewhere: "array_step x ev y \<Longrightarrow> k \<noteq> thread_of ev \<Longrightarrow> snd y k = snd x k"
  by (induction rule: array_step.induct) simp_all

lemma run_elsewhere: "array_run x evs y \<Longrightarrow> k \<notin> thread_of ` set evs \<Longrightarrow> snd y k = snd x k"
  by (induction rule: array_run.induct) (simp_all add: step_elsewhere)

lemma careful_append:
  "careful cap fl (evs1 @ evs2) \<longleftrightarrow> careful cap fl evs1 \<and> careful cap (foldl flies fl evs1) evs2"
proof (induction evs1 arbitrary: fl)
  case (Cons ev evs1)
  then show ?case by (cases ev) (simp_all del: fun_upd_apply)
qed simp

section \<open>The invariant\<close>

definition loop_at :: "DriverData \<Rightarrow> nat \<Rightarrow> size_t \<Rightarrow> size_t \<Rightarrow> size_t \<Rightarrow> bool" where
  "loop_at q n off rem pos \<longleftrightarrow> unat off = unat (m_offset q) + unat pos \<and> unat pos + unat rem = n"

fun job_fits :: "disk \<Rightarrow> DriverData \<Rightarrow> job \<Rightarrow> bool" where
  "job_fits dk q (At_write d off rem pos) \<longleftrightarrow>
     d = q \<and> m_type q = WRITE \<and> loop_at q (length (m_buffer q)) off rem pos"
| "job_fits dk q (At_mirror d off rem pos) \<longleftrightarrow>
     d = q \<and> m_type q = WRITE \<and> rem \<noteq> 0 \<and> loop_at q (length (m_buffer q)) off rem pos"
| "job_fits dk q (At_record d) \<longleftrightarrow> d = q \<and> m_type q = WRITE"
| "job_fits dk q (At_read d off rem pos) \<longleftrightarrow>
     (\<exists>b. d = q\<lparr>m_buffer := b\<rparr> \<and> length b = unat (m_len q) \<and>
        take (unat pos) b = subvec (dk_bytes dk) (unat (m_offset q)) (unat pos)) \<and>
     m_type q = READ \<and> loop_at q (unat (m_len q)) off rem pos"
| "job_fits dk q (At_failover d off rem pos) \<longleftrightarrow> False"
| "job_fits dk q (At_query d) \<longleftrightarrow> d = q \<and> m_type q \<in> {FLUSH, TRIM, GET_SIZE, LIST_OFFSETS}"
| "job_fits dk q (Finished d) \<longleftrightarrow> False"

text \<open>How much of its data a thread has written to the primaries, and to the mirrors.\<close>

fun primary_done :: "raid \<Rightarrow> job \<Rightarrow> nat" where
  "primary_done r (At_write q off rem pos) = unat pos"
| "primary_done r (At_mirror q off rem pos) = unat pos + unat (chunk_len r off rem)"
| "primary_done r (At_record q) = length (m_buffer q)"
| "primary_done r j = 0"

fun mirror_done :: "raid \<Rightarrow> job \<Rightarrow> nat" where
  "mirror_done r (At_write q off rem pos) = unat pos"
| "mirror_done r (At_mirror q off rem pos) = unat pos"
| "mirror_done r (At_record q) = length (m_buffer q)"
| "mirror_done r j = 0"

definition progress :: "(job \<Rightarrow> nat) \<Rightarrow> (nat \<rightharpoonup> job) \<Rightarrow> nat \<Rightarrow> nat" where
  "progress f js k = (case js k of None \<Rightarrow> 0 | Some j \<Rightarrow> f j)"

lemma progress_upd [simp]:
  "progress f (js(k \<mapsto> j)) = (progress f js)(k := f j)" "progress f (js(k := None)) = (progress f js)(k := 0)"
  by (auto simp add: progress_def fun_eq_iff)

lemma done_alike:
  assumes "raid_alike r r'"
  shows "primary_done r' = primary_done r" and "mirror_done r' = mirror_done r"
proof -
  have "primary_done r' j = primary_done r j \<and> mirror_done r' j = mirror_done r j" for j
    using assms by (cases j) (simp_all add: raid_alike_def chunk_len_def)
  then show "primary_done r' = primary_done r" "mirror_done r' = mirror_done r" by auto
qed

definition array_lin :: "disk \<Rightarrow> (nat \<rightharpoonup> DriverData) \<Rightarrow> raid \<Rightarrow> (nat \<rightharpoonup> job) \<Rightarrow> bool" where
  "array_lin dk fl r js \<longleftrightarrow> raid_ok r \<and> dom js = dom fl \<and> peaceful fl \<and>
     (\<forall>k q j. fl k = Some q \<longrightarrow> js k = Some j \<longrightarrow>
        job_fits dk q j \<and> unat (m_offset q) + req_len q \<le> raid_capacity r) \<and>
     length (dk_bytes dk) = raid_capacity r \<and> dk_sizes dk = rs_offset_sizes r \<and>
     patched fl (progress (primary_done r) js) (raid_flat r) (dk_bytes dk) \<and>
     patched fl (progress (mirror_done r) js) (mirror_flat r) (dk_bytes dk)"

lemma array_linD:
  assumes "array_lin dk fl r js"
  shows "raid_ok r" and "dom js = dom fl" and "peaceful fl"
    and "fl k = Some q \<Longrightarrow> js k = Some j \<Longrightarrow> job_fits dk q j"
    and "fl k = Some q \<Longrightarrow> unat (m_offset q) + req_len q \<le> raid_capacity r"
    and "length (dk_bytes dk) = raid_capacity r" and "dk_sizes dk = rs_offset_sizes r"
    and "patched fl (progress (primary_done r) js) (raid_flat r) (dk_bytes dk)"
    and "patched fl (progress (mirror_done r) js) (mirror_flat r) (dk_bytes dk)"
proof -
  show "raid_ok r" "dom js = dom fl" "peaceful fl"
    "length (dk_bytes dk) = raid_capacity r" "dk_sizes dk = rs_offset_sizes r"
    "patched fl (progress (primary_done r) js) (raid_flat r) (dk_bytes dk)"
    "patched fl (progress (mirror_done r) js) (mirror_flat r) (dk_bytes dk)"
    using assms by (simp_all add: array_lin_def)
  show "fl k = Some q \<Longrightarrow> js k = Some j \<Longrightarrow> job_fits dk q j" using assms by (simp add: array_lin_def)
  assume "fl k = Some q"
  then have "k \<in> dom js" using assms by (simp add: array_lin_def domI)
  then obtain j where "js k = Some j" by blast
  with \<open>fl k = Some q\<close> assms show "unat (m_offset q) + req_len q \<le> raid_capacity r"
    unfolding array_lin_def by blast
qed

text \<open>A thread moves: the array is alike, and the patches are those of its new place.\<close>

lemma lin_move:
  assumes "array_lin dk fl r js" and "fl k = Some q" and "raid_alike r r'" and "job_fits dk q j'"
    and "patched fl ((progress (primary_done r) js)(k := primary_done r j')) (raid_flat r') (dk_bytes dk)"
    and "patched fl ((progress (mirror_done r) js)(k := mirror_done r j')) (mirror_flat r') (dk_bytes dk)"
  shows "array_lin dk fl r' (js(k \<mapsto> j'))"
proof -
  note l = array_linD [OF assms(1)]
  have cap: "raid_capacity r' = raid_capacity r" using assms(3) by (simp add: raid_alike_def raid_capacity_def)
  have "job_fits dk q' j \<and> unat (m_offset q') + req_len q' \<le> raid_capacity r'"
    if "fl k' = Some q'" "(js(k \<mapsto> j')) k' = Some j" for k' q' j
    using that l(4,5) [OF that(1)] assms(2,4) by (cases "k' = k") (simp_all add: cap)
  then show ?thesis
    using l assms(2,3,5,6) done_alike [OF assms(3)]
    by (auto simp add: array_lin_def cap raid_alike_def insert_absorb domIff)
qed

text \<open>A request that wrote nothing ends: it leaves the flight.\<close>

lemma peaceful_without: "peaceful fl \<Longrightarrow> peaceful (fl(k := None))"
  by (auto simp add: peaceful_def)

lemma lin_answer:
  assumes "array_lin dk fl r js" and "fl k = Some q" and "m_type q \<noteq> WRITE"
  shows "array_lin dk (fl(k := None)) r (js(k := None))"
proof -
  note l = array_linD [OF assms(1)]
  have "patched (fl(k := None)) (f(k := n)) v (dk_bytes dk)" if "patched fl f v (dk_bytes dk)" for f v n
    by (rule patched_prog [OF patched_reader_leaves [OF that assms(2,3)]]) auto
  then show ?thesis
    using l peaceful_without by (auto simp add: array_lin_def)
qed

text \<open>A write ends with its entry in the metadata: the disk has its bytes, and no other thread notices.\<close>

lemma write_spares_reads:
  assumes "m_type q = WRITE" and "m_type q' = READ" and "\<not> conflicting q q'" and "n \<le> unat (m_len q')"
    and "unat (m_offset q) + length (m_buffer q) \<le> length v" and "unat (m_offset q') + n \<le> length v"
  shows "subvec (copy_into v (unat (m_offset q)) (m_buffer q)) (unat (m_offset q')) n = subvec v (unat (m_offset q')) n"
proof (cases "n = 0 \<or> m_buffer q = []")
  case True
  then show ?thesis by (auto simp add: subvec_def)
next
  case False
  then have "unat (m_offset q) + length (m_buffer q) \<le> unat (m_offset q') \<or>
      unat (m_offset q') + n \<le> unat (m_offset q)"
    using assms(1-4) by (auto simp add: conflicting_def overlapping_def req_len_def max_def min_def split: if_splits)
  then show ?thesis using assms(5,6) by (intro subvec_copy_into_other) auto
qed

lemma job_fits_written:
  assumes "job_fits dk q' j" and "m_type q = WRITE" and "\<not> conflicting q q'"
    and "unat (m_offset q) + length (m_buffer q) \<le> length (dk_bytes dk)"
    and "unat (m_offset q') + req_len q' \<le> length (dk_bytes dk)"
    and "dk_bytes dk' = copy_into (dk_bytes dk) (unat (m_offset q)) (m_buffer q)"
  shows "job_fits dk' q' j"
proof (cases j)
  case (At_read d off rem pos)
  have "m_type q' = READ" "unat pos \<le> unat (m_len q')"
    using assms(1) by (auto simp add: At_read loop_at_def)
  then show ?thesis
    using assms write_spares_reads [OF assms(2) _ assms(3), of "unat pos" "dk_bytes dk"]
    by (auto simp add: At_read req_len_def)
qed (use assms(1) in simp_all)

lemma record_alike:
  assumes "raid_ok r"
  shows "raid_ok (raid_record r off n)" and "raid_flat (raid_record r off n) = raid_flat r"
    and "mirror_flat (raid_record r off n) = mirror_flat r" and "raid_capacity (raid_record r off n) = raid_capacity r"
    and "primary_done (raid_record r off n) = primary_done r" and "mirror_done (raid_record r off n) = mirror_done r"
    and "rs_offset_sizes (raid_record r off n) = map_put off n (rs_offset_sizes r)"
proof -
  have "primary_done (raid_record r off n) j = primary_done r j \<and> mirror_done (raid_record r off n) j = mirror_done r j" for j
    by (cases j) (simp_all add: raid_record_def chunk_len_def Let_def)
  then show "primary_done (raid_record r off n) = primary_done r" "mirror_done (raid_record r off n) = mirror_done r"
    by auto
  show "raid_ok (raid_record r off n)"
    using raid_ok_recorded [OF assms assms] by (simp add: raid_record_def Let_def)
qed (simp_all add: raid_record_def mirror_flat_def raid_flat_def raid_capacity_def Let_def)

lemma lin_written:
  assumes "array_lin dk fl r js" and "fl k = Some q" and "js k = Some (At_record q)" and "m_type q = WRITE"
  obtains dk' where "disk_serve dk q = (dk', Some (q\<lparr>m_status := SUCCESS\<rparr>))"
    and "array_lin dk' (fl(k := None)) (raid_record r (m_offset q) (vsize (m_buffer q))) (js(k := None))"
proof -
  note l = array_linD [OF assms(1)]
  let ?r = "raid_record r (m_offset q) (vsize (m_buffer q))"
  let ?dk = "dk\<lparr>dk_bytes := copy_into (dk_bytes dk) (unat (m_offset q)) (m_buffer q),
    dk_sizes := map_put (m_offset q) (vsize (m_buffer q)) (dk_sizes dk)\<rparr>"
  have fits: "unat (m_offset q) + length (m_buffer q) \<le> length (dk_bytes dk)"
    using l(5) [OF assms(2)] l(6) assms(4) by (simp add: req_len_def)
  then have served: "disk_serve dk q = (?dk, Some (q\<lparr>m_status := SUCCESS\<rparr>))"
    using assms(4) by (simp add: disk_serve_def disk_write_def disk_covers_def)
  have patch: "patched (fl(k := None)) ((progress f js)(k := 0)) v (dk_bytes ?dk)"
    if "patched fl (progress f js) v (dk_bytes dk)" "f (At_record q) = length (m_buffer q)" for f v
  proof -
    have "patched (fl(k := None)) (progress f js) v (dk_bytes ?dk)"
      using patched_writer_leaves [OF that(1) l(3) assms(2,4)] that(2) assms(3) by (simp add: progress_def)
    then show ?thesis by (rule patched_prog) auto
  qed
  have jobs: "job_fits ?dk q' j \<and> unat (m_offset q') + req_len q' \<le> raid_capacity r"
    if "(fl(k := None)) k' = Some q'" "(js(k := None)) k' = Some j" for k' q' j
  proof -
    have k': "k' \<noteq> k" "fl k' = Some q'" "js k' = Some j" using that by (auto split: if_splits)
    then have "\<not> conflicting q q'" using l(3) assms(2) by (auto simp add: peaceful_def)
    from job_fits_written [OF l(4) [OF k'(2,3)] assms(4) this fits] l(5) [OF k'(2)] l(6)
    show ?thesis by simp
  qed
  note rec = record_alike [OF l(1), of "m_offset q" "vsize (m_buffer q)"]
  have "array_lin ?dk (fl(k := None)) ?r (js(k := None))"
    unfolding array_lin_def rec progress_upd
  proof (intro conjI)
    show "raid_ok ?r" by (rule rec(1))
    show "dom (js(k := None)) = dom (fl(k := None))" using l(2) by auto
    show "peaceful (fl(k := None))" by (rule peaceful_without [OF l(3)])
    show "\<forall>k' q' j. (fl(k := None)) k' = Some q' \<longrightarrow> (js(k := None)) k' = Some j \<longrightarrow>
        job_fits ?dk q' j \<and> unat (m_offset q') + req_len q' \<le> raid_capacity r" using jobs by blast
    show "length (dk_bytes ?dk) = raid_capacity r" using l(6) fits by simp
    show "dk_sizes ?dk = map_put (m_offset q) (vsize (m_buffer q)) (rs_offset_sizes r)" using l(7) by simp
  qed (rule patch [OF l(8)] patch [OF l(9)]; simp)+
  with served show thesis using that by blast
qed

section \<open>Every thread gets on\<close>

definition gets_on :: "disk \<Rightarrow> (nat \<rightharpoonup> DriverData) \<Rightarrow> (nat \<rightharpoonup> job) \<Rightarrow> nat \<Rightarrow> DriverData \<Rightarrow> nat \<Rightarrow> raid \<times> job outcome \<Rightarrow> bool" where
  "gets_on dk fl js k q cap x \<longleftrightarrow> (\<exists>r' j'. x = (r', Returns j') \<and> raid_capacity r' = cap \<and>
     (case j' of
        Finished a \<Rightarrow> \<exists>dk'. disk_serve dk q = (dk', Some a) \<and> array_lin dk' (fl(k := None)) r' (js(k := None))
      | _ \<Rightarrow> array_lin dk fl r' (js(k \<mapsto> j'))))"

lemma gets_on_moves:
  assumes "array_lin dk fl r' (js(k \<mapsto> j'))" and "\<And>a. j' \<noteq> Finished a" and "raid_capacity r' = cap"
  shows "gets_on dk fl js k q cap (r', Returns j')"
  using assms(1,3) assms(2) [of "case j' of Finished a \<Rightarrow> a"] by (cases j') (simp_all add: gets_on_def)

lemma gets_on_ends:
  assumes "disk_serve dk q = (dk', Some a)" and "array_lin dk' (fl(k := None)) r' (js(k := None))"
    and "raid_capacity r' = cap"
  shows "gets_on dk fl js k q cap (r', Returns (Finished a))"
  using assms by (simp add: gets_on_def)

lemma capacity_alike: "raid_alike r r' \<Longrightarrow> raid_capacity r' = raid_capacity r"
  by (simp add: raid_alike_def raid_capacity_def)

text \<open>The round of a request inside the capacity.\<close>

lemma loop_round:
  assumes "raid_ok r" and "loop_at q n off rem pos" and "rem \<noteq> 0" and "length b = n"
    and "unat (m_offset q) + n \<le> raid_capacity r" and "c = chunk_len r off rem"
  shows "0 < unat c" and "unat off + unat c \<le> raid_capacity r" and "unat pos + unat c \<le> n"
    and "unat c \<le> raid_stripe r - unat off mod raid_stripe r"
    and "length (subvec b (unat pos) (unat c)) = unat c" and "unat (pos + c) = unat pos + unat c"
    and "loop_at q n (off + c) (rem - c) (pos + c)"
proof -
  note sh = raid_ok_shape [OF assms(1)]
  have at: "unat off = unat (m_offset q) + unat pos" "unat pos + unat rem = n"
    using assms(2) by (simp_all add: loop_at_def)
  then have "unat off + unat rem \<le> raid_capacity r" "unat pos + unat rem \<le> length b" "length b < 2 ^ 64"
    using assms(4,5) raid_shapeD(4) [OF sh] by simp_all
  note f = round_facts [OF sh assms(3) this assms(6)]
  show "0 < unat c" "unat c \<le> raid_stripe r - unat off mod raid_stripe r"
    "length (subvec b (unat pos) (unat c)) = unat c" "unat (pos + c) = unat pos + unat c"
    using f(1,3,4,6) by simp_all
  show "unat off + unat c \<le> raid_capacity r" "unat pos + unat c \<le> n"
    using at assms(5) f(2) by linarith+
  show "loop_at q n (off + c) (rem - c) (pos + c)"
    using at f(5,6,9) by (simp add: loop_at_def)
qed

lemma take_copy_into_next:
  "p + length c \<le> length b \<Longrightarrow> take (p + length c) (copy_into b p c) = take p b @ c"
  by (simp add: copy_into_def)

lemma alike_self: "raid_ok r \<Longrightarrow> raid_alike r r"
  by (simp add: raid_alike_def)

lemma progress_there: "js k = Some j \<Longrightarrow> progress f js k = f j"
  by (simp add: progress_def)

lemma write_gets_on:
  assumes "array_lin dk fl r js" and "fl k = Some q" and "js k = Some (At_write q off rem pos)"
  shows "gets_on dk fl js k q (raid_capacity r) (thread_step r (At_write q off rem pos))"
proof -
  note l = array_linD [OF assms(1)] and fits = array_linD(4) [OF assms]
  have wr: "m_type q = WRITE" and at: "loop_at q (length (m_buffer q)) off rem pos" using fits by simp_all
  have cap: "unat (m_offset q) + length (m_buffer q) \<le> raid_capacity r"
    using l(5) [OF assms(2)] wr by (simp add: req_len_def)
  note here = progress_there [of js k, OF assms(3)]
  show ?thesis
  proof (cases "rem = 0")
    case True
    then have pos: "unat pos = length (m_buffer q)" using at by (simp add: loop_at_def)
    have "array_lin dk fl r (js(k \<mapsto> At_record q))"
      by (rule lin_move [OF assms(1,2) alike_self [OF l(1)]])
        (use l(8,9) wr here [of "primary_done r"] here [of "mirror_done r"] in
          \<open>simp_all add: pos [symmetric] fun_upd_idem\<close>)
    then show ?thesis using True by (simp add: gets_on_moves)
  next
    case False
    define c where "c = chunk_len r off rem"
    note f = loop_round [OF l(1) at False refl cap c_def]
    obtain r' where r': "write_primary r off (subvec (m_buffer q) (unat pos) (unat c)) = (r', Returns ())"
      "raid_alike r r'" "mirror_flat r' = mirror_flat r"
      "raid_flat r' = copy_into (raid_flat r) (unat off) (subvec (m_buffer q) (unat pos) (unat c))"
      by (rule write_primary_ok [OF l(1), of "subvec (m_buffer q) (unat pos) (unat c)" off])
        (use f(1,2,4) in \<open>simp_all only: f(5)\<close>)
    have "array_lin dk fl r' (js(k \<mapsto> At_mirror q off rem pos))"
    proof (rule lin_move [OF assms(1,2) r'(2)])
      show "job_fits dk q (At_mirror q off rem pos)" using fits False by simp
      show "patched fl ((progress (mirror_done r) js)(k := mirror_done r (At_mirror q off rem pos)))
          (mirror_flat r') (dk_bytes dk)"
        using l(9) here [of "mirror_done r"] by (simp add: r'(3) fun_upd_idem)
      show "patched fl ((progress (primary_done r) js)(k := primary_done r (At_mirror q off rem pos)))
          (raid_flat r') (dk_bytes dk)"
        using patched_write [OF l(8,3) assms(2) wr, of "unat off" "unat c"] here [of "primary_done r"] at f(3)
        by (simp add: r'(4) loop_at_def c_def)
    qed
    then show ?thesis
      using False r'(1) by (simp add: c_def [symmetric] gets_on_moves capacity_alike [OF r'(2)])
  qed
qed

lemma mirror_gets_on:
  assumes "array_lin dk fl r js" and "fl k = Some q" and "js k = Some (At_mirror q off rem pos)"
  shows "gets_on dk fl js k q (raid_capacity r) (thread_step r (At_mirror q off rem pos))"
proof -
  note l = array_linD [OF assms(1)] and fits = array_linD(4) [OF assms]
  have wr: "m_type q = WRITE" and at: "loop_at q (length (m_buffer q)) off rem pos" and nz: "rem \<noteq> 0"
    using fits by simp_all
  have cap: "unat (m_offset q) + length (m_buffer q) \<le> raid_capacity r"
    using l(5) [OF assms(2)] wr by (simp add: req_len_def)
  note here = progress_there [of js k, OF assms(3)]
  define c where "c = chunk_len r off rem"
  note f = loop_round [OF l(1) at nz refl cap c_def]
  let ?j = "At_write q (off + c) (rem - c) (pos + c)"
  obtain r' where r': "write_mirror r off (subvec (m_buffer q) (unat pos) (unat c)) = (r', Returns ())"
    "raid_alike r r'" "raid_flat r' = raid_flat r"
    "mirror_flat r' = copy_into (mirror_flat r) (unat off) (subvec (m_buffer q) (unat pos) (unat c))"
    by (rule write_mirror_ok [OF l(1), of "subvec (m_buffer q) (unat pos) (unat c)" off])
      (use f(1,2,4) in \<open>simp_all only: f(5)\<close>)
  have "array_lin dk fl r' (js(k \<mapsto> ?j))"
  proof (rule lin_move [OF assms(1,2) r'(2)])
    show "job_fits dk q ?j" using wr f(7) by simp
    show "patched fl ((progress (primary_done r) js)(k := primary_done r ?j)) (raid_flat r') (dk_bytes dk)"
      using l(8) here [of "primary_done r"] f(6) by (simp add: r'(3) fun_upd_idem c_def)
    show "patched fl ((progress (mirror_done r) js)(k := mirror_done r ?j)) (mirror_flat r') (dk_bytes dk)"
      using patched_write [OF l(9,3) assms(2) wr, of "unat off" "unat c"] here [of "mirror_done r"] at f(3,6)
      by (simp add: r'(4) loop_at_def)
  qed
  then show ?thesis
    using r'(1) by (simp add: c_def [symmetric] gets_on_moves capacity_alike [OF r'(2)])
qed

lemma read_gets_on:
  assumes "array_lin dk fl r js" and "fl k = Some q" and "js k = Some (At_read d off rem pos)"
  shows "gets_on dk fl js k q (raid_capacity r) (thread_step r (At_read d off rem pos))"
proof -
  note l = array_linD [OF assms(1)] and fits = array_linD(4) [OF assms]
  from fits obtain b where d: "d = q\<lparr>m_buffer := b\<rparr>" "length b = unat (m_len q)"
    and bytes: "take (unat pos) b = subvec (dk_bytes dk) (unat (m_offset q)) (unat pos)"
    and rd: "m_type q = READ" and at: "loop_at q (unat (m_len q)) off rem pos" by auto
  have cap: "unat (m_offset q) + unat (m_len q) \<le> raid_capacity r"
    using l(5) [OF assms(2)] rd by (simp add: req_len_def)
  show ?thesis
  proof (cases "rem = 0")
    case True
    then have "b = subvec (dk_bytes dk) (unat (m_offset q)) (unat (m_len q))"
      using at bytes d(2) by (simp add: loop_at_def)
    then have "disk_serve dk q = (dk, Some (d\<lparr>m_status := SUCCESS\<rparr>))"
      using cap l(6) by (simp add: disk_serve_def rd disk_read_def disk_covers_def d(1))
    then show ?thesis
      using gets_on_ends [OF _ lin_answer [OF assms(1,2)] refl] True rd by simp
  next
    case False
    define c where "c = chunk_len r off rem"
    note f = loop_round [OF l(1) at False d(2) cap c_def]
    let ?t = "subvec (raid_flat r) (unat off) (unat c)"
    have read: "read_primary r off c = Returns ?t" by (rule read_primary_ok [OF l(1) f(1,2,4)])
    have t: "?t = subvec (dk_bytes dk) (unat off) (unat c)"
      by (rule patched_read [OF l(8,3) assms(2) rd]) (use at f(2,3) l(6) rd in \<open>simp_all add: loop_at_def req_len_def\<close>)
    have lt: "length ?t = unat c" using f(2) length_raid_flat [OF raid_ok_filled [OF l(1)]] by simp
    have "take (unat pos + unat c) (copy_into b (unat pos) ?t) = take (unat pos) b @ ?t"
      using take_copy_into_next [of "unat pos" ?t b] d(2) f(3) unfolding lt by simp
    then have "take (unat (pos + c)) (copy_into b (unat pos) ?t) =
        subvec (dk_bytes dk) (unat (m_offset q)) (unat (pos + c))"
      using at unfolding f(6) bytes subvec_split t loop_at_def by simp
    then have "job_fits dk q (next_read r d off rem pos ?t)"
      using f(3,7) d(2) rd lt by (auto simp add: next_read_def d(1) c_def [symmetric] Let_def)
    then have "array_lin dk fl r (js(k \<mapsto> next_read r d off rem pos ?t))"
      by (rule lin_move [OF assms(1,2) alike_self [OF l(1)]])
        (use l(8,9) progress_there [of js k, OF assms(3)] in \<open>simp_all add: next_read_def fun_upd_idem Let_def\<close>)
    then show ?thesis
      using False read by (simp add: c_def [symmetric] gets_on_moves next_read_def Let_def)
  qed
qed

lemma query_gets_on:
  assumes "array_lin dk fl r js" and "fl k = Some q" and "js k = Some (At_query q)"
  shows "gets_on dk fl js k q (raid_capacity r) (thread_step r (At_query q))"
proof -
  note l = array_linD [OF assms(1)] and fits = array_linD(4) [OF assms]
  have "disk_serve dk q = (dk, Some (query_answer r q))"
    using fits l(7)
    by (auto simp add: disk_serve_def query_answer_def RAID_GetDataSize_def RAID_ListOffsets_def size_at_def
        push_offsets_listing Let_def)
  moreover have "m_type q \<noteq> WRITE" using fits by auto
  ultimately show ?thesis using gets_on_ends [OF _ lin_answer [OF assms(1,2)] refl] by simp
qed

lemma record_gets_on:
  assumes "array_lin dk fl r js" and "fl k = Some q" and "js k = Some (At_record q)"
  shows "gets_on dk fl js k q (raid_capacity r) (thread_step r (At_record q))"
proof -
  note l = array_linD [OF assms(1)]
  have "m_type q = WRITE" using array_linD(4) [OF assms] by simp
  from lin_written [OF assms this] show ?thesis
    using gets_on_ends record_alike(4) [OF l(1)] by (metis thread_step.simps(3))
qed

text \<open>Whatever a thread is about to do, it does, and the invariant holds afterwards.\<close>

lemma thread_gets_on:
  assumes "array_lin dk fl r js" and "fl k = Some q" and "js k = Some j"
  shows "gets_on dk fl js k q (raid_capacity r) (thread_step r j)"
proof (cases j)
  case (At_write d off rem pos)
  then show ?thesis using array_linD(4) [OF assms] write_gets_on [OF assms(1,2)] assms(3) by auto
next
  case (At_mirror d off rem pos)
  then show ?thesis using array_linD(4) [OF assms] mirror_gets_on [OF assms(1,2)] assms(3) by auto
next
  case (At_record d)
  then show ?thesis using array_linD(4) [OF assms] record_gets_on [OF assms(1,2)] assms(3) by auto
next
  case (At_read d off rem pos)
  then show ?thesis using read_gets_on [OF assms(1,2)] assms(3) by simp
next
  case (At_query d)
  then show ?thesis using array_linD(4) [OF assms] query_gets_on [OF assms(1,2)] assms(3) by auto
qed (use array_linD(4) [OF assms] in simp_all)

section \<open>Linearizability\<close>

text \<open>A request begins: it has written nothing.\<close>

lemma lin_begin:
  assumes "array_lin dk fl r js" and "js k = None" and "handler_job q = Some j"
    and "unat (m_offset q) + req_len q \<le> raid_capacity r" and "\<forall>q' \<in> ran fl. \<not> conflicting q q'"
  shows "array_lin dk (fl(k \<mapsto> q)) r (js(k \<mapsto> j))"
proof -
  note l = array_linD [OF assms(1)]
  have free: "fl k = None" using l(2) assms(2) by (metis domIff)
  have peace: "peaceful (fl(k \<mapsto> q))"
    using l(3) assms(5) conflicting_sym [of q] by (auto simp add: peaceful_def ran_def)
  have "unat (m_offset q) + req_len q < 2 ^ 64"
    using assms(4) raid_shapeD(4) [OF raid_ok_shape [OF l(1)]] by simp
  then have start: "job_fits dk q j" "primary_done r j = 0" "mirror_done r j = 0"
    using assms(3) by (auto simp add: write_job_def read_job_def req_len_def loop_at_def unat_vsize
        subvec_def intro!: exI [of _ "vec_resize (m_buffer q) (unat (m_len q))"] split: ActionType.splits)
  have patch: "patched (fl(k \<mapsto> q)) ((progress f js)(k := 0)) v (dk_bytes dk)"
    if "patched fl (progress f js) v (dk_bytes dk)" for f v
  proof -
    have none: "progress f js k = 0" using assms(2) by (simp add: progress_def)
    have "patched (fl(k \<mapsto> q)) (progress f js) v (dk_bytes dk)"
      by (rule patched_begin [OF that free none]) (use assms(4) l(6) in simp)
    then show ?thesis by (rule patched_prog) (simp add: none)
  qed
  have jobs: "job_fits dk q' j' \<and> unat (m_offset q') + req_len q' \<le> raid_capacity r"
    if "(fl(k \<mapsto> q)) k' = Some q'" "(js(k \<mapsto> j)) k' = Some j'" for k' q' j'
    using that l(4,5) start(1) assms(4) by (cases "k' = k") auto
  show ?thesis
    unfolding array_lin_def progress_upd start(2,3)
    using l(1,2,6,7) peace jobs patch [OF l(8)] patch [OF l(9)] by auto
qed

lemma answer_first:
  "disk_serve dk q = (dk1, Some a) \<Longrightarrow> disk_session dk1 qs = (dk2, as) \<Longrightarrow> disk_session dk (q # qs) = (dk2, a # as)"
  by simp

lemma run_linear:
  assumes "array_run x evs y" and "array_lin dk fl (fst x) (snd x)" and "careful (raid_capacity (fst x)) fl evs"
  shows "\<exists>dk'. disk_session dk (ended fl evs) = (dk', answered evs) \<and>
    array_lin dk' (foldl flies fl evs) (fst y) (snd y) \<and> raid_capacity (fst y) = raid_capacity (fst x)"
  using assms
proof (induction arbitrary: dk fl)
  case (array_nil x)
  then show ?case by auto
next
  case (array_cons x ev y evs z)
  note lin = array_cons.prems(1)
  have flying: "\<exists>q. fl k = Some q" if "snd x k = Some j" for k j
    using array_linD(2) [OF lin] that by blast
  from array_cons.hyps(1) show ?case
  proof cases
    case (begins js k q j r)
    then have "array_lin dk (fl(k \<mapsto> q)) r (js(k \<mapsto> j))"
      using lin array_cons.prems(2) by (intro lin_begin) simp_all
    then have "\<exists>dk'. disk_session dk (ended (fl(k \<mapsto> q)) evs) = (dk', answered evs) \<and>
        array_lin dk' (foldl flies (fl(k \<mapsto> q)) evs) (fst z) (snd z) \<and> raid_capacity (fst z) = raid_capacity (fst y)"
      by (intro array_cons.IH) (use array_cons.prems(2) begins in \<open>simp_all del: fun_upd_apply handler_job.simps\<close>)
    then show ?thesis using begins by simp
  next
    case (moves js k j r r' j')
    obtain q where q: "fl k = Some q" using flying [of k j] moves by auto
    from thread_gets_on [OF lin q, of j] moves
    have "array_lin dk fl r' (js(k \<mapsto> j'))" "raid_capacity r' = raid_capacity r"
      by (auto simp add: gets_on_def split: job.splits)
    then have "\<exists>dk'. disk_session dk (ended fl evs) = (dk', answered evs) \<and>
        array_lin dk' (foldl flies fl evs) (fst z) (snd z) \<and> raid_capacity (fst z) = raid_capacity (fst y)"
      by (intro array_cons.IH) (use array_cons.prems(2) moves in \<open>simp_all del: fun_upd_apply handler_job.simps\<close>)
    then show ?thesis using moves \<open>raid_capacity r' = raid_capacity r\<close> by simp
  next
    case (ends js k j r r' a)
    obtain q where q: "fl k = Some q" using flying [of k j] ends by auto
    from thread_gets_on [OF lin q, of j] ends
    obtain dk1 where dk1: "disk_serve dk q = (dk1, Some a)" "array_lin dk1 (fl(k := None)) r' (js(k := None))"
      "raid_capacity r' = raid_capacity r"
      by (auto simp add: gets_on_def)
    have "\<exists>dk'. disk_session dk1 (ended (fl(k := None)) evs) = (dk', answered evs) \<and>
        array_lin dk' (foldl flies (fl(k := None)) evs) (fst z) (snd z) \<and> raid_capacity (fst z) = raid_capacity (fst y)"
      by (intro array_cons.IH) (use array_cons.prems(2) dk1 ends in \<open>simp_all del: fun_upd_apply handler_job.simps\<close>)
    then show ?thesis using answer_first [OF dk1(1)] ends q dk1(3) by fastforce
  qed
qed

lemma lin_start:
  assumes "raid_ok r" and "raid_mirrored r"
  shows "array_lin (disk_of r) Map.empty r Map.empty"
  using assms mirrored_halves [OF assms(1)] length_raid_flat [OF raid_ok_filled [OF assms(1)]]
  by (simp add: array_lin_def disk_of_def peaceful_def patched_def progress_def)

lemma lin_rest:
  assumes "array_lin dk fl r Map.empty"
  shows "dk = disk_of r" and "raid_mirrored r"
proof -
  note l = array_linD [OF assms]
  have "raid_flat r = dk_bytes dk" "mirror_flat r = dk_bytes dk"
    by (rule patched_none [OF l(8)], simp add: progress_def, rule patched_none [OF l(9)], simp add: progress_def)
  then show "dk = disk_of r" "raid_mirrored r"
    using l(7) mirrored_halves [OF l(1)] by (simp_all add: disk_of_def)
qed

lemma array_serves_disk:
  assumes "raid_ok r" and "raid_mirrored r" and "array_run (r, Map.empty) evs (r', js)"
    and "careful (raid_capacity r) Map.empty evs"
  shows "\<exists>dk'. disk_session (disk_of r) (ended Map.empty evs) = (dk', answered evs) \<and> raid_ok r' \<and>
    (\<forall>k j. js k = Some j \<longrightarrow> (\<exists>r1 j1. thread_step r' j = (r1, Returns j1))) \<and>
    (js = Map.empty \<longrightarrow> dk' = disk_of r' \<and> raid_mirrored r')"
proof -
  from run_linear [OF assms(3), unfolded fst_conv snd_conv, OF lin_start [OF assms(1,2)] assms(4)]
  obtain dk' fl' where dk': "disk_session (disk_of r) (ended Map.empty evs) = (dk', answered evs)"
    and lin: "array_lin dk' fl' r' js" by blast
  have "\<exists>r1 j1. thread_step r' j = (r1, Returns j1)" if "js k = Some j" for k j
  proof -
    have "k \<in> dom fl'" using that by (simp add: array_linD(2) [OF lin, symmetric] domI)
    then obtain q where "fl' k = Some q" by blast
    from thread_gets_on [OF lin this that] show ?thesis by (auto simp add: gets_on_def)
  qed
  moreover have "dk' = disk_of r' \<and> raid_mirrored r'" if "js = Map.empty"
    using lin_rest lin unfolding that by blast
  ultimately show ?thesis using dk' array_linD(1) [OF lin] by simp
qed

text \<open>C18: while no request is in flight together with a write that touches its bytes, and all requests
  lie inside the capacity, the mediator's handlers can run as threads that interleave after every
  operation on a minion or on the metadata, in any order: every answer is the one the abstract disk
  gives when it serves the requests one by one in the order in which they finish; no thread ever
  blocks, throws or runs into undefined behaviour; and when no request is left, the array holds that
  disk and its mirrors agree with its primaries.
\<close>

theorem raid_linearizable:
  assumes "raid_ok r" and "raid_mirrored r" and "array_run (r, Map.empty) evs (r', js)"
    and "careful (raid_capacity r) Map.empty evs"
  shows "\<exists>dk'. disk_session (disk_of r) (ended Map.empty evs) = (dk', answered evs) \<and> raid_ok r' \<and>
    (\<forall>k j. js k = Some j \<longrightarrow> (\<exists>r1 j1. thread_step r' j = (r1, Returns j1))) \<and>
    (js = Map.empty \<longrightarrow> dk' = disk_of r' \<and> raid_mirrored r')"
  by (rule array_serves_disk [OF assms])

definition demo_read :: "size_t \<Rightarrow> size_t \<Rightarrow> DriverData" where
  "demo_read off n = new_DriverData READ 2 off n SUCCESS"

definition demo_events :: "array_event list" where
  "demo_events =
     [Begins 0 (demo_write 2 [1, 2, 3]), Begins 1 (demo_write 5 [4, 5]), Moves 0, Moves 1, Moves 1, Moves 0,
      Moves 0, Moves 1, Moves 0, Ends 1 (demo_write 5 [4, 5]), Begins 1 (demo_read 5 2), Moves 1, Moves 0,
      Ends 1 ((demo_read 5 2)\<lparr>m_buffer := [4, 5]\<rparr>), Ends 0 (demo_write 2 [1, 2, 3])]"

lemma demo_events_careful: "careful 8 Map.empty demo_events"
  by (auto simp add: demo_events_def ran_def conflicting_def overlapping_def req_len_def demo_read_def demo_write_def
      vsize_def split: if_splits)

lemma demo_events_run: "\<exists>r. array_run (demo_raid, Map.empty) demo_events (r, Map.empty) \<and> raid_flat r = [0, 0, 1, 2, 3, 4, 5, 0]"
proof -
  have "(case array_exec (demo_raid, Map.empty) demo_events of
      None \<Rightarrow> None | Some (r, js) \<Rightarrow> Some (raid_flat r, map js [0, 1])) = Some ([0, 0, 1, 2, 3, 4, 5, 0], [None, None])"
    by code_simp
  then obtain r js where run: "array_exec (demo_raid, Map.empty) demo_events = Some (r, js)"
    and flat: "raid_flat r = [0, 0, 1, 2, 3, 4, 5, 0]" and js: "js 0 = None" "js 1 = None"
    by (auto split: option.splits)
  have "js k = None" for k
    using js run_elsewhere [OF array_exec_run [OF run], of k]
    by (cases "k = 0 \<or> k = 1") (auto simp add: demo_events_def)
  then have "js = Map.empty" by auto
  then show ?thesis using array_exec_run [OF run] flat by auto
qed

lemma raid_linearizable_witness:
  "\<exists>r. array_run (demo_raid, Map.empty) demo_events (r, Map.empty) \<and> raid_flat r = [0, 0, 1, 2, 3, 4, 5, 0] \<and>
    raid_mirrored r \<and> disk_session (disk_of demo_raid)
      [demo_write 5 [4, 5], demo_read 5 2, demo_write 2 [1, 2, 3]] =
      (disk_of r, [demo_write 5 [4, 5], (demo_read 5 2)\<lparr>m_buffer := [4, 5]\<rparr>, demo_write 2 [1, 2, 3]])"
proof -
  obtain r where r: "array_run (demo_raid, Map.empty) demo_events (r, Map.empty)"
    "raid_flat r = [0, 0, 1, 2, 3, 4, 5, 0]" using demo_events_run by blast
  from raid_linearizable [OF _ _ r(1)] demo_events_careful r show ?thesis
    by (auto simp add: demo_events_def)
qed

section \<open>Waiting for no one\<close>

text \<open>What a thread has still to do: two operations for a byte, at most.\<close>

fun job_left :: "job \<Rightarrow> nat" where
  "job_left (At_write q off rem pos) = 2 * unat rem + 2"
| "job_left (At_mirror q off rem pos) = 2 * unat rem + 1"
| "job_left (At_record q) = 1"
| "job_left (At_read q off rem pos) = 2 * unat rem + 1"
| "job_left (At_failover q off rem pos) = 2 * unat rem"
| "job_left (At_query q) = 1"
| "job_left (Finished q) = 0"

lemma step_left:
  assumes "array_lin dk fl r js" and "fl k = Some q" and "js k = Some j" and "thread_step r j = (r', Returns j')"
  shows "job_left j' < job_left j"
proof -
  have nz: "rs_stripe_size r \<noteq> 0"
    by (rule raid_shapeD(5) [OF raid_ok_shape [OF array_linD(1) [OF assms(1)]]])
  show ?thesis
  proof (cases j)
    case (At_write d off rem pos)
    then show ?thesis
      using assms(4) unat_gt_0 [of rem]
      by (cases "write_primary r off (subvec (m_buffer d) (unat pos) (unat (chunk_len r off rem)))";
          cases "snd (write_primary r off (subvec (m_buffer d) (unat pos) (unat (chunk_len r off rem))))")
        (auto simp add: Let_def split: if_splits)
  next
    case (At_mirror d off rem pos)
    have "rem \<noteq> 0" using array_linD(4) [OF assms(1-3)] At_mirror by simp
    note less = chunk_len_decreases [OF this nz, of off]
    show ?thesis
      using assms(4) less At_mirror
      by (cases "write_mirror r off (subvec (m_buffer d) (unat pos) (unat (chunk_len r off rem)))";
          cases "snd (write_mirror r off (subvec (m_buffer d) (unat pos) (unat (chunk_len r off rem))))")
        (auto simp add: Let_def)
  next
    case (At_read d off rem pos)
    then show ?thesis
      using assms(4) chunk_len_decreases [OF _ nz, of rem off]
      by (auto simp add: next_read_def Let_def unat_gt_0 split: if_splits outcome.splits)
  qed (use assms(4) array_linD(4) [OF assms(1-3)] in auto)
qed

lemma job_begins_left:
  assumes "handler_job q = Some j" and "unat (m_offset q) + req_len q < 2 ^ 64"
  shows "job_left j \<le> 2 * req_len q + 2"
  using assms
  by (auto simp add: write_job_def read_job_def req_len_def unat_vsize split: ActionType.splits)

lemma run_left:
  assumes "array_run x evs y" and "array_lin dk fl (fst x) (snd x)" and "careful (raid_capacity (fst x)) fl evs"
    and "snd x k = Some j" and "\<forall>a. Ends k a \<notin> set evs"
  shows "\<exists>j'. snd y k = Some j' \<and> count_list evs (Moves k) + job_left j' \<le> job_left j"
  using assms
proof (induction arbitrary: dk fl j)
  case (array_nil x)
  then show ?case by simp
next
  case (array_cons x ev y evs z)
  from run_linear [OF array_run.array_cons [OF array_cons.hyps(1) array_nil] array_cons.prems(1), of ]
  have careful1: "careful (raid_capacity (fst x)) fl [ev]" and rest: "careful (raid_capacity (fst x)) (flies fl ev) evs"
    using careful_append [of _ fl "[ev]" evs] array_cons.prems(2) by simp_all
  from run_linear [OF array_run.array_cons [OF array_cons.hyps(1) array_nil] array_cons.prems(1) careful1]
  obtain dk' where dk': "array_lin dk' (flies fl ev) (fst y) (snd y)" "raid_capacity (fst y) = raid_capacity (fst x)"
    by auto
  have next_one: "\<exists>j'. snd z k = Some j' \<and> count_list evs (Moves k) + job_left j' \<le> job_left j1" if "snd y k = Some j1" for j1
    by (rule array_cons.IH [OF dk'(1) _ that]) (use rest dk'(2) array_cons.prems(4) in simp_all)
  show ?case
  proof (cases "thread_of ev = k")
    case False
    then have "snd y k = Some j" "ev \<noteq> Moves k" using step_elsewhere [OF array_cons.hyps(1), of k] array_cons.prems(3) by auto
    with next_one show ?thesis by simp
  next
    case True
    from array_cons.hyps(1) True array_cons.prems(3,4)
    obtain r js r' j1 where x: "x = (r, js)" "js k = Some j" and ev: "ev = Moves k"
      and step: "thread_step r j = (r', Returns j1)" and y: "y = (r', js(k \<mapsto> j1))"
      by cases auto
    obtain q where "fl k = Some q" using array_linD(2) [OF array_cons.prems(1)] x by auto
    then have "job_left j1 < job_left j" using step_left [of dk fl r js k q j r' j1] array_cons.prems(1) x step by simp
    with next_one [of j1] y ev show ?thesis by auto
  qed
qed

text \<open>under the same conditions the handlers are wait-free: however the others interleave, a request
  that thread \<open>k\<close> has begun and not ended still has its next operation ready, and fewer than
  \<open>2 n + 2\<close> operations behind it, for a request of \<open>n\<close> bytes.
\<close>

theorem raid_requests_wait_free:
  assumes "raid_ok r" and "raid_mirrored r"
    and "array_run (r, Map.empty) (evs1 @ Begins k q # evs2) (r', js)"
    and "careful (raid_capacity r) Map.empty (evs1 @ Begins k q # evs2)" and "\<forall>a. Ends k a \<notin> set evs2"
  shows "count_list evs2 (Moves k) < 2 * req_len q + 2 \<and>
    (\<exists>j r1 j1. js k = Some j \<and> thread_step r' j = (r1, Returns j1))"
proof -
  let ?fl = "foldl flies Map.empty evs1"
  from assms(3) obtain r1 js1 j where pre: "array_run (r, Map.empty) evs1 (r1, js1)"
    and starts: "js1 k = None" "handler_job q = Some j" and post: "array_run (r1, js1(k \<mapsto> j)) evs2 (r', js)"
    by (auto simp add: array_run_append array_run_cons_simp elim!: array_step.cases simp del: handler_job.simps)
  have care: "careful (raid_capacity r) Map.empty evs1" "careful (raid_capacity r) ?fl (Begins k q # evs2)"
    using assms(4) by (simp_all add: careful_append)
  from run_linear [OF pre, unfolded fst_conv snd_conv, OF lin_start [OF assms(1,2)] care(1)]
  obtain dk1 where lin1: "array_lin dk1 ?fl r1 js1" and cap: "raid_capacity r1 = raid_capacity r" by auto
  have inside: "unat (m_offset q) + req_len q \<le> raid_capacity r1" using care(2) cap by simp
  have lin2: "array_lin dk1 (?fl(k \<mapsto> q)) r1 (js1(k \<mapsto> j))"
    using care(2) inside by (intro lin_begin [OF lin1 starts]) simp_all
  have care2: "careful (raid_capacity r1) (?fl(k \<mapsto> q)) evs2" using care(2) cap by simp
  from run_left [OF post, unfolded fst_conv snd_conv, OF lin2 care2 _ assms(5)]
  obtain j' where j': "js k = Some j'" "count_list evs2 (Moves k) + job_left j' \<le> job_left j" by auto
  from run_linear [OF post, unfolded fst_conv snd_conv, OF lin2 care2]
  obtain dk2 fl2 where lin3: "array_lin dk2 fl2 r' js" by blast
  obtain q' where "fl2 k = Some q'" using array_linD(2) [OF lin3] j'(1) by auto
  from thread_gets_on [OF lin3 this j'(1)] obtain r2 j2 where next_op: "thread_step r' j' = (r2, Returns j2)"
    by (auto simp add: gets_on_def)
  have "0 < job_left j'" using step_left [OF lin3 \<open>fl2 k = Some q'\<close> j'(1) next_op] by simp
  moreover have "job_left j \<le> 2 * req_len q + 2"
    by (rule job_begins_left [OF starts(2)])
      (use inside raid_shapeD(4) [OF raid_ok_shape [OF array_linD(1) [OF lin1]]] in simp)
  ultimately show ?thesis using j' next_op by auto
qed

lemma raid_requests_wait_free_witness:
  "\<exists>r js. array_run (demo_raid, Map.empty) (take 9 demo_events) (r, js) \<and>
     (\<exists>j r1 j1. js 0 = Some j \<and> thread_step r j = (r1, Returns j1))"
proof -
  obtain rest where evs: "take 9 demo_events = [] @ Begins 0 (demo_write 2 [1, 2, 3]) # rest"
    and going: "\<forall>a. Ends 0 a \<notin> set rest" by (auto simp add: demo_events_def)
  have "\<exists>y. array_run (demo_raid, Map.empty) (take 9 demo_events) y"
    using demo_events_run array_run_append [of _ "take 9 demo_events" "drop 9 demo_events"] by auto
  then obtain r js where run: "array_run (demo_raid, Map.empty) (take 9 demo_events) (r, js)" by auto
  have care: "careful (raid_capacity demo_raid) Map.empty (take 9 demo_events)"
    using demo_events_careful careful_append [of 8 Map.empty "take 9 demo_events" "drop 9 demo_events"] by simp
  from raid_requests_wait_free [OF demo_raid_ok demo_raid_mirrored run [unfolded evs] care [unfolded evs] going] run
  show ?thesis by blast
qed

end
