(* ===== verification/Nbd_Server.thy ===== *)
theory Nbd_Server
  imports Server_Clients
begin

text \<open>
  The server behind a network block device: the NBD driver keeps the contract of
  \<open>Driver_Contract\<close> on its one socket, so whatever the workers do in whatever order, the kernel
  gets the replies of the abstract disk, whole, in the order of service.
\<close>

section \<open>The NBD driver keeps the contract\<close>

definition nbd_speaks :: "driver \<Rightarrow> vec \<Rightarrow> bool" where
  "nbd_speaks dr out \<longleftrightarrow>
     (\<exists>d. dr = NBD_driver d \<and> accepting (nd_socket d) \<and> sk_out (nd_socket d) = out)"

definition nbd_meets :: "vec \<Rightarrow> int \<Rightarrow> vec" where
  "nbd_meets out fd = out"

definition nbd_tells :: "vec \<Rightarrow> DriverData \<Rightarrow> vec" where
  "nbd_tells out a = out @ nbd_reply_frame a"

lemma nbd_read_outputs:
  assumes "nbd_ReadAll d n = (d', oc)"
  shows "sk_out (nd_socket d') = sk_out (nd_socket d)" and "sk_wr (nd_socket d') = sk_wr (nd_socket d)"
  using assms read_loop_outputs
  by (auto simp add: nbd_ReadAll_def nbd_read_loop_def case_prod_unfold)

lemma nbd_receive_outputs:
  assumes "NBD_ReceiveRequest d fd = (d', oc)"
  shows "sk_out (nd_socket d') = sk_out (nd_socket d) \<and> sk_wr (nd_socket d') = sk_wr (nd_socket d)"
proof -
  obtain d1 oc1 where r1: "nbd_ReadAll d 28 = (d1, oc1)" by fastforce
  note o1 = nbd_read_outputs [OF r1]
  show ?thesis
  proof (cases oc1)
    case (Returns bytes)
    let ?n = "unat (nr_len (parse_nbd_request bytes))"
    obtain d2 oc2 where r2: "nbd_ReadAll d1 ?n = (d2, oc2)" by fastforce
    from assms r1 r2 Returns o1 nbd_read_outputs [OF r2] show ?thesis
      by (cases "nbd_action (nr_type (parse_nbd_request bytes))"; cases oc2)
         (auto simp add: NBD_ReceiveRequest_def Let_def split: if_splits)
  qed (use assms r1 o1 in \<open>auto simp add: NBD_ReceiveRequest_def\<close>)
qed

lemma nbd_receives:
  assumes "nbd_speaks dr out"
  shows "nbd_speaks (fst (Driver_ReceiveRequest dr fd)) out"
proof -
  obtain d where d: "dr = NBD_driver d" "accepting (nd_socket d)" "sk_out (nd_socket d) = out"
    using assms by (auto simp add: nbd_speaks_def)
  obtain d' oc where "NBD_ReceiveRequest d fd = (d', oc)" by fastforce
  with nbd_receive_outputs [OF this] d show ?thesis by (auto simp add: nbd_speaks_def accepting_def)
qed

lemma nbd_replies:
  assumes "nbd_speaks dr out"
  shows "\<exists>dr'. Driver_SendReply dr q = (dr', Returns ()) \<and> nbd_speaks dr' (nbd_tells out q)"
proof -
  obtain d where d: "dr = NBD_driver d" "accepting (nd_socket d)" "sk_out (nd_socket d) = out"
    using assms by (auto simp add: nbd_speaks_def)
  obtain s' where "NBD_SendReply d q = (d\<lparr>nd_socket := s'\<rparr>, Returns ())" "accepting s'"
    "sk_out s' = sk_out (nd_socket d) @ nbd_reply_frame q"
    by (rule nbd_send_open [OF d(2)])
  then show ?thesis using d by (auto simp add: nbd_speaks_def nbd_tells_def)
qed

interpretation nbddc: driver_contract nbd_speaks nbd_meets nbd_tells
proof
  show "nbd_speaks d' (if 0 \<le> c then nbd_meets w c else w)"
    if "nbd_speaks d w" and "Driver_TryAccept d ans fd = (d', c)" for d w ans fd d' c
    using that by (auto simp add: nbd_speaks_def NBD_TryAccept_def)
  show "nbd_speaks (Driver_RemoveClientFD d fd) w" if "nbd_speaks d w" for d w fd
    using that by (auto simp add: nbd_speaks_def NBD_RemoveClientFD_def)
  show "nbd_tells w (q\<lparr>m_buffer := b\<rparr>) = nbd_tells w q" if "m_status q = FAILURE" for q b w
    using that by (simp add: nbd_tells_def nbd_reply_frame_def nbd_reply_header_def)
qed (rule nbd_receives nbd_replies; assumption)+

section \<open>What the contract says of a session\<close>

lemma nbd_contract_step:
  "contract_step nbd_meets nbd_tells (dk, out) ev =
    (case ev of
       Served q \<Rightarrow> (case disk_serve dk q of (dk1, None) \<Rightarrow> (dk1, out) | (dk1, Some a) \<Rightarrow> (dk1, out @ nbd_reply_frame a))
     | _ \<Rightarrow> (dk, out))"
  by (cases ev) (simp_all add: contract_step_def nbd_meets_def nbd_tells_def)

lemma disk_session_contract:
  "foldl (contract_step nbd_meets nbd_tells) (dk, out) evs =
    (fst (disk_session dk (served_in evs)),
     out @ concat (map nbd_reply_frame (snd (disk_session dk (served_in evs)))))"
proof (induction evs arbitrary: dk out rule: served_in.induct)
  case (2 q evs)
  obtain dk1 oa where "disk_serve dk q = (dk1, oa)" by fastforce
  with "2.IH" show ?case by (cases oa) (simp_all add: nbd_contract_step case_prod_unfold)
qed (simp_all add: nbd_contract_step)

lemma NBDDriverComm_socket:
  "NBDDriverComm na dev capacity = Returns d \<Longrightarrow> nd_socket d = na_socket na \<and> nd_serverFd d = na_server na"
  by (auto simp add: NBDDriverComm_def SetUpSignals_def Let_def split: if_splits)

lemma started_nbd_serves:
  assumes "NBDDriverComm na dev capacity = Returns d" and "accepting (na_socket na)"
    and "RunServer hardware ra (NBD_driver d) (Raid_storage r) = Returns sv" and "raid_ok r"
  shows "serves_as nbd_speaks sv (disk_of r, sk_out (na_socket na))"
  using NBDDriverComm_socket [OF assms(1)] RunServer_result [OF assms(3)] assms(2,4)
  by (auto simp add: serves_as_def nbd_speaks_def)

section \<open>Single steps\<close>

text \<open>A whole request on the socket is received in one step.\<close>

lemma nbd_step_receive:
  assumes "sv_driver sv = NBD_driver d" and "fd \<in> map_keys (rx_watched (sv_reactor sv))"
    and "fd \<noteq> rx_signal_fd (sv_reactor sv)" and "nbd_wire_request fd q" and "sock_wf (nd_socket d)"
    and "stream (nd_socket d) = encode_nbd_request q @ rest"
  obtains s' where "server_step sv (Received q) (sv\<lparr>sv_driver := NBD_driver (d\<lparr>nd_socket := s'\<rparr>),
      sv_pool := (sv_pool sv)\<lparr>tp_command := tp_command (sv_pool sv) @ [FunctionCommand q]\<rparr>\<rparr>)"
    and "sock_wf s'" and "stream s' = rest"
proof -
  obtain s' where s': "NBD_ReceiveRequest d fd = (d\<lparr>nd_socket := s'\<rparr>, Returns q)" "sock_wf s'" "stream s' = rest"
    by (rule nbd_receive_front [OF assms(4-6)])
  have "notify_event Accept_failed sv fd = Received q"
    by (simp add: notify_event_def assms(1) NBD_TryAccept_def mediator_receive_def s'(1))
  moreover have "mediator_Notify Accept_failed sv fd = (sv\<lparr>sv_driver := NBD_driver (d\<lparr>nd_socket := s'\<rparr>),
      sv_pool := (sv_pool sv)\<lparr>tp_command := tp_command (sv_pool sv) @ [FunctionCommand q]\<rparr>\<rparr>, Returns ())"
    by (simp add: mediator_Notify_def assms(1) NBD_TryAccept_def mediator_receive_def s'(1)
        mediator_enqueue_def pool_AddCommand_def wpq_Push_def Let_def)
  ultimately show thesis
    using notifies [OF assms(2,3), of Accept_failed] s'(2,3) that by fastforce
qed

section \<open>The kernel's requests\<close>

text \<open>
  In a run on a socket that holds the requests \<open>qs\<close> and nothing else, those received so far are
  the first of them, the others are still on the socket, and the reactor watches it while there are any.
\<close>

definition nbd_pending :: "int \<Rightarrow> DriverData list \<Rightarrow> server \<Rightarrow> event list \<Rightarrow> bool" where
  "nbd_pending fd qs sv evs \<longleftrightarrow>
     map_inv (rx_watched (sv_reactor sv)) \<and>
     map_keys (rx_watched (sv_reactor sv)) \<subseteq> {rx_signal_fd (sv_reactor sv), fd} \<and>
     fd \<noteq> rx_signal_fd (sv_reactor sv) \<and>
     (\<exists>d n. sv_driver sv = NBD_driver d \<and> sock_wf (nd_socket d) \<and> n \<le> length qs \<and>
        received_in evs = take n qs \<and> stream (nd_socket d) = concat (map encode_nbd_request (drop n qs)) \<and>
        (n < length qs \<longrightarrow> fd \<in> map_keys (rx_watched (sv_reactor sv))))"

lemma nbd_receive_nothing:
  assumes "sock_wf (nd_socket d)" and "stream (nd_socket d) = []"
  obtains s' where "NBD_ReceiveRequest d fd = (d\<lparr>nd_socket := s'\<rparr>, snd (NBD_ReceiveRequest d fd))"
    and "\<forall>q. snd (NBD_ReceiveRequest d fd) \<noteq> Returns q" and "sock_wf s'" and "stream s' = []"
proof -
  have "length (stream (nd_socket d)) < 28" using assms(2) by simp
  then obtain s' oc where s': "nbd_read_loop (nd_socket d) 28 = (s', oc)" "consumed (nd_socket d) 0 s'"
    "\<And>bs. oc \<noteq> Returns bs"
    using nbdrd.read_short [OF assms(1)] nbdrd.short_no_value assms(2) by (metis list.size(3))
  then have "nbd_ReadAll d 28 = (d\<lparr>nd_socket := s'\<rparr>, oc)" by (simp add: nbd_ReadAll_def)
  with s'(3) have "fst (NBD_ReceiveRequest d fd) = d\<lparr>nd_socket := s'\<rparr>"
    "\<forall>q. snd (NBD_ReceiveRequest d fd) \<noteq> Returns q"
    by (cases oc; simp add: NBD_ReceiveRequest_def)+
  with that [of s'] consumedD(1,2) [OF s'(2)] assms(2) show thesis by (metis drop0 prod.collapse)
qed

lemma nbd_pending_served:
  assumes "nbd_pending fd qs sv evs" and "replies_once sv sv'" and "received_in evs' = received_in evs"
  shows "nbd_pending fd qs sv' evs'"
proof -
  obtain d n where d: "sv_driver sv = NBD_driver d" "sock_wf (nd_socket d)" "n \<le> length qs"
    "received_in evs = take n qs" "stream (nd_socket d) = concat (map encode_nbd_request (drop n qs))"
    "n < length qs \<longrightarrow> fd \<in> map_keys (rx_watched (sv_reactor sv))"
    using assms(1) by (auto simp add: nbd_pending_def)
  have same: "sk_in (nd_socket (fst (nbd_WriteAll e bs))) = sk_in (nd_socket e)" for e bs
    using nbdwr.reads_unchanged [OF prod.collapse [symmetric], of "nd_socket e" bs]
    by (simp add: nbd_WriteAll_def case_prod_unfold)
  have "sk_in (nd_socket (fst (NBD_SendReply d a))) = sk_in (nd_socket d)" for a
    using same by (cases "nbd_WriteAll d (nbd_reply_header a)"; cases "snd (nbd_WriteAll d (nbd_reply_header a))")
      (auto simp add: NBD_SendReply_def, (metis fst_conv)+)
  moreover obtain d' where "sv_driver sv' = NBD_driver d'" "d' = d \<or> (\<exists>a. d' = fst (NBD_SendReply d a))"
    using assms(2) d(1) by (auto simp add: replies_once_def)
  ultimately show ?thesis
    using assms(1,2,3) d by (auto simp add: nbd_pending_def replies_once_def sock_wf_def stream_def)
qed

lemma nbd_pending_notified:
  assumes "nbd_pending fd qs sv evs" and "\<forall>q \<in> set qs. nbd_wire_request fd q"
    and "mediator_Notify ans sv fd = (sv', Returns ())"
  shows "nbd_pending fd qs sv' (evs @ [notify_event ans sv fd])"
proof -
  obtain d n where d: "sv_driver sv = NBD_driver d" "sock_wf (nd_socket d)" "n \<le> length qs"
    "received_in evs = take n qs" "stream (nd_socket d) = concat (map encode_nbd_request (drop n qs))"
    "n < length qs \<longrightarrow> fd \<in> map_keys (rx_watched (sv_reactor sv))"
    using assms(1) by (auto simp add: nbd_pending_def)
  have sv: "sv\<lparr>sv_driver := NBD_driver d\<rparr> = sv" using d(1) by simp
  have received: "mediator_receive sv fd = (sv\<lparr>sv_driver := NBD_driver (fst (NBD_ReceiveRequest d fd))\<rparr>,
      snd (NBD_ReceiveRequest d fd))"
    by (simp add: mediator_receive_def d(1) case_prod_unfold map_prod_def)
  show ?thesis
  proof (cases "n < length qs")
    case True
    have "stream (nd_socket d) = encode_nbd_request (qs ! n) @ concat (map encode_nbd_request (drop (Suc n) qs))"
      using d(5) True by (simp add: Cons_nth_drop_Suc [symmetric])
    moreover have "nbd_wire_request fd (qs ! n)" using assms(2) True by simp
    ultimately obtain s' where s': "NBD_ReceiveRequest d fd = (d\<lparr>nd_socket := s'\<rparr>, Returns (qs ! n))"
      "sock_wf s'" "stream s' = concat (map encode_nbd_request (drop (Suc n) qs))"
      using nbd_receive_front [OF _ d(2)] by metis
    have ev: "notify_event ans sv fd = Received (qs ! n)"
      by (simp add: notify_event_def d(1) sv NBD_TryAccept_def received s'(1))
    have "sv_driver sv' = NBD_driver (d\<lparr>nd_socket := s'\<rparr>)" "sv_reactor sv' = sv_reactor sv"
      using assms(3)
      by (auto simp add: mediator_Notify_def d(1) sv NBD_TryAccept_def received s'(1) mediator_enqueue_def
          pool_AddCommand_def wpq_Push_def Let_def)
    moreover have "received_in (evs @ [Received (qs ! n)]) = take (Suc n) qs"
      using d(4) True by (simp add: take_Suc_conv_app_nth)
    ultimately show ?thesis
      unfolding ev using assms(1) s'(2,3) True d(6) by (auto simp add: nbd_pending_def intro!: exI [of _ "Suc n"])
  next
    case False
    then have "stream (nd_socket d) = []" using d(5) by simp
    then obtain s' where s': "NBD_ReceiveRequest d fd = (d\<lparr>nd_socket := s'\<rparr>, snd (NBD_ReceiveRequest d fd))"
      "\<forall>q. snd (NBD_ReceiveRequest d fd) \<noteq> Returns q" "sock_wf s'" "stream s' = []"
      by (rule nbd_receive_nothing [OF d(2), where fd = fd])
    have fst_s': "fst (NBD_ReceiveRequest d fd) = d\<lparr>nd_socket := s'\<rparr>" by (subst s'(1)) simp
    have ev: "notify_event ans sv fd = Dropped fd"
      using s'(2) by (simp add: notify_event_def d(1) sv NBD_TryAccept_def received split: outcome.splits)
    obtain e where e: "snd (NBD_ReceiveRequest d fd) = Throws e"
      using assms(3) s'(2) by (cases "snd (NBD_ReceiveRequest d fd)")
        (auto simp add: mediator_Notify_def d(1) sv NBD_TryAccept_def received Let_def)
    have "sv_driver sv' = NBD_driver (d\<lparr>nd_socket := s'\<rparr>)"
      "sv_reactor sv' = (sv_reactor sv)\<lparr>rx_watched := map_erase fd (rx_watched (sv_reactor sv))\<rparr>"
      using assms(3)
      by (auto simp add: mediator_Notify_def d(1) sv NBD_TryAccept_def received e fst_s' mediator_remove_def
          Reactor_Remove_def NBD_RemoveClientFD_def Let_def split: if_splits)
    then show ?thesis
      unfolding ev using assms(1) s'(3,4) d(3,4) False
      by (auto simp add: nbd_pending_def intro!: exI [of _ n])
  qed
qed

lemma nbd_pending_step:
  assumes "server_step sv ev sv'" and "nbd_pending fd qs sv evs" and "\<forall>q \<in> set qs. nbd_wire_request fd q"
  shows "nbd_pending fd qs sv' (evs @ [ev])"
  using assms(1)
proof cases
  case (notifies fd' ans)
  then have "fd' = fd" using assms(2) by (auto simp add: nbd_pending_def)
  with nbd_pending_notified [OF assms(2,3)] notifies(1,5) show ?thesis by simp
next
  case (works p)
  then show ?thesis using assms(2) by (simp add: nbd_pending_def)
next
  case (serves p prio q oc)
  have "nbd_pending fd qs (sv\<lparr>sv_pool := p\<rparr>) evs" using assms(2) by (simp add: nbd_pending_def)
  moreover have "replies_once (sv\<lparr>sv_pool := p\<rparr>) sv'"
    using Execute_replies [of "sv\<lparr>sv_pool := p\<rparr>" q] serves(4) by simp
  ultimately show ?thesis by (rule nbd_pending_served) (simp add: serves(1))
qed

lemma run_nbd_pending:
  assumes "NBDDriverComm na dev capacity = Returns d"
    and "RunServer hardware ra (NBD_driver d) st = Returns sv"
    and "sock_wf (na_socket na)" and "stream (na_socket na) = concat (map encode_nbd_request qs)"
    and "\<forall>q \<in> set qs. nbd_wire_request (na_server na) q" and "server_run sv evs sv'"
  shows "nbd_pending (na_server na) qs sv' evs"
proof -
  have "nbd_pending (na_server na) qs sv []"
    unfolding nbd_pending_def RunServer_result(4,5) [OF assms(2)]
    using RunServer_result(1,6) [OF assms(2)] NBDDriverComm_socket [OF assms(1)] assms(3,4)
    by (auto simp add: NBD_GetFD_def map_inv_def intro!: exI [of _ "0 :: nat"])
  with assms(6) show ?thesis
    using assms(5) by (induction rule: server_run.induct) (auto intro: nbd_pending_step)
qed

text \<open>Only what was received is served.\<close>

lemma accounted_served:
  assumes "accounted sv evs"
  shows "mset (served_in evs) \<subseteq># mset (received_in evs)"
  using assms by (intro FunctionCommand_subseteq) (simp add: accounted_def)

end
