(* ===== verification/Server_Threads.thy ===== *)
theory Server_Threads
  imports Raid_Linear Server_Schedules Nbd_Server
begin

text \<open>
  The running server with its handlers taken apart: a worker that executes a request goes through
  the storage one operation on a minion or on the metadata at a time, and sends its reply in a step
  of its own. Reactor, clients and other workers may come in everywhere in between. What such a
  server promises is the disk again, whose requests happen in the order in which they leave the
  storage; the replies follow in any order.
\<close>

section \<open>Workers with a request\<close>

text \<open>In the storage, or on the way to the driver with the answer.\<close>

datatype serving =
    Storing DriverData job
  | Replying DriverData DriverData

definition busy_at :: "server \<Rightarrow> nat \<Rightarrow> DriverData \<Rightarrow> bool" where
  "busy_at sv k q \<longleftrightarrow> k < length (tp_threads (sv_pool sv)) \<and> tp_threads (sv_pool sv) ! k = Busy (FunctionCommand q)"

text \<open>The worker is done with the command: back to the queue.\<close>

definition finishes :: "server \<Rightarrow> nat \<Rightarrow> DriverData \<Rightarrow> server" where
  "finishes sv k q = sv\<lparr>sv_pool := (sv_pool sv)\<lparr>tp_threads := (tp_threads (sv_pool sv))[k := Idle],
     tp_done := tp_done (sv_pool sv) @ [FunctionCommand q]\<rparr>\<rparr>"

datatype thread_event =
    Reacts event
  | Pools
  | Enters nat DriverData
  | Works nat
  | Completes nat DriverData DriverData
  | Replies nat DriverData DriverData
  | Ignores nat DriverData

inductive threads_step ::
  "server \<times> (nat \<rightharpoonup> serving) \<Rightarrow> thread_event \<Rightarrow> server \<times> (nat \<rightharpoonup> serving) \<Rightarrow> bool" where
  reacts: "fd \<in> map_keys (rx_watched (sv_reactor sv)) \<Longrightarrow> fd \<noteq> rx_signal_fd (sv_reactor sv) \<Longrightarrow>
     kernel_accepts sv ans \<Longrightarrow> mediator_Notify ans sv fd = (sv', Returns ()) \<Longrightarrow>
     threads_step (sv, js) (Reacts (notify_event ans sv fd)) (sv', js)"
| pools: "worker_step (sv_pool sv) p \<Longrightarrow> tp_done p = tp_done (sv_pool sv) \<Longrightarrow>
     threads_step (sv, js) Pools (sv\<lparr>sv_pool := p\<rparr>, js)"
| enters: "busy_at sv k q \<Longrightarrow> js k = None \<Longrightarrow> handler_job q = Some j \<Longrightarrow>
     threads_step (sv, js) (Enters k q) (sv, js(k \<mapsto> Storing q j))"
| works: "js k = Some (Storing q j) \<Longrightarrow> sv_storage sv = Raid_storage r \<Longrightarrow>
     thread_step r j = (r', Returns j') \<Longrightarrow> (\<forall>a. j' \<noteq> Finished a) \<Longrightarrow>
     threads_step (sv, js) (Works k) (sv\<lparr>sv_storage := Raid_storage r'\<rparr>, js(k \<mapsto> Storing q j'))"
| completes: "js k = Some (Storing q j) \<Longrightarrow> sv_storage sv = Raid_storage r \<Longrightarrow>
     thread_step r j = (r', Returns (Finished a)) \<Longrightarrow>
     threads_step (sv, js) (Completes k q a) (sv\<lparr>sv_storage := Raid_storage r'\<rparr>, js(k \<mapsto> Replying q a))"
| replies: "js k = Some (Replying q a) \<Longrightarrow> mediator_reply sv a = (sv', oc) \<Longrightarrow> goes_on oc \<Longrightarrow>
     threads_step (sv, js) (Replies k q a) (finishes sv' k q, js(k := None))"
| ignores: "busy_at sv k q \<Longrightarrow> js k = None \<Longrightarrow> handler_job q = None \<Longrightarrow>
     mediator_Execute sv q = (sv', oc) \<Longrightarrow> goes_on oc \<Longrightarrow>
     threads_step (sv, js) (Ignores k q) (finishes sv' k q, js)"

inductive_cases threads_stepE: "threads_step x ev y"

inductive threads_run ::
  "server \<times> (nat \<rightharpoonup> serving) \<Rightarrow> thread_event list \<Rightarrow> server \<times> (nat \<rightharpoonup> serving) \<Rightarrow> bool" where
  threads_nil: "threads_run x [] x"
| threads_snoc: "threads_run x evs y \<Longrightarrow> threads_step y ev z \<Longrightarrow> threads_run x (evs @ [ev]) z"

section \<open>What a run says\<close>

fun array_event_of :: "thread_event \<Rightarrow> array_event list" where
  "array_event_of (Enters k q) = [Begins k q]"
| "array_event_of (Works k) = [Moves k]"
| "array_event_of (Completes k q a) = [Ends k a]"
| "array_event_of _ = []"

definition array_events :: "thread_event list \<Rightarrow> array_event list" where
  "array_events evs = concat (map array_event_of evs)"

text \<open>The requests in the order in which they leave the storage, with their answers, and the replies.\<close>

fun completed_of :: "thread_event \<Rightarrow> (nat \<times> DriverData \<times> DriverData) list" where
  "completed_of (Completes k q a) = [(k, q, a)]"
| "completed_of _ = []"

definition completed :: "thread_event list \<Rightarrow> (nat \<times> DriverData \<times> DriverData) list" where
  "completed evs = concat (map completed_of evs)"

definition completed_by :: "nat \<Rightarrow> thread_event list \<Rightarrow> (DriverData \<times> DriverData) list" where
  "completed_by k evs = map snd (filter (\<lambda>x. fst x = k) (completed evs))"

fun reply_of :: "nat \<Rightarrow> thread_event \<Rightarrow> (DriverData \<times> DriverData) list" where
  "reply_of k (Replies j q a) = (if j = k then [(q, a)] else [])"
| "reply_of k _ = []"

definition replies_by :: "nat \<Rightarrow> thread_event list \<Rightarrow> (DriverData \<times> DriverData) list" where
  "replies_by k evs = concat (map (reply_of k) evs)"

fun reply_due :: "serving option \<Rightarrow> (DriverData \<times> DriverData) list" where
  "reply_due (Some (Replying q a)) = [(q, a)]"
| "reply_due _ = []"

text \<open>What a peer has been sent since its connection was made.\<close>

fun told_step :: "('w \<Rightarrow> int \<Rightarrow> 'w) \<Rightarrow> ('w \<Rightarrow> DriverData \<Rightarrow> 'w) \<Rightarrow> 'w \<Rightarrow> thread_event \<Rightarrow> 'w" where
  "told_step meets tells w (Reacts (Connected fd)) = meets w fd"
| "told_step meets tells w (Replies k q a) = tells w a"
| "told_step meets tells w ev = w"

definition jobs_of :: "(nat \<rightharpoonup> serving) \<Rightarrow> nat \<rightharpoonup> job" where
  "jobs_of js = (\<lambda>k. case js k of Some (Storing q j) \<Rightarrow> Some j | _ \<Rightarrow> None)"

definition flight_of :: "(nat \<rightharpoonup> serving) \<Rightarrow> nat \<rightharpoonup> DriverData" where
  "flight_of js = (\<lambda>k. case js k of Some (Storing q j) \<Rightarrow> Some q | _ \<Rightarrow> None)"

lemma serving_at [simp]:
  "js k = None \<Longrightarrow> jobs_of js k = None" "js k = None \<Longrightarrow> flight_of js k = None"
  "js k = Some (Storing q j) \<Longrightarrow> jobs_of js k = Some j" "js k = Some (Storing q j) \<Longrightarrow> flight_of js k = Some q"
  "js k = Some (Replying q a) \<Longrightarrow> jobs_of js k = None" "js k = Some (Replying q a) \<Longrightarrow> flight_of js k = None"
  by (simp_all add: jobs_of_def flight_of_def)

lemma serving_updates [simp]:
  "jobs_of (js(k \<mapsto> Storing q j)) = (jobs_of js)(k \<mapsto> j)"
  "jobs_of (js(k \<mapsto> Replying q a)) = (jobs_of js)(k := None)"
  "jobs_of (js(k := None)) = (jobs_of js)(k := None)"
  "flight_of (js(k \<mapsto> Storing q j)) = (flight_of js)(k \<mapsto> q)"
  "flight_of (js(k \<mapsto> Replying q a)) = (flight_of js)(k := None)"
  "flight_of (js(k := None)) = (flight_of js)(k := None)"
  "jobs_of (\<lambda>k. None) = (\<lambda>k. None)" "flight_of (\<lambda>k. None) = (\<lambda>k. None)"
  by (auto simp add: fun_eq_iff jobs_of_def flight_of_def)

section \<open>The storage goes its own way\<close>

lemma mediator_receive_storage: "mediator_receive sv fd = (sv', oc) \<Longrightarrow> sv_storage sv' = sv_storage sv"
  by (auto simp add: mediator_receive_def split: prod.splits)

lemma Notify_storage:
  assumes "mediator_Notify ans sv fd = (sv', Returns ())"
  shows "sv_storage sv' = sv_storage sv"
  using assms
proof (cases rule: Notify_cases)
  case (connected d c)
  then show ?thesis using mediator_add_fields(2) [OF connected(3)] by simp
next
  case (received d c sv1 q)
  then show ?thesis using mediator_receive_storage [OF received(3)] by simp
next
  case (dropped d c sv1 e sv2)
  then show ?thesis
    using mediator_receive_storage [OF dropped(3)] mediator_remove_fields(2) [OF dropped(4)] by simp
qed

lemma mediator_reply_fields:
  assumes "mediator_reply sv a = (sv', oc)"
  shows "sv_storage sv' = sv_storage sv" and "sv_pool sv' = sv_pool sv" and "sv_reactor sv' = sv_reactor sv"
    and "Driver_SendReply (sv_driver sv) a = (sv_driver sv', oc)"
  using assms by (auto simp add: mediator_reply_def split: prod.splits)

lemma ignored:
  assumes "handler_job q = None"
  shows "fst (mediator_Execute sv q) = sv" and "goes_on (snd (mediator_Execute sv q))"
  using assms by (auto simp add: mediator_Execute_def handle_DISCONNECT_def split: ActionType.splits)

lemma finishes_fields [simp]:
  "sv_storage (finishes sv k q) = sv_storage sv" "sv_driver (finishes sv k q) = sv_driver sv"
  "sv_reactor (finishes sv k q) = sv_reactor sv"
  by (simp_all add: finishes_def)

lemma step_array:
  assumes "threads_step (sv, js) ev (sv', js')" and "sv_storage sv = Raid_storage r"
  obtains r' where "sv_storage sv' = Raid_storage r'"
    and "array_run (r, jobs_of js) (array_event_of ev) (r', jobs_of js')"
    and "flight_of js' = foldl flies (flight_of js) (array_event_of ev)"
    and "map (fst \<circ> snd) (completed_of ev) = ended (flight_of js) (array_event_of ev)"
    and "map (snd \<circ> snd) (completed_of ev) = answered (array_event_of ev)"
  using assms(1)
proof cases
  case (reacts fd ans)
  then show ?thesis using that [of r] Notify_storage [OF reacts(6)] assms(2) by simp
next
  case (pools p)
  then show ?thesis using that [of r] assms(2) by simp
next
  case (enters k q j)
  then show ?thesis
    using that [of r] assms(2) array_step.begins [of "jobs_of js" k q j r] array_run.array_cons array_run.array_nil
    by (auto simp del: handler_job.simps fun_upd_apply)
next
  case (works k q j r0 r1 j')
  have "array_step (r, jobs_of js) (Moves k) (r1, (jobs_of js)(k \<mapsto> j'))"
    using works assms(2) by (intro array_step.moves) auto
  moreover have "(flight_of js)(k \<mapsto> q) = flight_of js" using works by (simp add: fun_upd_idem)
  ultimately show ?thesis
    using that [of r1] works array_run.array_cons array_run.array_nil by (auto simp del: fun_upd_apply)
next
  case (completes k q j r0 r1 a)
  have "array_step (r, jobs_of js) (Ends k a) (r1, (jobs_of js)(k := None))"
    using completes assms(2) by (intro array_step.ends) auto
  then show ?thesis
    using that [of r1] completes array_run.array_cons array_run.array_nil by (auto simp del: fun_upd_apply)
next
  case (replies k q a sv1 oc)
  have "(jobs_of js)(k := None) = jobs_of js" "(flight_of js)(k := None) = flight_of js"
    using replies by (simp_all add: fun_upd_idem)
  then show ?thesis
    using that [of r] replies mediator_reply_fields(1) [OF replies(5)] assms(2) by (simp del: fun_upd_apply)
next
  case (ignores k q sv1 oc)
  then show ?thesis using that [of r] ignored(1) [OF ignores(6), of sv] assms(2) by simp
qed

lemma ended_append: "ended fl (as @ bs) = ended fl as @ ended (foldl flies fl as) bs"
proof (induction as arbitrary: fl)
  case (Cons ev as)
  then show ?case by (cases ev) (simp_all del: fun_upd_apply)
qed simp

lemma answered_append: "answered (as @ bs) = answered as @ answered bs"
  by (induction as rule: answered.induct) simp_all

lemma array_events_snoc [simp]:
  "array_events [] = []" "array_events (evs @ [ev]) = array_events evs @ array_event_of ev"
  "completed [] = []" "completed (evs @ [ev]) = completed evs @ completed_of ev"
  by (simp_all add: array_events_def completed_def)

definition run_of_array :: "thread_event list \<Rightarrow> raid \<Rightarrow> (nat \<rightharpoonup> serving) \<Rightarrow> bool" where
  "run_of_array evs r js \<longleftrightarrow> flight_of js = foldl flies Map.empty (array_events evs) \<and>
     map (fst \<circ> snd) (completed evs) = ended Map.empty (array_events evs) \<and>
     map (snd \<circ> snd) (completed evs) = answered (array_events evs)"

lemma run_array:
  assumes "threads_run x evs y" and "x = (sv, \<lambda>k. None)" and "sv_storage sv = Raid_storage r"
  shows "\<exists>r'. sv_storage (fst y) = Raid_storage r' \<and>
    array_run (r, Map.empty) (array_events evs) (r', jobs_of (snd y)) \<and> run_of_array evs r' (snd y)"
  using assms
proof (induction rule: threads_run.induct)
  case (threads_nil x)
  then show ?case by (simp add: run_of_array_def)
next
  case (threads_snoc x evs y ev z)
  obtain sv1 js1 sv2 js2 where yz: "y = (sv1, js1)" "z = (sv2, js2)" by (metis prod.exhaust)
  from threads_snoc.IH [OF threads_snoc.prems] yz obtain r1 where r1: "sv_storage sv1 = Raid_storage r1"
    "array_run (r, Map.empty) (array_events evs) (r1, jobs_of js1)" "run_of_array evs r1 js1" by auto
  obtain r2 where r2: "sv_storage sv2 = Raid_storage r2"
    "array_run (r1, jobs_of js1) (array_event_of ev) (r2, jobs_of js2)"
    "flight_of js2 = foldl flies (flight_of js1) (array_event_of ev)"
    "map (fst \<circ> snd) (completed_of ev) = ended (flight_of js1) (array_event_of ev)"
    "map (snd \<circ> snd) (completed_of ev) = answered (array_event_of ev)"
    by (rule step_array [OF threads_snoc.hyps(2) [unfolded yz] r1(1)])
  have "array_run (r, Map.empty) (array_events (evs @ [ev])) (r2, jobs_of js2)"
    using r1(2) r2(2) by (auto simp add: array_run_append)
  moreover have "run_of_array (evs @ [ev]) r2 js2"
    using r1(3) r2(3-5) by (simp add: run_of_array_def ended_append answered_append)
  ultimately show ?case using r2(1) yz(2) by auto
qed

section \<open>Every answer is sent once\<close>

lemma run_replies:
  assumes "threads_run x evs y" and "snd x = (\<lambda>k. None)"
  shows "completed_by k evs = replies_by k evs @ reply_due (snd y k)"
  using assms
proof (induction rule: threads_run.induct)
  case (threads_snoc x evs y ev z)
  have "completed_by k (evs @ [ev]) = completed_by k evs @ completed_by k [ev]"
    "replies_by k (evs @ [ev]) = replies_by k evs @ replies_by k [ev]"
    by (simp_all add: completed_by_def completed_def replies_by_def)
  moreover have "reply_due (snd y k) @ completed_by k [ev] = replies_by k [ev] @ reply_due (snd z k)"
    using threads_snoc.hyps(2)
    by cases (auto simp add: completed_by_def completed_def replies_by_def)
  ultimately show ?case using threads_snoc.IH [OF threads_snoc.prems] by simp
qed (simp add: completed_by_def completed_def replies_by_def)

section \<open>What the peers are sent\<close>

context driver_contract
begin

lemma notify_speaks:
  assumes "speaks (sv_driver sv) w" and "kernel_accepts sv ans" and "mediator_Notify ans sv fd = (sv', Returns ())"
  shows "speaks (sv_driver sv') (told_step meets tells w (Reacts (notify_event ans sv fd)))"
  using assms(3)
proof (cases rule: Notify_cases)
  case (connected d c)
  have "speaks d (meets w c)"
    using accepts [OF assms(1) kernel_accepts_ok [OF assms(2)] connected(1)] connected(2) by simp
  then show ?thesis using mediator_add_fields(1) [OF connected(3)] connected(4) by simp
next
  case (received d c sv1 q)
  have "speaks d w" using accepts [OF assms(1) kernel_accepts_ok [OF assms(2)] received(1)] received(2) by simp
  moreover have "sv_driver sv1 = fst (Driver_ReceiveRequest d fd)"
    using received(3) by (auto simp add: mediator_receive_def split: prod.splits)
  ultimately show ?thesis using receives received(4,5) by simp
next
  case (dropped d c sv1 e sv2)
  have "speaks d w" using accepts [OF assms(1) kernel_accepts_ok [OF assms(2)] dropped(1)] dropped(2) by simp
  moreover have "sv_driver sv1 = fst (Driver_ReceiveRequest d fd)"
    using dropped(3) by (auto simp add: mediator_receive_def split: prod.splits)
  ultimately show ?thesis
    using receives forgets mediator_remove_fields(1) [OF dropped(4)] dropped(5,6) by simp
qed

lemma reply_speaks: "speaks d w \<Longrightarrow> Driver_SendReply d a = (d', oc) \<Longrightarrow> speaks d' (tells w a)"
  using replies [of d w a] by auto

lemma run_speaks:
  assumes "threads_run x evs y" and "speaks (sv_driver (fst x)) w"
  shows "speaks (sv_driver (fst y)) (foldl (told_step meets tells) w evs)"
  using assms
proof (induction rule: threads_run.induct)
  case (threads_snoc x evs y ev z)
  let ?w = "foldl (told_step meets tells) w evs"
  have here: "speaks (sv_driver (fst y)) ?w" by (rule threads_snoc.IH [OF threads_snoc.prems])
  from threads_snoc.hyps(2) have "speaks (sv_driver (fst z)) (told_step meets tells ?w ev)"
  proof cases
    case (reacts fd sv ans sv' js)
    then show ?thesis using notify_speaks [of sv ?w ans fd sv'] here by simp
  next
    case (replies js k q a sv sv' oc)
    then show ?thesis using reply_speaks [OF here] mediator_reply_fields(4) [OF replies(5)] by simp
  next
    case (ignores sv k q js sv' oc)
    then show ?thesis using here ignored(1) [OF ignores(6), of sv] ignores by simp
  qed (use here in simp_all)
  then show ?case by simp
qed simp

end

section \<open>Every request is answered once\<close>

text \<open>A worker that is in the storage or has an answer still holds its command.\<close>

fun request_of :: "serving \<Rightarrow> DriverData" where
  "request_of (Storing q j) = q"
| "request_of (Replying q a) = q"

definition all_busy :: "server \<Rightarrow> (nat \<rightharpoonup> serving) \<Rightarrow> bool" where
  "all_busy sv js \<longleftrightarrow> (\<forall>k x. js k = Some x \<longrightarrow> busy_at sv k (request_of x))"

lemma all_busyD: "all_busy sv js \<Longrightarrow> js k = Some x \<Longrightarrow> busy_at sv k (request_of x)"
  by (simp add: all_busy_def)

text \<open>As the plain events of \<open>Server_Runs\<close>: a request is served when its reply is sent.\<close>

fun plain_event_of :: "thread_event \<Rightarrow> event list" where
  "plain_event_of (Reacts ev) = [ev]"
| "plain_event_of (Replies k q a) = [Served q]"
| "plain_event_of (Ignores k q) = [Served q]"
| "plain_event_of _ = []"

definition plain_events :: "thread_event list \<Rightarrow> event list" where
  "plain_events evs = concat (map plain_event_of evs)"

lemma plain_events_snoc [simp]:
  "plain_events [] = []" "plain_events (evs @ [ev]) = plain_events evs @ plain_event_of ev"
  by (simp_all add: plain_events_def)

lemma finishes_step:
  assumes "busy_at sv k q"
  shows "worker_step (sv_pool sv) (sv_pool (finishes sv k q))"
    and "tp_done (sv_pool (finishes sv k q)) = tp_done (sv_pool sv) @ [FunctionCommand q]"
  using executes [of k "sv_pool sv" "FunctionCommand q" Idle "[FunctionCommand q]"] assms
  by (simp_all add: busy_at_def finishes_def FunctionCommand_def)

lemma finishes_accounted:
  assumes "busy_at sv k q" and "accounted sv evs"
  shows "accounted (finishes sv k q) (evs @ [Served q])"
  using in_hand_served [OF finishes_step [OF assms(1)]] assms(2) by (simp add: accounted_def)

lemma Notify_threads:
  assumes "mediator_Notify ans sv fd = (sv', Returns ())"
  shows "tp_threads (sv_pool sv') = tp_threads (sv_pool sv)"
  using assms
proof (cases rule: Notify_cases)
  case (connected d c)
  then show ?thesis using mediator_add_fields(3) [OF connected(3)] by simp
next
  case (received d c sv1 q)
  then show ?thesis using receive_pool [OF received(3)] by simp
next
  case (dropped d c sv1 e sv2)
  then show ?thesis using receive_pool [OF dropped(3)] mediator_remove_fields(3) [OF dropped(4)] by simp
qed

text \<open>A step of the pool that executes no command of a user leaves the workers with a request alone.\<close>

lemma pool_step_busy:
  assumes "worker_step p p'" and "tp_done p' = tp_done p" and "k < length (tp_threads p)"
    and "tp_threads p ! k = Busy (FunctionCommand q)"
  shows "k < length (tp_threads p') \<and> tp_threads p' ! k = Busy (FunctionCommand q)"
  using assms(1)
proof cases
  case (takes i n c qs)
  then show ?thesis using assms(3,4) by (auto simp add: nth_list_update)
next
  case (executes i c w executed)
  then have "executed = []" using assms(2) by simp
  then have "i \<noteq> k" using executes assms(4) by (auto simp add: FunctionCommand_def)
  then show ?thesis using executes assms(3,4) by simp
next
  case (sleeps i)
  then show ?thesis using assms(3,4) by (auto simp add: nth_list_update)
qed

lemma busy_elsewhere: "busy_at sv k q \<Longrightarrow> k \<noteq> i \<Longrightarrow> busy_at (finishes sv i q') k q"
  by (simp add: busy_at_def finishes_def)

lemma busy_cong: "sv_pool sv' = sv_pool sv \<Longrightarrow> busy_at sv' k q \<longleftrightarrow> busy_at sv k q"
  by (simp add: busy_at_def)

lemma accounted_cong: "sv_pool sv' = sv_pool sv \<Longrightarrow> accounted sv' evs \<longleftrightarrow> accounted sv evs"
  by (simp add: accounted_def)

lemma step_counts:
  assumes "threads_step x ev y" and "all_busy (fst x) (snd x)" and "accounted (fst x) (plain_events evs)"
  shows "all_busy (fst y) (snd y) \<and> accounted (fst y) (plain_events (evs @ [ev]))"
  using assms(1)
proof cases
  case (reacts fd sv ans sv' js)
  then have "server_step sv (notify_event ans sv fd) sv'" by (intro notifies)
  from accounted_step [OF this] show ?thesis
    using assms(2,3) reacts Notify_threads [OF reacts(7)] by (auto simp add: all_busy_def busy_at_def)
next
  case (pools sv p js)
  then have "server_step sv Internal (sv\<lparr>sv_pool := p\<rparr>)" by (intro server_step.works)
  from accounted_step [OF this] have "accounted (sv\<lparr>sv_pool := p\<rparr>) (plain_events evs)"
    using assms(3) pools by (simp add: accounted_def)
  then show ?thesis
    using assms(2) pools pool_step_busy [OF pools(4,5)] by (auto simp add: all_busy_def busy_at_def)
next
  case (replies js k q a sv sv' oc)
  have pool: "sv_pool sv' = sv_pool sv" by (rule mediator_reply_fields(2) [OF replies(5)])
  have busy: "busy_at sv' k q"
    using assms(2) replies unfolding all_busy_def busy_cong [OF pool]
    by (metis fst_conv snd_conv request_of.simps(2))
  moreover have "accounted sv' (plain_events evs)" using assms(3) replies by (simp add: accounted_cong [OF pool])
  moreover have "all_busy (finishes sv' k q) (js(k := None))"
    using assms(2) replies by (auto simp add: all_busy_def busy_elsewhere busy_cong [OF pool])
  ultimately show ?thesis using finishes_accounted replies by simp
next
  case (ignores sv k q js sv' oc)
  have same: "sv' = sv" using ignored(1) [OF ignores(6), of sv] ignores by simp
  have "all_busy (finishes sv k q) js"
    using assms(2) ignores by (auto simp add: all_busy_def intro!: busy_elsewhere)
  then show ?thesis using finishes_accounted [OF ignores(4)] assms(3) ignores same by simp
next
  case (enters sv k q js j)
  then show ?thesis using assms(2,3) by (auto simp add: all_busy_def)
next
  case (works js k q j sv r r' j')
  then show ?thesis using assms(2,3) by (auto simp add: all_busy_def busy_at_def accounted_def)
next
  case (completes js k q j sv r r' a)
  then show ?thesis using assms(2,3) by (auto simp add: all_busy_def busy_at_def accounted_def)
qed

lemma run_counts:
  assumes "threads_run x evs y" and "snd x = (\<lambda>k. None)" and "accounted (fst x) []"
  shows "all_busy (fst y) (snd y) \<and> accounted (fst y) (plain_events evs)"
  using assms
proof (induction rule: threads_run.induct)
  case (threads_snoc x evs y ev z)
  from step_counts [OF threads_snoc.hyps(2)] threads_snoc.IH [OF threads_snoc.prems] show ?case by blast
qed (simp add: all_busy_def)

section \<open>A run\<close>

lemma threads_run_append: "threads_run y bs z \<Longrightarrow> threads_run x as y \<Longrightarrow> threads_run x (as @ bs) z"
proof (induction rule: threads_run.induct)
  case (threads_snoc y evs z ev z')
  then show ?case using threads_run.threads_snoc [of x "as @ evs" z ev z'] by simp
qed simp

lemma threads_run_one: "threads_step x ev y \<Longrightarrow> threads_run x [ev] y"
  using threads_snoc [OF threads_nil, of x ev y] by simp

text \<open>A run of the server in which nothing is served, and a run of the array over its busy workers.\<close>

lemma plain_run_lifts:
  assumes "server_run sv evs sv'" and "\<forall>q. Served q \<notin> set evs"
  shows "\<exists>evs'. threads_run (sv, \<lambda>k. None) evs' (sv', \<lambda>k. None) \<and> array_events evs' = [] \<and>
    received_in (plain_events evs') = received_in evs"
  using assms
proof (induction rule: server_run.induct)
  case (run_nil sv)
  have "threads_run (sv, \<lambda>k. None) [] (sv, \<lambda>k. None)" by (rule threads_nil)
  then show ?case by (intro exI [of _ "[]"]) simp
next
  case (run_snoc sv evs sv1 ev sv2)
  then obtain evs' where evs': "threads_run (sv, \<lambda>k. None) evs' (sv1, \<lambda>k. None)" "array_events evs' = []"
    "received_in (plain_events evs') = received_in evs" by auto
  have "\<exists>ev'. threads_step (sv1, \<lambda>k. None) ev' (sv2, \<lambda>k. None) \<and> array_event_of ev' = [] \<and>
      received_in (plain_event_of ev') = received_in [ev]"
    using run_snoc.hyps(2)
  proof cases
    case (notifies fd ans)
    then show ?thesis
      using reacts [of fd sv1 ans sv2] by (intro exI [of _ "Reacts (notify_event ans sv1 fd)"]) simp
  next
    case (works p)
    then show ?thesis using pools [of sv1 p] by (intro exI [of _ Pools]) simp
  next
    case (serves p pr q oc)
    then show ?thesis using run_snoc.prems by auto
  qed
  then obtain ev' where ev': "threads_step (sv1, \<lambda>k. None) ev' (sv2, \<lambda>k. None)" "array_event_of ev' = []"
    "received_in (plain_event_of ev') = received_in [ev]" by blast
  then show ?case
    using evs' threads_snoc [OF evs'(1) ev'(1)] by (intro exI [of _ "evs' @ [ev']"]) simp
qed

fun begun :: "array_event list \<Rightarrow> nat list" where
  "begun [] = []"
| "begun (Begins k q # evs) = k # begun evs"
| "begun (ev # evs) = begun evs"

lemma begun_set: "Begins k q \<in> set evs \<Longrightarrow> k \<in> set (begun evs)"
  by (induction evs rule: begun.induct) auto

lemma array_run_lifts:
  assumes "array_run x aevs y" and "x = (r, jobs_of js)" and "sv_storage sv = Raid_storage r"
    and "\<forall>k q. Begins k q \<in> set aevs \<longrightarrow> busy_at sv k q \<and> js k = None" and "distinct (begun aevs)"
  shows "\<exists>evs sv' js'. threads_run (sv, js) evs (sv', js') \<and> array_events evs = aevs \<and>
    sv_storage sv' = Raid_storage (fst y) \<and> received_in (plain_events evs) = []"
  using assms
proof (induction arbitrary: r js sv)
  case (array_nil x)
  have "threads_run (sv, js) [] (sv, js)" by (rule threads_nil)
  then show ?case using array_nil by (intro exI [of _ "[]"] exI [of _ sv] exI [of _ js]) simp
next
  case (array_cons x aev y aevs z)
  have "\<exists>ev sv1 js1. threads_step (sv, js) ev (sv1, js1) \<and> array_event_of ev = [aev] \<and> y = (fst y, jobs_of js1) \<and>
      sv_storage sv1 = Raid_storage (fst y) \<and> sv_pool sv1 = sv_pool sv \<and>
      (\<forall>k. js1 k = None \<longleftrightarrow> js k = None \<and> (\<forall>q. aev \<noteq> Begins k q)) \<and> received_in (plain_event_of ev) = []"
    using array_cons.hyps(1)
  proof cases
    case (begins jb k q j r0)
    then have "threads_step (sv, js) (Enters k q) (sv, js(k \<mapsto> Storing q j))"
      using array_cons.prems(3) by (intro enters) auto
    moreover have "y = (fst y, jobs_of (js(k \<mapsto> Storing q j)))" "sv_storage sv = Raid_storage (fst y)"
      using begins array_cons.prems(1,2) by (auto simp del: fun_upd_apply)
    ultimately show ?thesis using begins(2)
      by (intro exI [of _ "Enters k q"] exI [of _ "sv"] exI [of _ "js(k \<mapsto> Storing q j)"] conjI) (auto split: if_splits)
  next
    case (moves jb k j r0 r1 j')
    then obtain q where q: "js k = Some (Storing q j)"
      using array_cons.prems(1) by (auto simp add: jobs_of_def split: option.splits serving.splits)
    have "threads_step (sv, js) (Works k) (sv\<lparr>sv_storage := Raid_storage r1\<rparr>, js(k \<mapsto> Storing q j'))"
      using moves array_cons.prems(1,2) q by (intro threads_step.works) auto
    moreover have "y = (fst y, jobs_of (js(k \<mapsto> Storing q j')))" "r1 = fst y"
      using moves array_cons.prems(1) by (auto simp del: fun_upd_apply)
    ultimately show ?thesis using moves(2) q
      by (intro exI [of _ "Works k"] exI [of _ "sv\<lparr>sv_storage := Raid_storage r1\<rparr>"] exI [of _ "js(k \<mapsto> Storing q j')"] conjI) (auto split: if_splits)
  next
    case (ends jb k j r0 r1 a)
    then obtain q where q: "js k = Some (Storing q j)"
      using array_cons.prems(1) by (auto simp add: jobs_of_def split: option.splits serving.splits)
    have "threads_step (sv, js) (Completes k q a) (sv\<lparr>sv_storage := Raid_storage r1\<rparr>, js(k \<mapsto> Replying q a))"
      using ends array_cons.prems(1,2) q by (intro threads_step.completes) auto
    moreover have "y = (fst y, jobs_of (js(k \<mapsto> Replying q a)))" "r1 = fst y"
      using ends array_cons.prems(1) by (auto simp del: fun_upd_apply)
    ultimately show ?thesis using ends(2) q
      by (intro exI [of _ "Completes k q a"] exI [of _ "sv\<lparr>sv_storage := Raid_storage r1\<rparr>"] exI [of _ "js(k \<mapsto> Replying q a)"] conjI) (auto split: if_splits)
  qed
  then obtain ev sv1 js1 where ev: "threads_step (sv, js) ev (sv1, js1)" "array_event_of ev = [aev]"
    "y = (fst y, jobs_of js1)" "sv_storage sv1 = Raid_storage (fst y)" "sv_pool sv1 = sv_pool sv"
    "\<And>k. js1 k = None \<longleftrightarrow> js k = None \<and> (\<forall>q. aev \<noteq> Begins k q)" "received_in (plain_event_of ev) = []" by blast
  have later: "busy_at sv1 k q \<and> js1 k = None" if "Begins k q \<in> set aevs" for k q
  proof -
    have "aev \<noteq> Begins k q'" for q' using begun_set [OF that] array_cons.prems(4) by (cases aev) auto
    then show ?thesis using array_cons.prems(3) that ev(6) by (simp add: busy_cong [OF ev(5)])
  qed
  have "distinct (begun aevs)" using array_cons.prems(4) by (cases aev) simp_all
  with array_cons.IH [OF ev(3,4)] later
  obtain evs sv' js' where rest: "threads_run (sv1, js1) evs (sv', js')" "array_events evs = aevs"
    "sv_storage sv' = Raid_storage (fst z)" "received_in (plain_events evs) = []" by blast
  have "threads_run (sv, js) ([ev] @ evs) (sv', js')"
    by (rule threads_run_append [OF rest(1) threads_run_one [OF ev(1)]])
  then show ?case
    using ev(2,7) rest(2-4)
    by (intro exI [of _ "[ev] @ evs"] exI [of _ sv'] exI [of _ js'] conjI)
      (simp_all add: array_events_def plain_events_def)
qed

definition demo_head :: DriverData where
  "demo_head = (new_DriverData READ 4 0 2 SUCCESS)\<lparr>m_source_fd := 7\<rparr>"

definition demo_interleaving :: "array_event list" where
  "demo_interleaving =
     [Begins 0 demo_put, Begins 1 demo_head, Moves 0, Moves 1, Moves 0, Moves 0,
      Ends 1 (demo_head\<lparr>m_buffer := [0, 0]\<rparr>), Ends 0 demo_put]"

lemma demo_threads:
  "\<exists>evs sv js r. threads_run (demo_server, \<lambda>k. None) evs (sv, js) \<and> array_events evs = demo_interleaving \<and>
    sv_storage sv = Raid_storage r \<and> raid_flat r = [0, 0, 0, 0, 0, 10, 20, 0] \<and>
    received_in (plain_events evs) = [demo_put, demo_head]"
proof -
  have reqs: "wire_request 7 demo_put" "wire_request 7 demo_head" "range_ok demo_put" "range_ok demo_head"
    using demo_wire_requests(1) demo_range(1)
    by (simp_all add: wire_request_def range_ok_def demo_head_def new_DriverData_def action_of_def)
  obtain sv d where sv: "server_run demo_server [Connected 7] sv" "watched_client sv d 7"
    "td_sockets d 7 = Some (demo_connection demo_put demo_head)" "sv_pool sv = ThreadPool 2"
    by (rule demo_connects)
  have keep: "keeps_promise sv (promised (disk_of demo_raid, \<lambda>fd. []) [Connected 7])"
    by (rule run_keeps_promise [OF sv(1) started_keeps_promise [OF demo_constructed demo_started demo_raid_ok]]) simp
  obtain sv4 where sv4: "server_run sv [Received demo_put, Received demo_head, Internal, Internal] sv4"
    "keeps_promise sv4 (promised (promised (disk_of demo_raid, \<lambda>fd. []) [Connected 7])
      [Received demo_put, Received demo_head, Internal, Internal])"
    "tp_threads (sv_pool sv4) =
      ((tp_threads (sv_pool sv))[0 := Busy (FunctionCommand demo_put)])[1 := Busy (FunctionCommand demo_head)]"
    by (rule two_requests_at_once [OF sv(2) keep reqs sv(3) demo_connection_stream, where i = 0 and j = 1])
      (simp_all add: sv(4) ThreadPool_def InitThreads_def replicate_small)
  from plain_run_lifts [OF server_run_append [OF sv4(1) sv(1)]]
  obtain evs0 where evs0: "threads_run (demo_server, \<lambda>k. None) evs0 (sv4, \<lambda>k. None)" "array_events evs0 = []"
    "received_in (plain_events evs0) = [demo_put, demo_head]" by auto
  have store: "sv_storage sv4 = Raid_storage demo_raid"
    using run_array [OF evs0(1) refl, of demo_raid] evs0(2) by (simp add: demo_server_def)
  have busy: "busy_at sv4 0 demo_put" "busy_at sv4 1 demo_head"
    by (simp_all add: busy_at_def sv4(3) sv(4) ThreadPool_def InitThreads_def replicate_small)
  have "(case array_exec (demo_raid, Map.empty) demo_interleaving of
      None \<Rightarrow> None | Some (r, js) \<Rightarrow> Some (raid_flat r)) = Some [0, 0, 0, 0, 0, 10, 20, 0]"
    by code_simp
  then obtain r jb where ar: "array_exec (demo_raid, Map.empty) demo_interleaving = Some (r, jb)"
    and flat: "raid_flat r = [0, 0, 0, 0, 0, 10, 20, 0]" by (auto split: option.splits)
  have "\<forall>k q. Begins k q \<in> set demo_interleaving \<longrightarrow> busy_at sv4 k q \<and> (\<lambda>k. None) k = None"
    using busy by (simp add: demo_interleaving_def)
  from array_run_lifts [OF array_exec_run [OF ar], of demo_raid "\<lambda>k. None" sv4, OF _ store this]
  obtain evs1 sv' js' where evs1: "threads_run (sv4, \<lambda>k. None) evs1 (sv', js')" "array_events evs1 = demo_interleaving"
    "sv_storage sv' = Raid_storage r" "received_in (plain_events evs1) = []" by (auto simp add: demo_interleaving_def)
  have "threads_run (demo_server, \<lambda>k. None) (evs0 @ evs1) (sv', js')"
    by (rule threads_run_append [OF evs1(1) evs0(1)])
  moreover have "array_events (evs0 @ evs1) = demo_interleaving"
    using evs0(2) evs1(2) by (simp add: array_events_def)
  moreover have "received_in (plain_events (evs0 @ evs1)) = [demo_put, demo_head]"
    using evs0(3) evs1(4) by (simp add: plain_events_def)
  ultimately show ?thesis using evs1(3) flat by blast
qed

lemma demo_interleaving_careful: "careful (raid_capacity demo_raid) Map.empty demo_interleaving"
  by (auto simp add: demo_interleaving_def ran_def conflicting_def overlapping_def req_len_def demo_put_def demo_head_def
      vsize_def split: if_splits)

section \<open>What a run promises\<close>

context driver_contract
begin

lemma threads_linear:
  assumes "speaks drv w" and "raid_ok r" and "raid_mirrored r"
    and "RunServer hardware ra drv (Raid_storage r) = Returns sv"
    and "threads_run (sv, \<lambda>k. None) evs (sv', js)"
    and "careful (raid_capacity r) Map.empty (array_events evs)"
  shows "\<exists>r' dk. speaks (sv_driver sv') (foldl (told_step meets tells) w evs) \<and> sv_storage sv' = Raid_storage r' \<and>
    disk_session (disk_of r) (map (fst \<circ> snd) (completed evs)) = (dk, map (snd \<circ> snd) (completed evs)) \<and>
    (\<forall>k. completed_by k evs = replies_by k evs @ reply_due (js k)) \<and>
    (js = Map.empty \<longrightarrow> disk_of r' = dk \<and> raid_mirrored r')"
proof -
  note start = RunServer_result(1,2) [OF assms(4)]
  from run_array [OF assms(5) refl start(2)]
  obtain r' where r': "sv_storage sv' = Raid_storage r'"
    "array_run (r, Map.empty) (array_events evs) (r', jobs_of js)" "run_of_array evs r' js" by auto
  from array_serves_disk [OF assms(2,3) r'(2) assms(6)]
  obtain dk where dk: "disk_session (disk_of r) (ended Map.empty (array_events evs)) = (dk, answered (array_events evs))"
    and rest: "jobs_of js = Map.empty \<longrightarrow> dk = disk_of r' \<and> raid_mirrored r'" by auto
  have "speaks (sv_driver sv') (foldl (told_step meets tells) w evs)"
    using run_speaks [OF assms(5)] assms(1) start(1) by simp
  moreover have "completed_by k evs = replies_by k evs @ reply_due (js k)" for k
    using run_replies [OF assms(5), of k] by simp
  moreover have "jobs_of js = Map.empty" if "js = Map.empty" using that by simp
  ultimately show ?thesis using r'(1,3) dk rest by (auto simp add: run_of_array_def)
qed

lemma threads_get_on:
  assumes "speaks drv w" and "raid_ok r" and "raid_mirrored r"
    and "RunServer hardware ra drv (Raid_storage r) = Returns sv"
    and "threads_run (sv, \<lambda>k. None) evs (sv', js)"
    and "careful (raid_capacity r) Map.empty (array_events evs)"
  shows "accounted sv' (plain_events evs) \<and>
    (\<forall>k x. js k = Some x \<longrightarrow> busy_at sv' k (request_of x) \<and>
       (\<exists>ev y. threads_step (sv', js) ev y \<and> (ev = Works k \<or> (\<exists>q a. ev = Completes k q a \<or> ev = Replies k q a))))"
proof -
  note start = RunServer_result(1,2) [OF assms(4)]
  from run_array [OF assms(5) refl start(2)]
  obtain r' where r': "sv_storage sv' = Raid_storage r'"
    "array_run (r, Map.empty) (array_events evs) (r', jobs_of js)" by auto
  from array_serves_disk [OF assms(2,3) r'(2) assms(6)]
  have storing: "\<And>k j. jobs_of js k = Some j \<Longrightarrow> \<exists>r1 j1. thread_step r' j = (r1, Returns j1)" by blast
  have speaks': "speaks (sv_driver sv') (foldl (told_step meets tells) w evs)"
    using run_speaks [OF assms(5)] assms(1) start(1) by simp
  have counts: "all_busy sv' js \<and> accounted sv' (plain_events evs)"
    using run_counts [OF assms(5)] started_accounted(1) [OF assms(4)] by simp
  have "\<exists>ev y. threads_step (sv', js) ev y \<and> (ev = Works k \<or> (\<exists>q a. ev = Completes k q a \<or> ev = Replies k q a))"
    if "js k = Some x" for k x
  proof (cases x)
    case (Storing q j)
    with that storing [of k j] obtain r1 j1 where step: "thread_step r' j = (r1, Returns j1)" by auto
    show ?thesis
    proof (cases "\<exists>a. j1 = Finished a")
      case True
      then show ?thesis using threads_step.completes [of js k q j sv' r' r1] step that Storing r'(1) by blast
    next
      case False
      then show ?thesis using threads_step.works [of js k q j sv' r' r1 j1] step that Storing r'(1) by blast
    qed
  next
    case (Replying q a)
    obtain sv1 oc where reply: "mediator_reply sv' a = (sv1, oc)" by fastforce
    have "oc = Returns ()"
      using replies [OF speaks', of a] mediator_reply_fields(4) [OF reply] by auto
    then show ?thesis using threads_step.replies [of js k q a sv' sv1 oc] that Replying reply by auto
  qed
  then show ?thesis using counts by (auto simp add: all_busy_def)
qed

end

section \<open>Property\<close>

definition sent_by :: "thread_event list \<Rightarrow> int \<Rightarrow> vec" where
  "sent_by evs = foldl (told_step tcp_meets tcp_tells) (\<lambda>fd. []) evs"

lemma started_tcp_speaks:
  assumes "TCPDriverComm la env port = (d, Returns ())" and "td_sockets env = (\<lambda>fd. None)"
    and "RunServer hardware ra (TCP_driver d) (Raid_storage r) = Returns sv" and "raid_ok r"
  shows "tcp_speaks (TCP_driver d) (\<lambda>fd. [])"
  using started_keeps_promise [OF assms] RunServer_result(1) [OF assms(3)]
  by (simp add: keeps_promise_contract serves_as_def)

lemma tcp_speaks_sent:
  assumes "tcp_speaks drv (foldl (told_step tcp_meets tcp_tells) (\<lambda>fd. []) evs)"
  shows "\<exists>d. drv = TCP_driver d \<and> (\<forall>fd s. 0 \<le> fd \<longrightarrow> td_sockets d fd = Some s \<longrightarrow> sk_out s = sent_by evs fd)"
  using assms by (auto simp add: tcp_speaks_def sent_by_def)



end
