(* ===== verification/Server_Liveness.thy ===== *)
theory Server_Liveness
  imports Server_Threads
begin

text \<open>
  Every request is answered in the end: what the workers of \<open>Server_Threads\<close> do between two events of
  the reactor is bounded, and a server whose workers have nothing left to do has answered every
  request it received.
\<close>

section \<open>The workers of a serving pool\<close>

text \<open>Nobody stops or suspends the pool of a running server: its workers are idle or hold a request.\<close>

fun serving_worker :: "DriverData worker \<Rightarrow> bool" where
  "serving_worker Idle \<longleftrightarrow> True"
| "serving_worker (Busy (User_command p q)) \<longleftrightarrow> p = ICommand_default"
| "serving_worker _ \<longleftrightarrow> False"

lemma serving_workerE:
  assumes "serving_worker w"
  obtains (idle) "w = Idle" | (busy) q where "w = Busy (FunctionCommand q)"
  using assms by (cases w rule: serving_worker.cases) (auto simp add: FunctionCommand_def)

definition pool_serves :: "server \<Rightarrow> bool" where
  "pool_serves sv \<longleftrightarrow> tp_threads (sv_pool sv) \<noteq> [] \<and> (\<forall>w \<in> set (tp_threads (sv_pool sv)). serving_worker w) \<and>
     (\<forall>c \<in> set (tp_command (sv_pool sv)). \<exists>q. c = FunctionCommand q)"

lemma pool_serves_cong: "sv_pool sv' = sv_pool sv \<Longrightarrow> pool_serves sv' \<longleftrightarrow> pool_serves sv"
  by (simp add: pool_serves_def)

lemma serving_Function [simp]: "serving_worker (Busy (FunctionCommand q))"
  by (simp add: FunctionCommand_def)

lemma pool_serves_finishes: "pool_serves sv \<Longrightarrow> pool_serves (finishes sv k q)"
  by (auto simp add: pool_serves_def finishes_def dest!: set_update_subset_insert [THEN subsetD])

lemma pool_step_takes:
  assumes "worker_step p p'" and "tp_done p' = tp_done p" and "\<forall>w \<in> set (tp_threads p). serving_worker w"
  obtains k i c q where "k < length (tp_threads p)" and "tp_threads p ! k = Idle"
    and "wpq_Pop (tp_command p) i = Some (c, q)"
    and "p' = p\<lparr>tp_command := q, tp_threads := (tp_threads p)[k := Busy c]\<rparr>"
  using assms(1)
proof cases
  case (takes k i c q)
  then show thesis by (intro that)
next
  case (executes k c w executed)
  then have "serving_worker (Busy c)" using assms(3) nth_mem by metis
  then obtain q where "c = FunctionCommand q" by (cases rule: serving_workerE) simp_all
  then show thesis using executes assms(2) by (simp add: FunctionCommand_def)
next
  case (sleeps k)
  then have "serving_worker Checked" using assms(3) nth_mem by metis
  then show thesis by simp
qed

lemma wpq_Pop_sets: "wpq_Pop q i = Some (c, q') \<Longrightarrow> c \<in> set q \<and> set q' \<subseteq> set q"
  by (auto dest!: wpq_Pop_content arg_cong [where f = set_mset])

lemma pool_serves_step:
  assumes "threads_step x ev y" and "pool_serves (fst x)"
  shows "pool_serves (fst y)"
  using assms(1)
proof cases
  case (reacts fd sv ans sv' js)
  from reacts(7) show ?thesis
  proof (cases rule: Notify_cases)
    case (connected d c)
    then show ?thesis using assms(2) reacts(1,3) mediator_add_fields(3) [OF connected(3)] by (simp add: pool_serves_def)
  next
    case (received d c sv1 q)
    then show ?thesis using assms(2) reacts(1,3) receive_pool [OF received(3)] by (auto simp add: pool_serves_def)
  next
    case (dropped d c sv1 e sv2)
    then show ?thesis
      using assms(2) reacts(1,3) receive_pool [OF dropped(3)] mediator_remove_fields(3) [OF dropped(4)]
      by (simp add: pool_serves_def)
  qed
next
  case (pools sv p js)
  have ok: "\<forall>w \<in> set (tp_threads (sv_pool sv)). serving_worker w" using assms(2) pools(1) by (simp add: pool_serves_def)
  obtain k i c q where taken: "wpq_Pop (tp_command (sv_pool sv)) i = Some (c, q)"
    "p = (sv_pool sv)\<lparr>tp_command := q, tp_threads := (tp_threads (sv_pool sv))[k := Busy c]\<rparr>"
    by (rule pool_step_takes [OF pools(4,5) ok])
  then obtain q' where "c = FunctionCommand q'"
    using wpq_Pop_sets [OF taken(1)] assms(2) pools(1) by (auto simp add: pool_serves_def)
  then show ?thesis
    using assms(2) pools(1,3) taken(2) wpq_Pop_sets [OF taken(1)]
    by (auto simp add: pool_serves_def dest!: set_update_subset_insert [THEN subsetD])
next
  case (replies js k q a sv sv' oc)
  then show ?thesis
    using assms(2) pool_serves_cong [OF mediator_reply_fields(2) [OF replies(5)]] pool_serves_finishes by simp
next
  case (ignores sv k q js sv' oc)
  then show ?thesis using assms(2) ignored(1) [OF ignores(6), of sv] pool_serves_finishes by simp
qed (use assms(2) in \<open>simp_all add: pool_serves_def\<close>)

lemma pool_serves_run: "threads_run x evs y \<Longrightarrow> pool_serves (fst x) \<Longrightarrow> pool_serves (fst y)"
  by (induction rule: threads_run.induct) (auto intro: pool_serves_step)

lemma started_pool_serves:
  assumes "RunServer hardware ra drv st = Returns sv"
  shows "pool_serves sv"
proof -
  have "0 < unat (SetDefNumThreads hardware)" by (auto simp add: SetDefNumThreads_def unat_gt_0)
  then show ?thesis
    using RunServer_result(3) [OF assms] by (simp add: pool_serves_def ThreadPool_def InitThreads_def)
qed

section \<open>At rest\<close>

text \<open>Only the reactor can do something.\<close>

definition workers_rest :: "server \<times> (nat \<rightharpoonup> serving) \<Rightarrow> bool" where
  "workers_rest x \<longleftrightarrow> (\<forall>ev y. threads_step x ev y \<longrightarrow> (\<exists>e. ev = Reacts e))"

lemma workers_restD: "workers_rest x \<Longrightarrow> threads_step x ev y \<Longrightarrow> \<exists>e. ev = Reacts e"
  unfolding workers_rest_def by blast

lemma rest_idle:
  assumes "workers_rest (sv, js)" and "pool_serves sv" and "js = Map.empty" and "k < length (tp_threads (sv_pool sv))"
  shows "tp_threads (sv_pool sv) ! k = Idle"
proof -
  have "serving_worker (tp_threads (sv_pool sv) ! k)" using assms(2,4) by (simp add: pool_serves_def)
  then show ?thesis
  proof (cases rule: serving_workerE)
    case (busy q)
    then have b: "busy_at sv k q" using assms(4) by (simp add: busy_at_def)
    show ?thesis
    proof (cases "handler_job q")
      case (Some j)
      from threads_step.enters [of sv k q js j] b Some assms(3) workers_restD [OF assms(1)] show ?thesis by blast
    next
      case None
      obtain sv' oc where ex: "mediator_Execute sv q = (sv', oc)" by fastforce
      then have "goes_on oc" using ignored(2) [OF None, of sv] by simp
      from threads_step.ignores [OF b _ None ex this, of js] assms(3) workers_restD [OF assms(1)] show ?thesis by blast
    qed
  qed
qed

lemma rest_empty:
  assumes "workers_rest (sv, js)" and "pool_serves sv" and "js = Map.empty"
  shows "in_hand (sv_pool sv) = {#}"
proof -
  have idle: "\<forall>w \<in> set (tp_threads (sv_pool sv)). w = Idle"
    using rest_idle [OF assms] by (auto simp add: in_set_conv_nth)
  have "tp_command (sv_pool sv) = []"
  proof (rule ccontr)
    assume "tp_command (sv_pool sv) \<noteq> []"
    then obtain i c q where pop: "wpq_Pop (tp_command (sv_pool sv)) i = Some (c, q)" using wpq_Pop_possible by blast
    have "0 < length (tp_threads (sv_pool sv))" using assms(2) by (simp add: pool_serves_def)
    from takes [OF this _ pop] rest_idle [OF assms this]
    have "worker_step (sv_pool sv) ((sv_pool sv)\<lparr>tp_command := q, tp_threads := (tp_threads (sv_pool sv))[0 := Busy c]\<rparr>)"
      by simp
    from threads_step.pools [OF this, of js] workers_restD [OF assms(1)] show False by fastforce
  qed
  moreover have "tp_threads (sv_pool sv) = replicate (length (tp_threads (sv_pool sv))) Idle"
    using idle by (intro replicate_eqI) auto
  then have "\<Sum>\<^sub># (image_mset busy_with (mset (tp_threads (sv_pool sv)))) = {#}"
    using idle_busy_with by metis
  ultimately show ?thesis by (simp add: in_hand_def)
qed

section \<open>What is left to do\<close>

text \<open>The steps a command that waits, and a worker, can still make.\<close>

fun wait_left :: "DriverData command \<Rightarrow> nat" where
  "wait_left (User_command p q) = 2 * req_len q + 5"
| "wait_left c = 0"

fun worker_left :: "DriverData worker \<Rightarrow> serving option \<Rightarrow> nat" where
  "worker_left (Busy (User_command p q)) None = 2 * req_len q + 4"
| "worker_left (Busy c) (Some (Storing q j)) = job_left j + 1"
| "worker_left (Busy c) (Some (Replying q a)) = 1"
| "worker_left w s = 0"

lemma wait_left_Function [simp]: "wait_left (FunctionCommand q) = 2 * req_len q + 5"
  by (simp add: FunctionCommand_def)

lemma worker_left_Function [simp]: "worker_left (Busy (FunctionCommand q)) None = 2 * req_len q + 4"
  by (simp add: FunctionCommand_def)

definition queue_left :: "server \<Rightarrow> nat" where
  "queue_left sv = (\<Sum>c \<in># mset (tp_command (sv_pool sv)). wait_left c)"

definition workers_left :: "server \<Rightarrow> (nat \<rightharpoonup> serving) \<Rightarrow> nat" where
  "workers_left sv js =
     (\<Sum>k < length (tp_threads (sv_pool sv)). worker_left (tp_threads (sv_pool sv) ! k) (js k))"

definition steps_due :: "server \<times> (nat \<rightharpoonup> serving) \<Rightarrow> nat" where
  "steps_due x = queue_left (fst x) + workers_left (fst x) (snd x)"

text \<open>An event of the reactor, and the steps a request it brings may need.\<close>

fun event_cost :: "thread_event \<Rightarrow> nat" where
  "event_cost (Reacts (Received q)) = 2 * req_len q + 6"
| "event_cost (Reacts e) = 1"
| "event_cost ev = 0"

lemma event_cost_reacts: "1 \<le> event_cost (Reacts e)"
  by (cases e) simp_all

lemma sum_change:
  fixes f g :: "nat \<Rightarrow> nat"
  assumes "k < n" and "\<And>i. i \<noteq> k \<Longrightarrow> g i = f i"
  shows "sum g {..<n} + f k = sum f {..<n} + g k"
proof -
  have "sum g ({..<n} - {k}) = sum f ({..<n} - {k})" by (rule sum.cong) (use assms(2) in auto)
  then show ?thesis
    using sum.remove [of "{..<n}" k f] sum.remove [of "{..<n}" k g] assms(1) by simp
qed

lemma workers_left_change:
  assumes "k < length (tp_threads (sv_pool sv))" and "length (tp_threads (sv_pool sv')) = length (tp_threads (sv_pool sv))"
    and "\<And>i. i \<noteq> k \<Longrightarrow> tp_threads (sv_pool sv') ! i = tp_threads (sv_pool sv) ! i \<and> js' i = js i"
  shows "workers_left sv' js' + worker_left (tp_threads (sv_pool sv) ! k) (js k) =
    workers_left sv js + worker_left (tp_threads (sv_pool sv') ! k) (js' k)"
  unfolding workers_left_def assms(2)
  by (rule sum_change [OF assms(1)]) (simp add: assms(3))

lemma left_cong: "sv_pool sv' = sv_pool sv \<Longrightarrow> queue_left sv' = queue_left sv \<and> workers_left sv' js = workers_left sv js"
  by (simp add: queue_left_def workers_left_def)

lemma queue_left_finishes: "queue_left (finishes sv k q) = queue_left sv"
  by (simp add: queue_left_def finishes_def)

lemma finishes_left:
  assumes "busy_at sv k q" and "js' k = None" and "\<And>i. i \<noteq> k \<Longrightarrow> js' i = js i"
  shows "workers_left (finishes sv k q) js' + worker_left (Busy (FunctionCommand q)) (js k) = workers_left sv js"
  using workers_left_change [of k sv "finishes sv k q" js' js] assms
  by (simp add: finishes_def busy_at_def)

text \<open>Every step of a worker is one less.\<close>

lemma reacts_left:
  assumes "mediator_Notify ans sv fd = (sv', Returns ())"
  shows "Suc (steps_due (sv', js)) \<le> steps_due (sv, js) + event_cost (Reacts (notify_event ans sv fd))"
  using assms
proof (cases rule: Notify_cases)
  case (connected d c)
  then show ?thesis using left_cong [of sv' sv js] mediator_add_fields(3) [OF connected(3)] by (simp add: steps_due_def)
next
  case (received d c sv1 q)
  have "queue_left sv' = queue_left sv + (2 * req_len q + 5)" "workers_left sv' js = workers_left sv js"
    using receive_pool [OF received(3)] received(4) by (simp_all add: queue_left_def workers_left_def)
  then show ?thesis using received(5) by (simp add: steps_due_def)
next
  case (dropped d c sv1 e sv2)
  then show ?thesis
    using left_cong [of sv' sv js] receive_pool [OF dropped(3)] mediator_remove_fields(3) [OF dropped(4)]
    by (simp add: steps_due_def)
qed

lemma step_due:
  assumes "threads_step x ev y" and "pool_serves (fst x)" and "all_busy (fst x) (snd x)"
    and "\<And>k q j r r' j'. snd x k = Some (Storing q j) \<Longrightarrow> sv_storage (fst x) = Raid_storage r \<Longrightarrow>
      thread_step r j = (r', Returns j') \<Longrightarrow> job_left j' < job_left j"
    and "\<And>k q. ev = Enters k q \<Longrightarrow> unat (m_offset q) + req_len q < 2 ^ 64"
  shows "Suc (steps_due y) \<le> steps_due x + event_cost ev"
  using assms(1)
proof cases
  case (reacts fd sv ans sv' js)
  then show ?thesis using reacts_left [OF reacts(7), of js] by simp
next
  case (pools sv p js)
  have ok: "\<forall>w \<in> set (tp_threads (sv_pool sv)). serving_worker w" using assms(2) pools(1) by (simp add: pool_serves_def)
  obtain k i c q where t: "k < length (tp_threads (sv_pool sv))" "tp_threads (sv_pool sv) ! k = Idle"
    "wpq_Pop (tp_command (sv_pool sv)) i = Some (c, q)"
    "p = (sv_pool sv)\<lparr>tp_command := q, tp_threads := (tp_threads (sv_pool sv))[k := Busy c]\<rparr>"
    by (rule pool_step_takes [OF pools(4,5) ok])
  have none: "js k = None"
    using assms(3) t(2) pools(1) by (cases "js k") (auto simp add: all_busy_def busy_at_def)
  obtain q' where c: "c = FunctionCommand q'"
    using wpq_Pop_sets [OF t(3)] assms(2) pools(1) by (auto simp add: pool_serves_def)
  have "queue_left sv = wait_left c + queue_left (sv\<lparr>sv_pool := p\<rparr>)"
    using wpq_Pop_content [OF t(3)] t(4) by (simp add: queue_left_def)
  moreover have "workers_left (sv\<lparr>sv_pool := p\<rparr>) js = workers_left sv js + worker_left (Busy c) None"
    using workers_left_change [of k sv "sv\<lparr>sv_pool := p\<rparr>" js js] t none by simp
  ultimately show ?thesis using pools c by (simp add: steps_due_def)
next
  case (enters sv k q js j)
  have "workers_left sv (js(k \<mapsto> Storing q j)) + (2 * req_len q + 4) = workers_left sv js + (job_left j + 1)"
    using workers_left_change [of k sv sv "js(k \<mapsto> Storing q j)" js] enters by (auto simp add: busy_at_def)
  moreover have "job_left j \<le> 2 * req_len q + 2" by (rule job_begins_left [OF enters(6) assms(5) [OF enters(2)]])
  ultimately show ?thesis using enters by (simp add: steps_due_def)
next
  case (works js k q j sv r r' j')
  have busy: "busy_at sv k q" using all_busyD [OF assms(3), of k "Storing q j"] works(1,4) by simp
  have "workers_left (sv\<lparr>sv_storage := Raid_storage r'\<rparr>) (js(k \<mapsto> Storing q j')) + (job_left j + 1) =
      workers_left sv js + (job_left j' + 1)"
    using workers_left_change [of k sv "sv\<lparr>sv_storage := Raid_storage r'\<rparr>" "js(k \<mapsto> Storing q j')" js] busy works(4)
    by (simp add: busy_at_def)
  moreover have "job_left j' < job_left j" using assms(4) [of k q j r r' j'] works by simp
  moreover have "queue_left (sv\<lparr>sv_storage := Raid_storage r'\<rparr>) = queue_left sv" by (simp add: queue_left_def)
  ultimately show ?thesis using works(1-3) by (simp add: steps_due_def)
next
  case (completes js k q j sv r r' a)
  have busy: "busy_at sv k q" using all_busyD [OF assms(3), of k "Storing q j"] completes(1,4) by simp
  have "workers_left (sv\<lparr>sv_storage := Raid_storage r'\<rparr>) (js(k \<mapsto> Replying q a)) + (job_left j + 1) =
      workers_left sv js + 1"
    using workers_left_change [of k sv "sv\<lparr>sv_storage := Raid_storage r'\<rparr>" "js(k \<mapsto> Replying q a)" js] busy completes(4)
    by (simp add: busy_at_def)
  moreover have "0 < job_left j" using assms(4) [of k q j r r' "Finished a"] completes by simp
  moreover have "queue_left (sv\<lparr>sv_storage := Raid_storage r'\<rparr>) = queue_left sv" by (simp add: queue_left_def)
  ultimately show ?thesis using completes(1-3) by (simp add: steps_due_def)
next
  case (replies js k q a sv sv' oc)
  note same = mediator_reply_fields(2) [OF replies(5)]
  have "busy_at sv' k q" using all_busyD [OF assms(3), of k "Replying q a"] replies(1,4) busy_cong [OF same] by simp
  from finishes_left [OF this, of "js(k := None)" js]
  have "workers_left (finishes sv' k q) (js(k := None)) + 1 = workers_left sv js"
    using left_cong [OF same, of js] replies(4) by simp
  then show ?thesis
    using replies(1-3) left_cong [OF same, of js] queue_left_finishes by (simp add: steps_due_def)
next
  case (ignores sv k q js sv' oc)
  have "sv' = sv" using ignored(1) [OF ignores(6), of sv] ignores by simp
  then show ?thesis
    using finishes_left [OF ignores(4), of js js] ignores queue_left_finishes by (simp add: steps_due_def)
qed

text \<open>The steps of a whole run.\<close>

lemma run_lin:
  assumes "threads_run (sv, \<lambda>k. None) evs (sv', js)" and "sv_storage sv = Raid_storage r"
    and "raid_ok r" and "raid_mirrored r" and "careful (raid_capacity r) Map.empty (array_events evs)"
  obtains r' dk where "sv_storage sv' = Raid_storage r'" and "array_lin dk (flight_of js) r' (jobs_of js)"
proof -
  from run_array [OF assms(1) refl assms(2)]
  obtain r' where r': "sv_storage sv' = Raid_storage r'"
    "array_run (r, Map.empty) (array_events evs) (r', jobs_of js)"
    "flight_of js = foldl flies Map.empty (array_events evs)" by (auto simp add: run_of_array_def)
  from run_linear [OF r'(2), unfolded fst_conv snd_conv, OF lin_start [OF assms(3,4)] assms(5)] r'(1,3)
  show thesis using that by auto
qed

lemma run_step_due:
  assumes "threads_run (sv, \<lambda>k. None) evs (sv1, js1)" and "threads_step (sv1, js1) ev z"
    and "sv_storage sv = Raid_storage r" and "raid_ok r" and "raid_mirrored r"
    and "careful (raid_capacity r) Map.empty (array_events (evs @ [ev]))"
    and "pool_serves sv" and "accounted sv []"
  shows "Suc (steps_due z) \<le> steps_due (sv1, js1) + event_cost ev"
proof -
  have care: "careful (raid_capacity r) Map.empty (array_events evs)"
    "careful (raid_capacity r) (foldl flies Map.empty (array_events evs)) (array_event_of ev)"
    using assms(6) by (simp_all add: careful_append)
  obtain r1 dk where r1: "sv_storage sv1 = Raid_storage r1" "array_lin dk (flight_of js1) r1 (jobs_of js1)"
    by (rule run_lin [OF assms(1,3-5) care(1)])
  have serves: "pool_serves sv1" using pool_serves_run [OF assms(1)] assms(7) by simp
  have busy: "all_busy sv1 js1" using run_counts [OF assms(1)] assms(8) by simp
  show ?thesis
  proof (rule step_due [OF assms(2)])
    show "pool_serves (fst (sv1, js1))" "all_busy (fst (sv1, js1)) (snd (sv1, js1))" using serves busy by simp_all
    show "job_left j' < job_left j" if "snd (sv1, js1) k = Some (Storing q j)"
      "sv_storage (fst (sv1, js1)) = Raid_storage r2" "thread_step r2 j = (r', Returns j')" for k q j r2 r' j'
      using step_left [OF r1(2), of k q j r' j'] that r1(1) by simp
    show "unat (m_offset q) + req_len q < 2 ^ 64" if "ev = Enters k q" for k q
      using care(2) that raid_shapeD(4) [OF raid_ok_shape [OF assms(4)]] by simp
  qed
qed

lemma run_due:
  assumes "threads_run x evs y" and "x = (sv, \<lambda>k. None)" and "sv_storage sv = Raid_storage r"
    and "raid_ok r" and "raid_mirrored r" and "careful (raid_capacity r) Map.empty (array_events evs)"
    and "pool_serves sv" and "accounted sv []"
  shows "length evs + steps_due y \<le> steps_due x + sum_list (map event_cost evs)"
  using assms
proof (induction rule: threads_run.induct)
  case (threads_snoc x evs y ev z)
  obtain sv1 js1 where y: "y = (sv1, js1)" by fastforce
  have "careful (raid_capacity r) Map.empty (array_events evs)"
    using threads_snoc.prems(5) by (simp add: careful_append)
  then have "length evs + steps_due y \<le> steps_due x + sum_list (map event_cost evs)"
    using threads_snoc.IH threads_snoc.prems by blast
  moreover have "Suc (steps_due z) \<le> steps_due y + event_cost ev"
    using run_step_due [OF threads_snoc.hyps(1) [unfolded threads_snoc.prems(1) y] threads_snoc.hyps(2) [unfolded y]
      threads_snoc.prems(2-7)] y by simp
  ultimately show ?case by simp
qed simp

lemma started_due:
  assumes "RunServer hardware ra drv st = Returns sv"
  shows "steps_due (sv, \<lambda>k. None) = 0"
  using RunServer_result(3) [OF assms]
  by (simp add: steps_due_def queue_left_def workers_left_def ThreadPool_def InitThreads_def)

section \<open>The workers can always finish\<close>

definition inside :: "nat \<Rightarrow> DriverData list \<Rightarrow> bool" where
  "inside cap qs \<longleftrightarrow> (\<forall>q \<in> set qs. unat (m_offset q) + req_len q \<le> cap)"

lemma careful_goes_on:
  assumes "careful cap Map.empty (array_events evs)"
    and "array_event_of ev = [] \<or> (\<exists>k. array_event_of ev = [Moves k]) \<or> (\<exists>k a. array_event_of ev = [Ends k a])"
  shows "careful cap Map.empty (array_events (evs @ [ev]))"
  using assms by (auto simp add: careful_append)

lemma busy_received:
  assumes "busy_at sv k q" and "accounted sv evs"
  shows "q \<in> set (received_in evs)"
proof -
  have "Busy (FunctionCommand q) \<in> set (tp_threads (sv_pool sv))"
    using assms(1) nth_mem by (metis busy_at_def)
  then have "FunctionCommand q \<in># in_hand (sv_pool sv)" by (force simp add: in_hand_def)
  then have "FunctionCommand q \<in># image_mset FunctionCommand (mset (received_in evs))"
    using assms(2) by (simp add: accounted_def)
  then show ?thesis by (auto simp add: FunctionCommand_def)
qed

lemma reactorless_received:
  assumes "threads_step x ev y" and "\<And>e. ev \<noteq> Reacts e"
  shows "received_in (plain_event_of ev) = []" and "event_cost ev = 0"
  using assms by (auto elim!: threads_step.cases)

context driver_contract
begin

text \<open>A step of the workers that keeps the requests in flight apart: with one at a time there is always one.\<close>

lemma careful_step:
  assumes "speaks drv w" and "raid_ok r" and "raid_mirrored r"
    and "RunServer hardware ra drv (Raid_storage r) = Returns sv"
    and "threads_run (sv, \<lambda>k. None) evs (sv', js)"
    and "careful (raid_capacity r) Map.empty (array_events evs)"
    and "inside (raid_capacity r) (received_in (plain_events evs))" and "\<not> workers_rest (sv', js)"
  obtains ev y where "threads_step (sv', js) ev y" and "careful (raid_capacity r) Map.empty (array_events (evs @ [ev]))"
    and "\<And>e. ev \<noteq> Reacts e"
proof (cases "js = Map.empty")
  case False
  then obtain k x where "js k = Some x" by (metis not_None_eq ext)
  then obtain ev y where "threads_step (sv', js) ev y" "ev = Works k \<or> (\<exists>q a. ev = Completes k q a \<or> ev = Replies k q a)"
    using threads_get_on [OF assms(1-6)] by blast
  then show thesis using that [of ev y] careful_goes_on [OF assms(6), of ev] by auto
next
  case True
  from assms(8) obtain ev y where step: "threads_step (sv', js) ev y" "\<And>e. ev \<noteq> Reacts e"
    unfolding workers_rest_def by blast
  show thesis
  proof (cases "\<exists>k q. ev = Enters k q")
    case False
    from step(1) have "array_event_of ev = []"
      by cases (use step(2) False \<open>js = Map.empty\<close> in auto)
    then show thesis using that [OF step(1) _ step(2)] careful_goes_on [OF assms(6), of ev] by blast
  next
    case True
    then obtain k q where ev: "ev = Enters k q" by blast
    with step(1) have busy: "busy_at sv' k q" by (auto elim: threads_step.cases)
    have "accounted sv' (plain_events evs)" using threads_get_on [OF assms(1-6)] by blast
    then have fits: "unat (m_offset q) + req_len q \<le> raid_capacity r"
      using busy_received [OF busy] assms(7) by (simp add: inside_def)
    have start: "sv_storage sv = Raid_storage r" using RunServer_result(2) [OF assms(4)] by simp
    have "foldl flies Map.empty (array_events evs) = Map.empty"
      using run_array [OF assms(5) refl start] \<open>js = Map.empty\<close> by (auto simp add: run_of_array_def)
    then have "careful (raid_capacity r) Map.empty (array_events (evs @ [ev]))"
      using assms(6) fits ev by (simp add: careful_append)
    then show thesis using that [OF step(1) _ step(2)] by blast
  qed
qed

lemma can_come_to_rest:
  assumes "speaks drv w" and "raid_ok r" and "raid_mirrored r"
    and "RunServer hardware ra drv (Raid_storage r) = Returns sv"
    and "threads_run (sv, \<lambda>k. None) evs (sv', js)"
    and "careful (raid_capacity r) Map.empty (array_events evs)"
    and "inside (raid_capacity r) (received_in (plain_events evs))"
  shows "\<exists>evs' y. threads_run (sv', js) evs' y \<and> careful (raid_capacity r) Map.empty (array_events (evs @ evs')) \<and>
    (\<forall>e. Reacts e \<notin> set evs') \<and> workers_rest y"
  using assms(5-7)
proof (induction "steps_due (sv', js)" arbitrary: evs sv' js rule: less_induct)
  case less
  show ?case
  proof (cases "workers_rest (sv', js)")
    case True
    have "threads_run (sv', js) [] (sv', js)" by (rule threads_nil)
    with True less.prems(2) show ?thesis by (metis append_Nil2 empty_iff empty_set)
  next
    case False
    obtain ev y where ev: "threads_step (sv', js) ev y"
      "careful (raid_capacity r) Map.empty (array_events (evs @ [ev]))" "\<And>e. ev \<noteq> Reacts e"
      by (rule careful_step [OF assms(1-4) less.prems False]) blast
    obtain sv1 js1 where y: "y = (sv1, js1)" by fastforce
    have run: "threads_run (sv, \<lambda>k. None) (evs @ [ev]) (sv1, js1)" using threads_snoc [OF less.prems(1) ev(1)] y by simp
    have start: "sv_storage sv = Raid_storage r" using RunServer_result(2) [OF assms(4)] by simp
    have "Suc (steps_due y) \<le> steps_due (sv', js) + event_cost ev"
      by (rule run_step_due [OF less.prems(1) ev(1) start assms(2,3) ev(2)
            started_pool_serves [OF assms(4)] started_accounted(1) [OF assms(4)]])
    then have "steps_due (sv1, js1) < steps_due (sv', js)" using reactorless_received(2) [OF ev(1,3)] y by simp
    moreover have "inside (raid_capacity r) (received_in (plain_events (evs @ [ev])))"
      using less.prems(3) reactorless_received(1) [OF ev(1,3)] by (simp add: inside_def)
    ultimately obtain evs' z where rest: "threads_run (sv1, js1) evs' z"
      "careful (raid_capacity r) Map.empty (array_events ((evs @ [ev]) @ evs'))"
      "\<forall>e. Reacts e \<notin> set evs'" "workers_rest z"
      using less.hyps [OF _ run ev(2)] by blast
    have "threads_run (sv', js) ([ev] @ evs') z"
      by (rule threads_run_append [OF rest(1)]) (use threads_run_one [OF ev(1)] y in simp)
    moreover have "\<forall>e. Reacts e \<notin> set ([ev] @ evs')" using rest(3) ev(3) by auto
    ultimately show ?thesis using rest(2,4) by (metis append.assoc)
  qed
qed

lemma answers_everything:
  assumes "speaks drv w" and "raid_ok r" and "raid_mirrored r"
    and "RunServer hardware ra drv (Raid_storage r) = Returns sv"
    and "threads_run (sv, \<lambda>k. None) evs (sv', js)"
    and "careful (raid_capacity r) Map.empty (array_events evs)"
  shows "length evs \<le> sum_list (map event_cost evs) \<and>
    (workers_rest (sv', js) \<longrightarrow> js = Map.empty \<and> in_hand (sv_pool sv') = {#} \<and>
       mset (served_in (plain_events evs)) = mset (received_in (plain_events evs)) \<and>
       (\<exists>r'. sv_storage sv' = Raid_storage r' \<and> raid_mirrored r' \<and>
          disk_session (disk_of r) (map (fst \<circ> snd) (completed evs)) = (disk_of r', map (snd \<circ> snd) (completed evs)))) \<and>
    (inside (raid_capacity r) (received_in (plain_events evs)) \<longrightarrow>
       (\<exists>evs' y. threads_run (sv', js) evs' y \<and> careful (raid_capacity r) Map.empty (array_events (evs @ evs')) \<and>
          (\<forall>e. Reacts e \<notin> set evs') \<and> workers_rest y))"
proof -
  have start: "sv_storage sv = Raid_storage r" using RunServer_result(2) [OF assms(4)] by simp
  note counted = started_accounted(1) [OF assms(4)] and serves = started_pool_serves [OF assms(4)]
  have "length evs \<le> sum_list (map event_cost evs)"
    using run_due [OF assms(5) refl start assms(2,3,6) serves counted] started_due [OF assms(4)] by simp
  moreover have "js = Map.empty \<and> in_hand (sv_pool sv') = {#} \<and>
       mset (served_in (plain_events evs)) = mset (received_in (plain_events evs)) \<and>
       (\<exists>r'. sv_storage sv' = Raid_storage r' \<and> raid_mirrored r' \<and>
          disk_session (disk_of r) (map (fst \<circ> snd) (completed evs)) = (disk_of r', map (snd \<circ> snd) (completed evs)))"
    if rest: "workers_rest (sv', js)"
  proof -
    have "js k = None" for k
    proof (cases "js k")
      case (Some x)
      then show ?thesis
        using threads_get_on [OF assms] workers_restD [OF rest] by fastforce
    qed
    then have js: "js = Map.empty" by auto
    have "pool_serves sv'" using pool_serves_run [OF assms(5)] serves by simp
    then have empty: "in_hand (sv_pool sv') = {#}" by (rule rest_empty [OF rest _ js])
    have "accounted sv' (plain_events evs)" using run_counts [OF assms(5)] counted by simp
    then have same: "image_mset FunctionCommand (mset (served_in (plain_events evs))) =
        image_mset FunctionCommand (mset (received_in (plain_events evs)))"
      using empty by (simp add: accounted_def)
    have "mset (served_in (plain_events evs)) = mset (received_in (plain_events evs))"
      by (rule FunctionCommand_same [OF same])
    then show ?thesis using js empty threads_linear [OF assms] by auto
  qed
  ultimately show ?thesis using can_come_to_rest [OF assms] by blast
qed

end

section \<open>Property\<close>



end
