(* ===== verification/Storage_Factory.thy ===== *)
theory Storage_Factory
  imports Local_Storage
begin

text \<open>
  \<^verbatim>\<open>StorageFactory\<close> (\<^verbatim>\<open>services/local_storage/src/StorageFactory.cpp\<close>): the minions and the metadata
  store of a backend, and with them the array a server starts with. The properties say that
  what the factory makes is a healthy array, and that a server restarted on the same files
  serves the same bytes.
\<close>

datatype MinionBackend = MEMORY | FILE

text \<open>
  What the file system holds: whether \<^verbatim>\<open>create_directories\<close> works, for each path what opening
  it yields, and the metadata file.
\<close>

record file_system =
  fs_dirs_ok :: bool
  fs_open :: "string \<Rightarrow> open_answers"
  fs_meta :: file_meta

definition minion_path :: "string \<Rightarrow> nat \<Rightarrow> string" where
  "minion_path backend_path i = backend_path @ ''/minion'' @ to_string i @ ''.img''"

definition CreateMinion :: "file_system \<Rightarrow> MinionBackend \<Rightarrow> string \<Rightarrow> size_t \<Rightarrow> nat \<Rightarrow> minion outcome" where
  "CreateMinion fs backend backend_path minion_size i =
     (case backend of
        MEMORY \<Rightarrow> Returns (Memory_minion (StorageMinionMemory minion_size))
      | FILE \<Rightarrow>
          let file_path = minion_path backend_path i
          in obind (StorageMinionFile (fs_open fs file_path) file_path minion_size)
               (\<lambda>m. Returns (File_minion m)))"

text \<open>An exception in one round destroys the minions made so far and leaves the function.\<close>

fun minions_loop ::
  "file_system \<Rightarrow> MinionBackend \<Rightarrow> string \<Rightarrow> size_t \<Rightarrow> nat list \<Rightarrow> minion list outcome" where
  "minions_loop fs backend backend_path minion_size [] = Returns []"
| "minions_loop fs backend backend_path minion_size (i # is) =
     obind (CreateMinion fs backend backend_path minion_size i) (\<lambda>m.
     obind (minions_loop fs backend backend_path minion_size is) (\<lambda>ms. Returns (m # ms)))"

definition CreateMinions ::
  "file_system \<Rightarrow> MinionBackend \<Rightarrow> string \<Rightarrow> size_t \<Rightarrow> size_t \<Rightarrow> minion list outcome" where
  "CreateMinions fs backend backend_path num_minions minion_size =
     (if num_minions = 0
      then Throws (Runtime_error ''StorageFactory requires at least 1 minion'')
      else if backend = FILE \<and> backend_path = ''''
      then Throws (Runtime_error ''FILE backend requires backend_path'')
      else if backend = FILE \<and> \<not> fs_dirs_ok fs
      then Throws (Runtime_error ''filesystem error'')
      else minions_loop fs backend backend_path minion_size [0..<unat num_minions])"

definition CreateMetadataStore ::
  "file_system \<Rightarrow> MinionBackend \<Rightarrow> string \<Rightarrow> metadata_store outcome" where
  "CreateMetadataStore fs backend backend_path =
     (case backend of
        MEMORY \<Rightarrow> Returns (Memory_store [])
      | FILE \<Rightarrow>
          if backend_path = ''''
          then Throws (Runtime_error ''FILE metadata store requires backend_path'')
          else obind (FileMetadataStore (fs_dirs_ok fs) (fs_meta fs) backend_path)
                 (\<lambda>s. Returns (File_store s)))"

text \<open>The first lines of \<^verbatim>\<open>RunTCPMode\<close> and \<^verbatim>\<open>RunNBDMode\<close>: minions, store and array.\<close>

definition StartArray ::
  "file_system \<Rightarrow> MinionBackend \<Rightarrow> string \<Rightarrow> size_t \<Rightarrow> size_t \<Rightarrow> raid outcome" where
  "StartArray fs backend backend_path num_minions nbytes =
     obind (CreateMinions fs backend backend_path num_minions nbytes) (\<lambda>minions.
     obind (CreateMetadataStore fs backend backend_path) (\<lambda>store. RAIDStorage minions store))"

section \<open>What is made\<close>

lemma minion_path_inj [simp]: "minion_path p i = minion_path p j \<longleftrightarrow> i = j"
  by (simp add: minion_path_def to_string_inj)

lemma minions_loop_map:
  assumes "\<And>i. i \<in> set is \<Longrightarrow> CreateMinion fs backend path n i = Returns (f i)"
  shows "minions_loop fs backend path n is = Returns (map f is)"
  using assms by (induction "is") auto

lemma CreateMinions_map:
  assumes "\<And>i. i < unat num \<Longrightarrow> CreateMinion fs backend path n i = Returns (f i)"
    and "num \<noteq> 0" and "backend = FILE \<Longrightarrow> path \<noteq> '''' \<and> fs_dirs_ok fs"
  shows "CreateMinions fs backend path num n = Returns (map f [0..<unat num])"
  using assms(2,3) minions_loop_map [of "[0..<unat num]" fs backend path n f] assms(1)
  by (simp add: CreateMinions_def)

lemma vsize_upt [simp]: "vsize (map f [0..<unat (num :: size_t)]) = num"
  by (simp add: vsize_def)

text \<open>An array of an even number of equal minions.\<close>

lemma RAIDStorage_made:
  assumes "even (unat num)" and "num \<noteq> 0" and "length minions = unat num"
    and "\<forall>m \<in> set minions. minion_Size m = n"
  shows "RAIDStorage minions store = Returns
    \<lparr>is_size = n * num, rs_minions = minions, rs_metadata_store = store, rs_stripe_size = n,
     rs_num_primary = num div 2, rs_minion_size = n, rs_offset_sizes = Store_Load store\<rparr>"
    and "unat (num div 2) = unat num div 2" and "length minions = 2 * unat (num div 2)"
    and "0 < unat (num div 2)"
proof -
  have pos: "0 < unat num" using assms(2) by (simp add: unat_gt_0)
  show half: "unat (num div 2) = unat num div 2" by (simp add: unat_div)
  show "length minions = 2 * unat (num div 2)" using assms(1,3) half by simp
  show nz: "0 < unat (num div 2)" using pos assms(1) half by auto
  have "vsize minions = num" by (simp add: vsize_def assms(3))
  moreover have "num mod 2 = 0"
    using assms(1) by (simp add: word_unat_eq_iff unat_mod even_iff_mod_2_eq_zero)
  moreover have "num div 2 \<noteq> 0" using nz by (simp add: unat_gt_0)
  moreover have "minion_Size (hd minions) = n"
    using pos assms(3,4) by (cases minions) auto
  ultimately show "RAIDStorage minions store = Returns
    \<lparr>is_size = n * num, rs_minions = minions, rs_metadata_store = store, rs_stripe_size = n,
     rs_num_primary = num div 2, rs_minion_size = n, rs_offset_sizes = Store_Load store\<rparr>"
    using assms(2) by (simp add: RAIDStorage_def Let_def)
qed

lemma concat_replicate_zeros: "concat (replicate k (replicate n x)) = replicate (k * n) x"
  by (induction k) (simp_all add: replicate_add)

text \<open>A fresh array in memory.\<close>

lemma StartArray_memory:
  assumes "even (unat num)" and "num \<noteq> 0" and "n \<noteq> 0" and "unat num * unat n < 2 ^ 64"
  obtains r where "StartArray fs MEMORY path num n = Returns r" and "raid_ok r" and "raid_mirrored r"
    and "raid_flat r = replicate (unat num div 2 * unat n) 0" and "rs_offset_sizes r = []"
    and "raid_capacity r = unat num div 2 * unat n"
proof -
  let ?m = "Memory_minion (StorageMinionMemory n)"
  let ?ms = "map (\<lambda>i. ?m) [0..<unat num]"
  have ms: "?ms = replicate (unat num) ?m" by (simp add: map_replicate_const)
  have create: "CreateMinions fs MEMORY path num n = Returns ?ms"
    by (rule CreateMinions_map) (use assms(2) in \<open>simp_all add: CreateMinion_def\<close>)
  have len: "length ?ms = unat num" by simp
  have sz: "\<forall>m \<in> set ?ms. minion_Size m = n" by simp
  note made = RAIDStorage_made [OF assms(1,2) len sz]
  let ?r = "\<lparr>is_size = n * num, rs_minions = ?ms, rs_metadata_store = Memory_store [],
    rs_stripe_size = n, rs_num_primary = num div 2, rs_minion_size = n,
    rs_offset_sizes = Store_Load (Memory_store [])\<rparr>"
  have run: "StartArray fs MEMORY path num n = Returns ?r"
    using create made(1) by (simp add: StartArray_def CreateMetadataStore_def)
  have cap: "raid_capacity ?r = unat num div 2 * unat n"
    by (simp add: raid_capacity_def made(2))
  have "unat num div 2 * unat n \<le> unat num * unat n" by (intro mult_le_mono1) simp
  then have fits: "unat num div 2 * unat n < 2 ^ 64" using assms(4) by linarith
  have "2 * unat (num div 2) < 2 ^ 64" using made(3) len unat_lt_size [of num] by linarith
  then have "raid_shape ?r"
    using made(3,4) cap assms(3) sz fits
    by (simp add: raid_shape_def unat_gt_0 MemoryMeta_Load_def)
  moreover have "raid_mirrored ?r"
    using made(3) by (simp add: raid_mirrored_def)
  moreover have "raid_flat ?r = replicate (unat num div 2 * unat n) 0"
    using made(2) assms(1) by (simp add: raid_flat_def ms take_map min_def concat_replicate_zeros)
  ultimately show thesis
    using that [of ?r] run cap by (simp add: raid_ok_def MemoryMeta_Load_def)
qed

section \<open>Restarting on the same files\<close>

text \<open>
  The file system an array on files leaves behind: every image holds what its minion's disk
  holds and can be opened, and the metadata file is the store's.
\<close>

definition left_behind :: "raid \<Rightarrow> string \<Rightarrow> file_system \<Rightarrow> bool" where
  "left_behind r path fs \<longleftrightarrow> fs_dirs_ok fs \<and>
     (\<forall>i < length (rs_minions r). \<exists>m. rs_minions r ! i = File_minion m \<and>
        mf_file_path m = minion_path path i \<and>
        0 \<le> oa_fd (fs_open fs (minion_path path i)) \<and> oa_fstat_ok (fs_open fs (minion_path path i)) \<and>
        oa_disk (fs_open fs (minion_path path i)) = mf_disk m) \<and>
     rs_metadata_store r = File_store (fs_meta fs)"

lemma reopened_minion:
  assumes "minion_ok (File_minion m)" and "mf_size m = n" and "n \<noteq> 0"
    and "0 \<le> oa_fd env" and "oa_fstat_ok env" and "oa_disk env = mf_disk m"
  shows "\<exists>m'. StorageMinionFile env path n = Returns m' \<and> minion_ok (File_minion m') \<and>
    mf_size m' = n \<and> file_content m' = file_content m"
proof -
  have ok: "file_ok m" using assms(1) by simp
  have "0 < unat n" using assms(3) by (simp add: unat_gt_0)
  then have "df_bytes (mf_disk m) \<noteq> []" using ok assms(2) by (auto simp add: file_ok_def)
  then show ?thesis
    using ok assms(2,4-6) by (simp add: StorageMinionFile_def file_ok_def file_content_def)
qed

lemma raid_flat_cong:
  assumes "rs_num_primary r' = rs_num_primary r" and "length (rs_minions r') = length (rs_minions r)"
    and "\<And>i. i < length (rs_minions r) \<Longrightarrow> minion_content (rs_minions r' ! i) = minion_content (rs_minions r ! i)"
  shows "raid_flat r' = raid_flat r"
proof -
  have "map minion_content (take (raid_np r) (rs_minions r')) = map minion_content (take (raid_np r) (rs_minions r))"
    using assms(2,3) by (intro nth_equalityI) simp_all
  then show ?thesis by (simp add: raid_flat_def assms(1))
qed

lemma restart_array:
  assumes ok: "raid_ok r" and left: "left_behind r path fs" and "path \<noteq> ''''"
    and saved: "Store_Load (rs_metadata_store r) = rs_offset_sizes r"
    and meta: "fm_file_path (fs_meta fs) = path @ ''/raid_metadata.dat''"
  obtains r' where "StartArray fs FILE path (vsize (rs_minions r)) (rs_stripe_size r) = Returns r'"
    and "raid_ok r'" and "raid_flat r' = raid_flat r" and "rs_offset_sizes r' = rs_offset_sizes r"
    and "raid_mirrored r \<longrightarrow> raid_mirrored r'" and "raid_capacity r' = raid_capacity r"
proof -
  let ?n = "rs_stripe_size r" and ?num = "vsize (rs_minions r)"
  note shape = raid_shapeD [OF raid_ok_shape [OF ok]]
  have num: "unat ?num = length (rs_minions r)" using shape(1,7) by (intro unat_vsize) simp
  have "\<exists>m'. CreateMinion fs FILE path ?n i = Returns m' \<and> minion_ok m' \<and> minion_Size m' = ?n \<and>
      minion_content m' = minion_content (rs_minions r ! i)" if i: "i < unat ?num" for i
  proof -
    obtain m where m: "rs_minions r ! i = File_minion m" "mf_file_path m = minion_path path i"
      "0 \<le> oa_fd (fs_open fs (minion_path path i))" "oa_fstat_ok (fs_open fs (minion_path path i))"
      "oa_disk (fs_open fs (minion_path path i)) = mf_disk m"
      using left i num by (auto simp add: left_behind_def)
    have "minion_ok (File_minion m)" "mf_size m = ?n"
      using raid_ok_minion [OF ok, of i] raid_shape_size [OF raid_ok_shape [OF ok], of i] i num shape(1) m(1)
      by simp_all
    from reopened_minion [OF this shape(5) m(3-5), of "minion_path path i"] show ?thesis
      by (auto simp add: CreateMinion_def m(1))
  qed
  then obtain f where f: "\<And>i. i < unat ?num \<Longrightarrow> CreateMinion fs FILE path ?n i = Returns (f i)"
    "\<And>i. i < unat ?num \<Longrightarrow> minion_ok (f i) \<and> minion_Size (f i) = ?n \<and>
      minion_content (f i) = minion_content (rs_minions r ! i)"
    by metis
  let ?ms = "map f [0..<unat ?num]"
  have nz: "?num \<noteq> 0" using shape(1,2) num by (auto simp flip: unat_eq_zero)
  have create: "CreateMinions fs FILE path ?num ?n = Returns ?ms"
    by (rule CreateMinions_map) (use f(1) nz left assms(3) in \<open>simp_all add: left_behind_def\<close>)
  have len: "length ?ms = unat ?num" by simp
  have sz: "\<forall>m \<in> set ?ms. minion_Size m = ?n" using f(2) by simp
  have ev: "even (unat ?num)" using num shape(1) by simp
  note made = RAIDStorage_made [OF ev nz len sz]
  have half: "?num div 2 = rs_num_primary r"
    using made(2) num shape(1) by (simp add: word_unat_eq_iff)
  have store: "CreateMetadataStore fs FILE path = Returns (rs_metadata_store r)"
  proof -
    have "(fs_meta fs)\<lparr>fm_file_path := path @ ''/raid_metadata.dat''\<rparr> = fs_meta fs"
      using meta by (metis file_meta.surjective file_meta.update_convs(1))
    then show ?thesis
      using left assms(3) by (simp add: CreateMetadataStore_def FileMetadataStore_def left_behind_def)
  qed
  let ?r = "\<lparr>is_size = ?n * ?num, rs_minions = ?ms, rs_metadata_store = rs_metadata_store r,
    rs_stripe_size = ?n, rs_num_primary = ?num div 2, rs_minion_size = ?n,
    rs_offset_sizes = Store_Load (rs_metadata_store r)\<rparr>"
  have run: "StartArray fs FILE path ?num ?n = Returns ?r"
    using create store made(1) by (simp add: StartArray_def)
  have at: "minion_content (?ms ! i) = minion_content (rs_minions r ! i)" if "i < length (rs_minions r)" for i
    using that f(2) num by simp
  have cap: "raid_capacity ?r = raid_capacity r" by (simp add: raid_capacity_def half)
  have "raid_shape ?r"
    using shape sz num cap by (simp add: raid_shape_def half saved)
  then have "raid_ok ?r" using ok f(2) by (simp add: raid_ok_def)
  moreover have "raid_flat ?r = raid_flat r"
    using at num by (intro raid_flat_cong) (simp_all add: half)
  moreover have "raid_mirrored ?r" if "raid_mirrored r"
    using that at shape(1) by (simp add: raid_mirrored_def half)
  ultimately show thesis using that [of ?r] run saved cap by simp
qed

section \<open>Properties\<close>

text \<open>The factory makes a healthy array in memory for every even number of minions and every
  size whose total stays below \<open>2 ^ 64\<close>: its capacity is half of the minions times the size
  (each minion has the whole size, not a share of it), every byte is zero, mirrors agree, no
  offset is recorded. An odd or zero number of minions is refused with an exception.\<close>

theorem factory_memory_array:
  assumes "n \<noteq> 0" and "unat num * unat n < 2 ^ 64"
  shows "(if num \<noteq> 0 \<and> even (unat num)
      then \<exists>r. StartArray fs MEMORY path num n = Returns r \<and> raid_ok r \<and> raid_mirrored r \<and>
        raid_capacity r = unat num div 2 * unat n \<and>
        raid_flat r = replicate (unat num div 2 * unat n) 0 \<and> RAID_ListOffsets r = []
      else \<exists>msg. StartArray fs MEMORY path num n = Throws (Runtime_error msg))"
proof (cases "num \<noteq> 0 \<and> even (unat num)")
  case True
  then obtain r where "StartArray fs MEMORY path num n = Returns r" "raid_ok r" "raid_mirrored r"
    "raid_flat r = replicate (unat num div 2 * unat n) 0" "rs_offset_sizes r = []"
    "raid_capacity r = unat num div 2 * unat n"
    using StartArray_memory [of num n fs path] assms by blast
  with True show ?thesis by simp
next
  case False
  let ?ms = "map (\<lambda>i. Memory_minion (StorageMinionMemory n)) [0..<unat num]"
  have "StartArray fs MEMORY path num n = Throws (Runtime_error ''StorageFactory requires at least 1 minion'')"
    if "num = 0" using that by (simp add: StartArray_def CreateMinions_def)
  moreover have "StartArray fs MEMORY path num n =
      Throws (Runtime_error ''RAIDStorage requires an even number of minions'')" if "num \<noteq> 0"
  proof -
    have "CreateMinions fs MEMORY path num n = Returns ?ms"
      by (rule CreateMinions_map) (use that in \<open>simp_all add: CreateMinion_def\<close>)
    moreover have "num mod 2 \<noteq> 0"
      using False that by (simp add: word_unat_eq_iff unat_mod even_iff_mod_2_eq_zero)
    ultimately show ?thesis
      using that by (simp add: StartArray_def CreateMetadataStore_def RAIDStorage_def Let_def)
  qed
  ultimately show ?thesis using False by auto
qed

theorem factory_memory_array_witness:
  "\<exists>r. StartArray \<lparr>fs_dirs_ok = True, fs_open = \<lambda>_. \<lparr>oa_fd = -1, oa_fstat_ok = True,
       oa_ftruncate_ok = True, oa_disk = \<lparr>df_bytes = [], df_on_read = \<lambda>_ _. Io_full,
       df_on_write = \<lambda>_ _. Io_full\<rparr>\<rparr>, fs_meta = \<lparr>fm_file_path = '''', fm_file = None,
       fm_in_opens = True, fm_out_opens = True, fm_reaches = None\<rparr>\<rparr> MEMORY '''' 4 128 = Returns r \<and>
     raid_ok r \<and> raid_capacity r = 256"
  using factory_memory_array [of 128 4 "\<lparr>fs_dirs_ok = True, fs_open = \<lambda>_. \<lparr>oa_fd = -1, oa_fstat_ok = True,
       oa_ftruncate_ok = True, oa_disk = \<lparr>df_bytes = [], df_on_read = \<lambda>_ _. Io_full,
       df_on_write = \<lambda>_ _. Io_full\<rparr>\<rparr>, fs_meta = \<lparr>fm_file_path = '''', fm_file = None,
       fm_in_opens = True, fm_out_opens = True, fm_reaches = None\<rparr>\<rparr>" "''''"]
  by auto

text \<open>C14: A restart on files loses nothing: an array made anew from the images and the metadata
  file a healthy array left behind serves the same bytes and sizes, is healthy, and its
  mirrors agree if they did before.\<close>

theorem raid_restart:
  assumes "raid_ok r" and "left_behind r path fs" and "path \<noteq> ''''"
    and "Store_Load (rs_metadata_store r) = rs_offset_sizes r"
    and "fm_file_path (fs_meta fs) = path @ ''/raid_metadata.dat''"
  shows "\<exists>r'. StartArray fs FILE path (vsize (rs_minions r)) (rs_stripe_size r) = Returns r' \<and>
    raid_ok r' \<and> raid_flat r' = raid_flat r \<and> (raid_mirrored r \<longrightarrow> raid_mirrored r') \<and>
    (\<forall>off. RAID_GetDataSize r' off = RAID_GetDataSize r off) \<and>
    (\<forall>q. unat (m_offset q) + unat (m_len q) \<le> raid_capacity r \<longrightarrow> RAID_Read r' q = RAID_Read r q)"
proof -
  obtain r' where r': "StartArray fs FILE path (vsize (rs_minions r)) (rs_stripe_size r) = Returns r'"
    "raid_ok r'" "raid_flat r' = raid_flat r" "rs_offset_sizes r' = rs_offset_sizes r"
    "raid_mirrored r \<longrightarrow> raid_mirrored r'" "raid_capacity r' = raid_capacity r"
    by (rule restart_array [OF assms])
  have "RAID_Read r' q = RAID_Read r q" if "unat (m_offset q) + unat (m_len q) \<le> raid_capacity r" for q
    using RAID_Read_serves [OF raid_ok_shape chunks_serve_ok, OF r'(2) r'(2), of q]
      RAID_Read_serves [OF raid_ok_shape chunks_serve_ok, OF assms(1) assms(1) that] that r'(3,6)
    by simp
  then show ?thesis using r' by (auto simp add: RAID_GetDataSize_def)
qed

definition demo_disk :: disk_file where
  "demo_disk = \<lparr>df_bytes = [5, 6], df_on_read = \<lambda>_ _. Io_full, df_on_write = \<lambda>_ _. Io_full\<rparr>"

definition demo_image :: "nat \<Rightarrow> minion" where
  "demo_image i = File_minion \<lparr>mf_fd = 3, mf_file_path = minion_path ''d'' i, mf_size = 2,
     mf_offset_sizes = [], mf_disk = demo_disk\<rparr>"

definition demo_meta :: file_meta where
  "demo_meta = \<lparr>fm_file_path = ''d/raid_metadata.dat'', fm_file = Some (meta_bytes [(0, 2)]),
     fm_in_opens = True, fm_out_opens = True, fm_reaches = None\<rparr>"

definition demo_fs :: file_system where
  "demo_fs = \<lparr>fs_dirs_ok = True, fs_open = \<lambda>_. \<lparr>oa_fd = 3, oa_fstat_ok = True,
     oa_ftruncate_ok = True, oa_disk = demo_disk\<rparr>, fs_meta = demo_meta\<rparr>"

definition demo_file_raid :: raid where
  "demo_file_raid = \<lparr>is_size = 4, rs_minions = [demo_image 0, demo_image 1],
     rs_metadata_store = File_store demo_meta, rs_stripe_size = 2, rs_num_primary = 1,
     rs_minion_size = 2, rs_offset_sizes = [(0, 2)]\<rparr>"

theorem raid_restart_witness:
  "\<exists>r'. StartArray demo_fs FILE ''d'' 2 2 = Returns r' \<and> raid_flat r' = [5, 6] \<and>
    RAID_GetDataSize r' 0 = 2"
proof -
  have meta: "Store_Load (File_store demo_meta) = [(0, 2)]" "store_reliable (File_store demo_meta)"
    by (simp_all add: demo_meta_def FileMeta_Load_def load_meta_bytes map_inv_def file_meta_reliable_def)
  have "minion_ok (demo_image i)" "minion_Size (demo_image i) = 2" "minion_content (demo_image i) = [5, 6]" for i
    by (simp_all add: demo_image_def demo_disk_def file_ok_def disk_answers_def file_content_def)
  then have "raid_ok demo_file_raid" and flat: "raid_flat demo_file_raid = [5, 6]"
    using meta by (simp_all add: demo_file_raid_def raid_ok_def raid_shape_def raid_capacity_def
        map_inv_def raid_flat_def)
  moreover have "left_behind demo_file_raid ''d'' demo_fs"
    by (auto simp add: left_behind_def demo_file_raid_def demo_fs_def demo_image_def less_Suc_eq)
  moreover have "fm_file_path (fs_meta demo_fs) = ''d'' @ ''/raid_metadata.dat''"
    by (simp add: demo_fs_def demo_meta_def)
  moreover have "vsize (rs_minions demo_file_raid) = 2" "rs_stripe_size demo_file_raid = 2"
    "RAID_GetDataSize demo_file_raid 0 = 2"
    by (simp_all add: demo_file_raid_def vsize_def RAID_GetDataSize_def size_at_def)
  moreover have "Store_Load (rs_metadata_store demo_file_raid) = rs_offset_sizes demo_file_raid"
    using meta(1) by (simp add: demo_file_raid_def)
  ultimately show ?thesis using raid_restart [of demo_file_raid "''d''" demo_fs] by auto
qed

text \<open>An image that exists already is taken as it is, however short: the minion announces the
  requested size, passes its bounds check, and throws on every read past the end of the file.\<close>

theorem short_image_reads_fail:
  assumes "StorageMinionFile env path n = Returns m" and "df_bytes (oa_disk env) \<noteq> []"
    and "length (df_bytes (oa_disk env)) < unat off + length buf" and "buf \<noteq> []"
    and "unat off + length buf \<le> unat n" and "unat n < 2 ^ 63"
    and "disk_answers (oa_disk env)"
  shows "mf_size m = n \<and>
    file_Read m off buf = Throws (Runtime_error ''pread returned fewer bytes than requested'')"
proof -
  have m: "mf_size m = n" "mf_disk m = oa_disk env"
    using assms(1,2) by (auto simp add: StorageMinionFile_def split: if_splits)
  have "unat off < 2 ^ 63" using assms(5,6) by linarith
  moreover have "length (take (length buf) (drop (unat off) (df_bytes (oa_disk env)))) \<noteq> length buf"
  proof -
    have "length buf \<noteq> 0" using assms(4) by simp
    then have "length (df_bytes (oa_disk env)) - unat off < length buf" using assms(3) by arith
    then show ?thesis by simp
  qed
  moreover have "\<not> n < off + vsize buf" using bound_check_passes [OF assms(5)] .
  ultimately show ?thesis
    using assms(7) by (simp add: file_Read_def m sys_pread_full)
qed

theorem short_image_reads_fail_witness:
  "\<exists>m. StorageMinionFile \<lparr>oa_fd = 3, oa_fstat_ok = True, oa_ftruncate_ok = True, oa_disk = demo_disk\<rparr>
      ''d'' 4 = Returns m \<and> mf_size m = 4 \<and>
    file_Read m 1 [0, 0] = Throws (Runtime_error ''pread returned fewer bytes than requested'')"
proof -
  let ?env = "\<lparr>oa_fd = 3, oa_fstat_ok = True, oa_ftruncate_ok = True, oa_disk = demo_disk\<rparr>"
  have "StorageMinionFile ?env ''d'' 4 = Returns \<lparr>mf_fd = 3, mf_file_path = ''d'', mf_size = 4,
      mf_offset_sizes = [], mf_disk = demo_disk\<rparr>"
    by (simp add: StorageMinionFile_def demo_disk_def)
  from short_image_reads_fail [OF this, of 1 "[0, 0]"] this show ?thesis
    by (simp add: demo_disk_def disk_answers_def)
qed

end
