(* ===== verification/Command_Line.thy ===== *)
theory Command_Line
  imports Storage_Factory
begin

text \<open>
  The command line of \<^verbatim>\<open>app/LDS.cpp\<close>: \<^verbatim>\<open>std::stoull\<close> and \<^verbatim>\<open>std::stoi\<close> as the program uses them, and
  the number of minions, the backend and the path a mode is started with.
\<close>

section \<open>Numbers\<close>

definition is_space :: "char \<Rightarrow> bool" where
  "is_space c \<longleftrightarrow> c \<in> {CHR '' '', CHR 0x09, CHR 0x0A, CHR 0x0B, CHR 0x0C, CHR 0x0D}"

definition is_digit :: "char \<Rightarrow> bool" where
  "is_digit c \<longleftrightarrow> 48 \<le> (of_char c :: nat) \<and> of_char c \<le> (57 :: nat)"

definition digit_value :: "char \<Rightarrow> nat" where
  "digit_value c = of_char c - 48"

definition digits_value :: "string \<Rightarrow> nat" where
  "digits_value ds = foldl (\<lambda>n c. 10 * n + digit_value c) 0 ds"

text \<open>White space, a sign, digits; what follows is ignored. No digits is an error.\<close>

definition scan_number :: "string \<Rightarrow> (bool \<times> nat) option" where
  "scan_number arg =
     (let s = dropWhile is_space arg;
          negative = (take 1 s = ''-'');
          rest = (if take 1 s = ''-'' \<or> take 1 s = ''+'' then drop 1 s else s);
          ds = takeWhile is_digit rest
      in if ds = [] then None else Some (negative, digits_value ds))"

text \<open>\<^verbatim>\<open>strtoull\<close> takes a minus sign and negates in 64 bits.\<close>

definition stoull :: "string \<Rightarrow> size_t outcome" where
  "stoull arg =
     (case scan_number arg of
        None \<Rightarrow> Throws (Invalid_argument ''stoull'')
      | Some (negative, n) \<Rightarrow>
          if 2 ^ 64 \<le> n then Throws (Out_of_range ''stoull'')
          else Returns (if negative then - of_nat n else of_nat n))"

definition stoi :: "string \<Rightarrow> int outcome" where
  "stoi arg =
     (case scan_number arg of
        None \<Rightarrow> Throws (Invalid_argument ''stoi'')
      | Some (negative, n) \<Rightarrow>
          let i = (if negative then - int n else int n)
          in if i < - (2 ^ 31) \<or> 2 ^ 31 \<le> i then Throws (Out_of_range ''stoi'') else Returns i)"

definition ParseSize :: "string \<Rightarrow> size_t outcome" where
  "ParseSize arg = stoull arg"

definition ParsePort :: "string \<Rightarrow> int outcome" where
  "ParsePort arg = stoi arg"

definition ParseBackend :: "string \<Rightarrow> MinionBackend outcome" where
  "ParseBackend arg =
     (if arg = ''memory'' then Returns MEMORY
      else if arg = ''file'' then Returns FILE
      else Throws (Runtime_error (''Unknown minion backend: '' @ arg)))"

subsection \<open>Decimal text and back\<close>

lemma of_char_digit: "d < 10 \<Longrightarrow> (of_char (char_of (48 + d) :: char) :: nat) = 48 + d"
  by simp

lemma digit_char [simp]:
  "d < 10 \<Longrightarrow> is_digit (char_of (48 + d :: nat))" "d < 10 \<Longrightarrow> digit_value (char_of (48 + d :: nat)) = d"
  by (simp_all add: is_digit_def digit_value_def)

lemma digits_value_snoc [simp]: "digits_value (ds @ [c]) = 10 * digits_value ds + digit_value c"
  by (simp add: digits_value_def)

lemma to_string_digits: "(\<forall>c \<in> set (to_string n). is_digit c) \<and> digits_value (to_string n) = n"
proof (induction n rule: to_string.induct)
  case (1 n)
  show ?case
  proof (cases "n < 10")
    case True
    then show ?thesis
      using digits_value_snoc [of "[]"] by (simp add: to_string_small) (simp add: digits_value_def)
  next
    case False
    with 1 show ?thesis by (simp add: to_string_big)
  qed
qed

lemma digit_not_space: "is_digit c \<Longrightarrow> \<not> is_space c"
  by (auto simp add: is_digit_def is_space_def)

lemma digit_not_sign: "is_digit c \<Longrightarrow> c \<noteq> CHR ''-'' \<and> c \<noteq> CHR ''+''"
  by (auto simp add: is_digit_def)

lemma takeWhile_digits:
  "\<forall>c \<in> set ds. is_digit c \<Longrightarrow> t = [] \<or> \<not> is_digit (hd t) \<Longrightarrow> takeWhile is_digit (ds @ t) = ds"
  by (cases t) (auto simp add: takeWhile_append2)

lemma scan_decimal:
  assumes "t = [] \<or> \<not> is_digit (hd t)"
  shows "scan_number (to_string n @ t) = Some (False, n)" and "scan_number (''-'' @ to_string n @ t) = Some (True, n)"
proof -
  have d: "\<forall>c \<in> set (to_string n). is_digit c" "digits_value (to_string n) = n"
    using to_string_digits [of n] by simp_all
  obtain c ds where s: "to_string n = c # ds" by (cases "to_string n") simp_all
  with d(1) have c: "\<not> is_space c" "c \<noteq> CHR ''-''" "c \<noteq> CHR ''+''"
    using digit_not_space digit_not_sign by auto
  have take: "takeWhile is_digit (to_string n @ t) = to_string n" by (rule takeWhile_digits [OF d(1) assms])
  have drop: "dropWhile is_space (to_string n @ t) = to_string n @ t" using c(1) by (simp add: s)
  have sign: "take 1 (to_string n @ t) \<noteq> ''-''" "take 1 (to_string n @ t) \<noteq> ''+''"
    using c(2,3) by (simp_all add: s)
  show "scan_number (to_string n @ t) = Some (False, n)"
    using take drop sign d(2) by (simp add: scan_number_def Let_def)
  have "dropWhile is_space (''-'' @ to_string n @ t) = ''-'' @ to_string n @ t" by (simp add: is_space_def)
  then show "scan_number (''-'' @ to_string n @ t) = Some (True, n)"
    using take d(2) by (simp add: scan_number_def Let_def)
qed

text \<open>Round trip of the sizes on the command line: the decimal text of a number below 2^64 is read as
  that number, whatever text that is not a digit follows it, so \<^verbatim>\<open>128MB\<close> is 128 bytes; with a
  minus sign in front the number is negated in 64 bits instead of being refused; from 2^64 on it is
  refused.\<close>

theorem sizes_read_back:
  assumes "t = [] \<or> \<not> is_digit (hd t)"
  shows "ParseSize (to_string n @ t) = (if n < 2 ^ 64 then Returns (of_nat n) else Throws (Out_of_range ''stoull'')) \<and>
    ParseSize (''-'' @ to_string n @ t) = (if n < 2 ^ 64 then Returns (- of_nat n) else Throws (Out_of_range ''stoull''))"
  using scan_decimal [OF assms, of n] by (auto simp add: ParseSize_def stoull_def)

theorem sizes_read_back_witness:
  "ParseSize ''128MB'' = Returns 128 \<and> ParseSize ''-1'' = Returns 0xFFFFFFFFFFFFFFFF"
proof -
  have "to_string 128 = ''128''" "to_string 1 = ''1''" by (simp_all add: to_string.simps char_of_def bit_0)
  then show ?thesis
    using sizes_read_back [of "''MB''" 128] sizes_read_back [of "[]" 1] by (simp add: is_digit_def)
qed

lemma port_read_back:
  assumes "- (2 ^ 31) \<le> i" and "i < 2 ^ 31"
  shows "ParsePort ((if i < 0 then ''-'' else '''') @ to_string (nat \<bar>i\<bar>)) = Returns i"
  using assms scan_decimal [of "[]" "nat \<bar>i\<bar>"] by (auto simp add: ParsePort_def stoi_def)

section \<open>The minions asked for\<close>

text \<open>
  The fourth argument, or none: 0 stands for the number of processors, which may be unknown, and
  an odd number is made even by adding one, in 64 bits.
\<close>

definition num_minions_of :: "size_t \<Rightarrow> string option \<Rightarrow> size_t outcome" where
  "num_minions_of hardware arg =
     obind (case arg of None \<Rightarrow> Returns 0 | Some v \<Rightarrow> ParseSize v) (\<lambda>n0.
       let n1 = (if n0 = 0 then if hardware = 0 then 4 else hardware else n0)
       in Returns (if n1 mod 2 \<noteq> 0 then n1 + 1 else n1))"

lemma num_minions_cases:
  assumes "num_minions_of hardware arg = Returns n"
  obtains n0 n1 where "(case arg of None \<Rightarrow> Returns 0 | Some v \<Rightarrow> ParseSize v) = Returns n0"
    and "n1 = (if n0 = 0 then if hardware = 0 then 4 else hardware else n0)" and "n1 \<noteq> 0"
    and "n = (if odd (unat n1) then n1 + 1 else n1)"
proof -
  from assms obtain n0 where n0: "(case arg of None \<Rightarrow> Returns 0 | Some v \<Rightarrow> ParseSize v) = Returns n0"
    and n: "(let n1 = (if n0 = 0 then if hardware = 0 then 4 else hardware else n0)
       in Returns (if n1 mod 2 \<noteq> 0 then n1 + 1 else n1)) = Returns n"
    unfolding num_minions_of_def obind_Returns_iff by blast
  define n1 where "n1 = (if n0 = 0 then if hardware = 0 then 4 else hardware else n0)"
  have "n1 mod 2 \<noteq> 0 \<longleftrightarrow> odd (unat n1)"
    by (simp add: word_unat_eq_iff unat_mod even_iff_mod_2_eq_zero)
  with n have "n = (if odd (unat n1) then n1 + 1 else n1)" by (simp only: Let_def n1_def outcome.inject)
  then show thesis by (rule that [OF n0 n1_def, rotated]) (simp add: n1_def)
qed

lemma num_minions_even:
  assumes "num_minions_of hardware arg = Returns n"
  shows "even (unat n)"
proof -
  obtain n0 n1 where "n = (if odd (unat n1) then n1 + 1 else n1)" by (rule num_minions_cases [OF assms])
  moreover have "even (unat (n1 + 1)) \<longleftrightarrow> odd (unat n1)"
    by (simp add: unat_word_ariths even_iff_mod_2_eq_zero mod_mod_cancel) presburger
  ultimately show ?thesis by auto
qed

text \<open>The number of minions the modes are started with is always even, and it is 0 exactly when the
  argument is read as the largest 64-bit number, which wraps around when it is made even; the
  factory then refuses to make the storage.\<close>

theorem minions_even:
  assumes "num_minions_of hardware arg = Returns n" and "unat hardware < 2 ^ 32"
  shows "even (unat n) \<and> (n = 0 \<longleftrightarrow> (\<exists>v. arg = Some v \<and> ParseSize v = Returns (-1))) \<and>
    (n = 0 \<longrightarrow> (\<exists>e. StartArray fs backend path n nbytes = Throws e))"
proof -
  obtain n0 n1 where n0: "(case arg of None \<Rightarrow> Returns 0 | Some v \<Rightarrow> ParseSize v) = Returns n0"
    and n1: "n1 = (if n0 = 0 then if hardware = 0 then 4 else hardware else n0)" "n1 \<noteq> 0"
    and n: "n = (if odd (unat n1) then n1 + 1 else n1)"
    by (rule num_minions_cases [OF assms(1)])
  have "even (unat n)" by (rule num_minions_even [OF assms(1)])
  moreover have wrap: "n1 + 1 = 0 \<longleftrightarrow> n1 = -1" by (metis add.commute add_eq_0_iff)
  have "odd (unat (-1 :: size_t))" by (simp add: unsigned_minus_1_eq_mask mask_eq_exp_minus_1)
  then have zero: "n = 0 \<longleftrightarrow> n1 = -1" using n n1(2) wrap by auto
  have "hardware \<noteq> -1" using assms(2) by (auto simp add: unsigned_minus_1_eq_mask mask_eq_exp_minus_1)
  then have "n1 = -1 \<longleftrightarrow> n0 = -1" using n1(1) by auto
  then have "n = 0 \<longleftrightarrow> (\<exists>v. arg = Some v \<and> ParseSize v = Returns (-1))"
    using zero n0 by (cases arg) auto
  moreover have "n = 0 \<longrightarrow> (\<exists>e. StartArray fs backend path n nbytes = Throws e)"
    by (simp add: StartArray_def CreateMinions_def)
  ultimately show ?thesis by blast
qed

theorem minions_even_witness:
  "num_minions_of 8 (Some ''3'') = Returns 4 \<and> num_minions_of 8 (Some ''-1'') = Returns 0 \<and>
   (\<exists>e. StartArray demo_fs MEMORY '''' 0 4096 = Throws e)"
proof -
  have "num_minions_of 8 (Some ''3'') = Returns 4" "num_minions_of 8 (Some ''-1'') = Returns 0"
    by (simp_all add: num_minions_of_def ParseSize_def stoull_def scan_number_def digits_value_def digit_value_def
        is_space_def is_digit_def Let_def)
  moreover have "unat (8 :: size_t) < 2 ^ 32" by simp
  ultimately show ?thesis using minions_even [of 8 "Some ''-1''" 0 demo_fs MEMORY "''''" 4096] by blast
qed

end
