(* ===== verification/Logger.thy ===== *)
theory Logger
  imports Lds_Prelude
begin

text \<open>
  The log (\<^verbatim>\<open>utilities/logger\<close>): one logger for the whole process, with a level, a file and the
  screen. Its mutex is held for the whole of \<^verbatim>\<open>SetLoggerLevel\<close>, \<^verbatim>\<open>SetFileName\<close> and the part of
  \<^verbatim>\<open>Write\<close> that writes, so each of them is one step; \<^verbatim>\<open>Write\<close> compares the level before it takes
  the mutex. Writing to an open file succeeds here.
\<close>

section \<open>Levels\<close>

datatype LogLevel = ERROR | INFO | DEBUG

primrec level_value :: "LogLevel \<Rightarrow> nat" where
  "level_value ERROR = 0"
| "level_value INFO = 1"
| "level_value DEBUG = 2"

lemma level_value_inj: "level_value a = level_value b \<Longrightarrow> a = b"
  by (cases a; cases b) simp_all

instantiation LogLevel :: linorder
begin

definition less_eq_LogLevel :: "LogLevel \<Rightarrow> LogLevel \<Rightarrow> bool" where
  "less_eq_LogLevel a b \<longleftrightarrow> level_value a \<le> level_value b"

definition less_LogLevel :: "LogLevel \<Rightarrow> LogLevel \<Rightarrow> bool" where
  "less_LogLevel a b \<longleftrightarrow> level_value a < level_value b"

instance
  by standard (auto simp add: less_eq_LogLevel_def less_LogLevel_def intro: level_value_inj)

end

lemma level_order [simp]:
  "ERROR \<le> l" "l \<le> DEBUG" "INFO \<le> ERROR \<longleftrightarrow> False" "DEBUG \<le> ERROR \<longleftrightarrow> False" "DEBUG \<le> INFO \<longleftrightarrow> False"
  by (simp_all add: less_eq_LogLevel_def) (cases l; simp)

fun GetMode :: "LogLevel \<Rightarrow> string" where
  "GetMode ERROR = ''[ERROR]''"
| "GetMode INFO = ''[INFO] ''"
| "GetMode DEBUG = ''[DEBUG]''"

definition escape :: "string \<Rightarrow> string" where
  "escape code = CHR 0x1B # ''['' @ code"

fun GetColor :: "LogLevel \<Rightarrow> string" where
  "GetColor ERROR = escape ''31m''"
| "GetColor INFO = escape ''34m''"
| "GetColor DEBUG = escape ''33m''"

definition COLOR_RESET :: string where
  "COLOR_RESET = escape ''0m''"

section \<open>The logger\<close>

text \<open>The broken-down local time, and \<^verbatim>\<open>strftime\<close> with \<^verbatim>\<open>%Y-%m-%d %H:%M:%S\<close> into 20 chars.\<close>

record tm =
  tm_year :: nat
  tm_mon :: nat
  tm_mday :: nat
  tm_hour :: nat
  tm_min :: nat
  tm_sec :: nat

definition two_digits :: "nat \<Rightarrow> string" where
  "two_digits n = [char_of (48 + n div 10 mod 10), char_of (48 + n mod 10)]"

definition GetTime :: "tm \<Rightarrow> string" where
  "GetTime t = to_string (tm_year t) @ ''-'' @ two_digits (tm_mon t) @ ''-'' @ two_digits (tm_mday t) @
     '' '' @ two_digits (tm_hour t) @ '':'' @ two_digits (tm_min t) @ '':'' @ two_digits (tm_sec t)"

text \<open>
  The file the stream is open on, if it is; the contents of the files; what is on the screen; and
  the clock, as what each reading of it gives.
\<close>

record logger =
  lg_log_level :: LogLevel
  lg_logfile :: "string option"
  lg_files :: "string \<Rightarrow> string"
  lg_screen :: string
  lg_clock :: "nat \<Rightarrow> tm"
  lg_reads :: nat

definition new_logger ::
  "(string \<Rightarrow> bool) \<Rightarrow> (string \<Rightarrow> string) \<Rightarrow> (nat \<Rightarrow> tm) \<Rightarrow> string \<Rightarrow> logger outcome" where
  "new_logger can_open files clock fileName =
     (if can_open fileName
      then Returns \<lparr>lg_log_level = ERROR, lg_logfile = Some fileName, lg_files = files, lg_screen = '''',
                    lg_clock = clock, lg_reads = 0\<rparr>
      else Throws (Logger_error ''Failed to open log file''))"

definition SetLoggerLevel :: "logger \<Rightarrow> LogLevel \<Rightarrow> logger" where
  "SetLoggerLevel lg loglevel = lg\<lparr>lg_log_level := loglevel\<rparr>"

definition SetFileName :: "(string \<Rightarrow> bool) \<Rightarrow> logger \<Rightarrow> string \<Rightarrow> logger \<times> unit outcome" where
  "SetFileName can_open lg fileName =
     (let lg1 = lg\<lparr>lg_logfile := None\<rparr>
      in if can_open fileName then (lg1\<lparr>lg_logfile := Some fileName\<rparr>, Returns ())
         else (lg1, Throws (Logger_error ''Failed to open new log file'')))"

definition final_msg :: "tm \<Rightarrow> string \<Rightarrow> LogLevel \<Rightarrow> string \<Rightarrow> string list \<Rightarrow> string" where
  "final_msg t thread loglevel msg args =
     GetTime t @ '' '' @ GetMode loglevel @ thread @ '' '' @ msg @ concat (map (\<lambda>a. '' '' @ a) args)"

definition newline :: string where
  "newline = [CHR 0x0A]"

text \<open>A stream that is not open swallows what is written to it.\<close>

definition logfile_put :: "logger \<Rightarrow> string \<Rightarrow> logger" where
  "logfile_put lg s =
     (case lg_logfile lg of
        None \<Rightarrow> lg
      | Some f \<Rightarrow> lg\<lparr>lg_files := (lg_files lg)(f := lg_files lg f @ s)\<rparr>)"

definition Logger_Write ::
  "string \<Rightarrow> logger \<Rightarrow> string \<Rightarrow> LogLevel \<Rightarrow> bool \<Rightarrow> string list \<Rightarrow> logger" where
  "Logger_Write thread lg msg loglevel printToScreen args =
     (if lg_log_level lg < loglevel then lg
      else
        let finalMsg = final_msg (lg_clock lg (lg_reads lg)) thread loglevel msg args;
            lg1 = logfile_put (lg\<lparr>lg_reads := Suc (lg_reads lg)\<rparr>) (finalMsg @ newline)
        in if printToScreen
           then lg1\<lparr>lg_screen := lg_screen lg1 @ GetColor loglevel @ finalMsg @ COLOR_RESET @ newline\<rparr>
           else lg1)"

lemma Write_level [simp]: "lg_log_level (Logger_Write thread lg msg l p args) = lg_log_level lg"
  by (simp add: Logger_Write_def logfile_put_def Let_def split: option.split)

lemma Write_logfile [simp]: "lg_logfile (Logger_Write thread lg msg l p args) = lg_logfile lg"
  by (simp add: Logger_Write_def logfile_put_def Let_def split: option.split)

lemma Write_clock [simp]: "lg_clock (Logger_Write thread lg msg l p args) = lg_clock lg"
  by (simp add: Logger_Write_def logfile_put_def Let_def split: option.split)

lemma Write_reads:
  "lg_reads (Logger_Write thread lg msg l p args) = (if l \<le> lg_log_level lg then Suc (lg_reads lg) else lg_reads lg)"
  by (simp add: Logger_Write_def logfile_put_def Let_def not_le split: option.split)

lemma Write_files:
  "lg_files (Logger_Write thread lg msg l p args) f =
     lg_files lg f @
       (if l \<le> lg_log_level lg \<and> lg_logfile lg = Some f
        then final_msg (lg_clock lg (lg_reads lg)) thread l msg args @ newline else [])"
  by (auto simp add: Logger_Write_def logfile_put_def Let_def not_le split: option.split)

section \<open>What a file receives\<close>

text \<open>
  The calls on the logger in their order; an exception of \<^verbatim>\<open>SetFileName\<close> goes to its caller, and
  the logger goes on.
\<close>

datatype log_call =
    Set_level LogLevel
  | Set_file string
  | Put string string LogLevel bool "string list"

fun do_log :: "(string \<Rightarrow> bool) \<Rightarrow> log_call \<Rightarrow> logger \<Rightarrow> logger" where
  "do_log can_open (Set_level l) lg = SetLoggerLevel lg l"
| "do_log can_open (Set_file f) lg = fst (SetFileName can_open lg f)"
| "do_log can_open (Put thread msg l p args) lg = Logger_Write thread lg msg l p args"

text \<open>
  The reference: the level and the file in force after some calls are the ones last asked for, no
  file when that one cannot be opened, and a file holds the lines of the writes that were at or
  below the level and under that file when they were made.
\<close>

fun level_after :: "LogLevel \<Rightarrow> log_call list \<Rightarrow> LogLevel" where
  "level_after l [] = l"
| "level_after l (Set_level l' # cs) = level_after l' cs"
| "level_after l (c # cs) = level_after l cs"

fun file_after :: "(string \<Rightarrow> bool) \<Rightarrow> string option \<Rightarrow> log_call list \<Rightarrow> string option" where
  "file_after can_open f [] = f"
| "file_after can_open f (Set_file g # cs) = file_after can_open (if can_open g then Some g else None) cs"
| "file_after can_open f (c # cs) = file_after can_open f cs"

fun put_level :: "log_call \<Rightarrow> LogLevel option" where
  "put_level (Put thread msg l p args) = Some l"
| "put_level c = None"

definition put_passes :: "LogLevel \<Rightarrow> log_call list \<Rightarrow> nat \<Rightarrow> bool" where
  "put_passes l0 cs i =
     (case put_level (cs ! i) of None \<Rightarrow> False | Some l \<Rightarrow> l \<le> level_after l0 (take i cs))"

fun put_line :: "tm \<Rightarrow> log_call \<Rightarrow> string" where
  "put_line t (Put thread msg l p args) = final_msg t thread l msg args @ newline"
| "put_line t c = ''''"

definition file_log ::
  "(string \<Rightarrow> bool) \<Rightarrow> logger \<Rightarrow> log_call list \<Rightarrow> string \<Rightarrow> string" where
  "file_log can_open lg cs f =
     concat (map (\<lambda>i. put_line (lg_clock lg (lg_reads lg + length (filter (put_passes (lg_log_level lg) cs) [0..<i]))) (cs ! i))
       (filter (\<lambda>i. put_passes (lg_log_level lg) cs i \<and> file_after can_open (lg_logfile lg) (take i cs) = Some f)
         [0..<length cs]))"

lemma level_after_snoc:
  "level_after l (cs @ [c]) = (case c of Set_level l' \<Rightarrow> l' | _ \<Rightarrow> level_after l cs)"
  by (induction l cs rule: level_after.induct) (simp_all split: log_call.split)

lemma file_after_snoc:
  "file_after can_open f (cs @ [c]) =
     (case c of Set_file g \<Rightarrow> if can_open g then Some g else None | _ \<Rightarrow> file_after can_open f cs)"
  by (induction can_open f cs rule: file_after.induct) (simp_all split: log_call.split)

lemma put_passes_snoc: "i < length cs \<Longrightarrow> put_passes l (cs @ [c]) i = put_passes l cs i"
  by (simp add: put_passes_def nth_append split: option.split)

lemma put_passes_last:
  "put_passes l (cs @ [c]) (length cs) =
     (case put_level c of None \<Rightarrow> False | Some l' \<Rightarrow> l' \<le> level_after l cs)"
  by (simp add: put_passes_def split: option.split)

lemma filter_passes_snoc:
  "n \<le> length cs \<Longrightarrow> filter (put_passes l (cs @ [c])) [0..<n] = filter (put_passes l cs) [0..<n]"
  by (intro filter_cong) (simp_all add: put_passes_snoc)

lemma file_log_snoc:
  "file_log can_open lg (cs @ [c]) f = file_log can_open lg cs f @
     (if put_passes (lg_log_level lg) (cs @ [c]) (length cs) \<and> file_after can_open (lg_logfile lg) cs = Some f
      then put_line (lg_clock lg (lg_reads lg + length (filter (put_passes (lg_log_level lg) cs) [0..<length cs]))) c
      else '''')"
proof -
  have same: "filter (\<lambda>i. put_passes (lg_log_level lg) (cs @ [c]) i \<and>
        file_after can_open (lg_logfile lg) (take i (cs @ [c])) = Some f) [0..<length cs] =
      filter (\<lambda>i. put_passes (lg_log_level lg) cs i \<and>
        file_after can_open (lg_logfile lg) (take i cs) = Some f) [0..<length cs]"
    by (intro filter_cong) (auto simp add: put_passes_snoc)
  show ?thesis
    unfolding file_log_def length_append list.size upt_Suc_append [OF zero_le] add_Suc_right add_0_right
      filter_append map_append concat_append same
    by (intro arg_cong2 [where f = "(@)"] arg_cong [where f = concat] map_cong)
      (auto simp add: nth_append filter_passes_snoc)
qed

text \<open>C39: Equivalence with a reference: whatever calls are made on the logger, in whatever order, every
  file receives exactly the lines of the writes that were at or below the level in force and made
  while that file was the one in force, in order and each stamped with its own reading of the clock.
  After a \<^verbatim>\<open>SetFileName\<close> that fails no file is in force, so the lines that follow are lost (the
  old file is not opened again), until a later \<^verbatim>\<open>SetFileName\<close> succeeds.\<close>

theorem log_holds_what_was_allowed:
  "lg_files (fold (do_log can_open) cs lg) f = lg_files lg f @ file_log can_open lg cs f"
proof -
  let ?r = "\<lambda>cs. fold (do_log can_open) cs lg"
  have "lg_log_level (?r cs) = level_after (lg_log_level lg) cs \<and>
    lg_logfile (?r cs) = file_after can_open (lg_logfile lg) cs \<and> lg_clock (?r cs) = lg_clock lg \<and>
    lg_reads (?r cs) = lg_reads lg + length (filter (put_passes (lg_log_level lg) cs) [0..<length cs]) \<and>
    lg_files (?r cs) f = lg_files lg f @ file_log can_open lg cs f"
  proof (induction cs rule: rev_induct)
    case Nil
    then show ?case by (simp add: file_log_def)
  next
    case (snoc c cs)
    from snoc show ?case
      by (cases c) (auto simp add: file_log_snoc level_after_snoc file_after_snoc put_passes_last filter_passes_snoc
          SetLoggerLevel_def SetFileName_def Write_reads Write_files Let_def)
  qed
  then show ?thesis by blast
qed

section \<open>The buffer of the time\<close>

lemma length_to_string:
  assumes "1000 \<le> n" and "n < 10000"
  shows "length (to_string n) = 4"
proof -
  have "100 \<le> n div 10" using div_le_mono [OF assms(1), of 10] by simp
  moreover from div_le_mono [OF this, of 10] have "10 \<le> n div 10 div 10" by simp
  moreover have "n div 1000 < 10" using assms(2) by (simp add: less_mult_imp_div_less)
  then have "n div 10 div 10 div 10 < 10" by (simp flip: div_mult2_eq)
  ultimately show ?thesis using assms(1) by (simp add: to_string_big to_string_small)
qed

lemma GetTime_fits:
  assumes "1000 \<le> tm_year t" and "tm_year t < 10000"
  shows "length (GetTime t) + 1 = 20"
  using assms by (simp add: GetTime_def two_digits_def length_to_string)

end
