(* ===== verification/Observer.thy ===== *)
theory Observer
  imports Logger
begin

text \<open>
  The observer pattern (\<^verbatim>\<open>design_patterns/observer\<close>): a dispatcher keeps pointers to callbacks, a
  callback registers itself when it is made and takes itself out when it is destroyed. A pointer
  is a number, 0 the null pointer. The state is the dispatcher's vector and the logger of the
  process; what a callback does to the rest of the program is an argument of \<open>NotifyAll\<close>.
\<close>

record observers =
  ob_subs :: "nat list"
  ob_logger :: logger

definition log_write :: "string \<Rightarrow> string \<Rightarrow> LogLevel \<Rightarrow> 'a observers_scheme \<Rightarrow> 'a observers_scheme" where
  "log_write thread msg loglevel w = w\<lparr>ob_logger := Logger_Write thread (ob_logger w) msg loglevel True []\<rparr>"

definition new_Dispatcher :: "string \<Rightarrow> 'a observers_scheme \<Rightarrow> 'a observers_scheme" where
  "new_Dispatcher thread w =
     log_write thread ''Ctor: Dispathcer'' INFO
       (w\<lparr>ob_subs := [], ob_logger := SetLoggerLevel (ob_logger w) DEBUG\<rparr>)"

definition Register :: "string \<Rightarrow> nat \<Rightarrow> 'a observers_scheme \<Rightarrow> 'a observers_scheme" where
  "Register thread sub w =
     (let w1 = w\<lparr>ob_subs := ob_subs w @ [sub]\<rparr>
      in log_write thread (''Adding sub '' @ newline @ '' sub is now : '' @ to_string (length (ob_subs w1))) INFO w1)"

definition UnRegister :: "nat \<Rightarrow> 'a observers_scheme \<Rightarrow> 'a observers_scheme" where
  "UnRegister sub w = w\<lparr>ob_subs := filter (\<lambda>p. p \<noteq> sub) (ob_subs w)\<rparr>"

text \<open>
  The range-for over the vector keeps its iterators while the callbacks run, so a callback that
  changes the vector leaves them invalid. An exception of a callback leaves the loop.
\<close>

fun notify_loop ::
  "(nat \<Rightarrow> 'a observers_scheme \<Rightarrow> 'a observers_scheme \<times> unit outcome) \<Rightarrow> nat list \<Rightarrow>
   'a observers_scheme \<Rightarrow> 'a observers_scheme \<times> unit outcome" where
  "notify_loop notify [] w = (w, Returns ())"
| "notify_loop notify (p # ps) w =
     sbind (notify p w) (\<lambda>w1 u.
       if ob_subs w1 = ob_subs w then notify_loop notify ps w1 else (w1, Undef))"

definition NotifyAll ::
  "(nat \<Rightarrow> 'm \<Rightarrow> 'a observers_scheme \<Rightarrow> 'a observers_scheme \<times> unit outcome) \<Rightarrow> 'm \<Rightarrow>
   'a observers_scheme \<Rightarrow> 'a observers_scheme \<times> unit outcome" where
  "NotifyAll notify msg w = notify_loop (\<lambda>p. notify p msg) (ob_subs w) w"

text \<open>The destructor of the dispatcher.\<close>

definition delete_Dispatcher ::
  "string \<Rightarrow> (nat \<Rightarrow> 'a observers_scheme \<Rightarrow> 'a observers_scheme \<times> unit outcome) \<Rightarrow>
   'a observers_scheme \<Rightarrow> 'a observers_scheme \<times> unit outcome" where
  "delete_Dispatcher thread notify_end w =
     (let w1 = log_write thread ''Dtor: Dispathcer'' INFO w
      in notify_loop notify_end (filter (\<lambda>p. p \<noteq> 0) (ob_subs w1)) w1)"

text \<open>
  Constructor and destructors of a callback at address \<open>p\<close>. The base class registers unless the
  dispatcher is null; \<^verbatim>\<open>~CallBack\<close> takes the callback out without that test, then
  \<^verbatim>\<open>~ICallBack\<close> does it again.
\<close>

definition new_ICallBack :: "string \<Rightarrow> bool \<Rightarrow> nat \<Rightarrow> 'a observers_scheme \<Rightarrow> 'a observers_scheme" where
  "new_ICallBack thread null_disp p w = (if null_disp then w else Register thread p w)"

definition delete_ICallBack :: "bool \<Rightarrow> nat \<Rightarrow> 'a observers_scheme \<Rightarrow> 'a observers_scheme" where
  "delete_ICallBack null_disp p w = (if null_disp then w else UnRegister p w)"

definition new_CallBack :: "string \<Rightarrow> bool \<Rightarrow> nat \<Rightarrow> 'a observers_scheme \<Rightarrow> 'a observers_scheme" where
  "new_CallBack thread null_disp p w = new_ICallBack thread null_disp p w"

definition delete_CallBack ::
  "bool \<Rightarrow> nat \<Rightarrow> 'a observers_scheme \<Rightarrow> 'a observers_scheme \<times> unit outcome" where
  "delete_CallBack null_disp p w =
     (if null_disp then (w, Undef) else (delete_ICallBack null_disp p (UnRegister p w), Returns ()))"

text \<open>\<^verbatim>\<open>Notify\<close> calls the action of the subscriber, \<^verbatim>\<open>NotifyEnd\<close> its stop function if it has one.\<close>

definition CallBack_Notify :: "('m \<Rightarrow> 'w \<Rightarrow> 'w \<times> unit outcome) \<Rightarrow> 'm \<Rightarrow> 'w \<Rightarrow> 'w \<times> unit outcome" where
  "CallBack_Notify actFunc msg w = actFunc msg w"

definition CallBack_NotifyEnd :: "('w \<Rightarrow> 'w \<times> unit outcome) option \<Rightarrow> 'w \<Rightarrow> 'w \<times> unit outcome" where
  "CallBack_NotifyEnd stopfunc w = (case stopfunc of None \<Rightarrow> (w, Returns ()) | Some f \<Rightarrow> f w)"

lemma log_write_subs [simp]: "ob_subs (log_write thread msg l w) = ob_subs w"
  by (simp add: log_write_def)

lemma Register_subs [simp]: "ob_subs (Register thread p w) = ob_subs w @ [p]"
  by (simp add: Register_def Let_def)

lemma UnRegister_subs [simp]: "ob_subs (UnRegister p w) = filter (\<lambda>x. x \<noteq> p) (ob_subs w)"
  by (simp add: UnRegister_def)

section \<open>Who is notified\<close>

text \<open>Callbacks made and destroyed, with the addresses that are alive, in the order they were made.\<close>

datatype lifetime = Make nat | Destroy nat

fun lifetime_step :: "string \<Rightarrow> lifetime \<Rightarrow> 'a observers_scheme \<Rightarrow> 'a observers_scheme" where
  "lifetime_step thread (Make p) w = new_CallBack thread False p w"
| "lifetime_step thread (Destroy p) w = fst (delete_CallBack False p w)"

fun alive :: "nat list \<Rightarrow> lifetime list \<Rightarrow> nat list" where
  "alive ps [] = ps"
| "alive ps (Make p # ls) = alive (ps @ [p]) ls"
| "alive ps (Destroy p # ls) = alive (remove1 p ps) ls"

text \<open>An object is made where no live one is, and a live one is destroyed.\<close>

fun well_timed :: "nat list \<Rightarrow> lifetime list \<Rightarrow> bool" where
  "well_timed ps [] = True"
| "well_timed ps (Make p # ls) = (p \<notin> set ps \<and> well_timed (ps @ [p]) ls)"
| "well_timed ps (Destroy p # ls) = (p \<in> set ps \<and> well_timed (remove1 p ps) ls)"

lemma lifetimes_subs:
  "well_timed (ob_subs w) ls \<Longrightarrow> distinct (ob_subs w) \<Longrightarrow>
   ob_subs (fold (lifetime_step thread) ls w) = alive (ob_subs w) ls \<and> distinct (alive (ob_subs w) ls)"
proof (induction ls arbitrary: w)
  case (Cons l ls)
  show ?case
  proof (cases l)
    case (Make p)
    then show ?thesis
      using Cons.IH [of "Register thread p w"] Cons.prems
      by (simp add: new_CallBack_def new_ICallBack_def)
  next
    case (Destroy p)
    have "remove1 p (ob_subs w) = filter (\<lambda>x. x \<noteq> p) (ob_subs w)"
      using Cons.prems(2) by (simp add: distinct_remove1_removeAll removeAll_filter_not_eq eq_commute)
    with Destroy show ?thesis
      using Cons.IH [of "UnRegister p (UnRegister p w)"] Cons.prems
      by (simp add: delete_CallBack_def delete_ICallBack_def)
  qed
qed simp

text \<open>One call of each, the state threaded through.\<close>

lemma notify_loop_fold:
  assumes "\<And>p v. p \<in> set ps \<Longrightarrow> ob_subs (fst (notify p v)) = ob_subs v \<and> snd (notify p v) = Returns ()"
  shows "notify_loop notify ps w = (fold (\<lambda>p v. fst (notify p v)) ps w, Returns ())"
  using assms
proof (induction ps arbitrary: w)
  case (Cons p ps)
  obtain v oc where "notify p w = (v, oc)" by fastforce
  with Cons.prems [of p w] Cons show ?case by simp
qed simp

lemma notify_loop_throws:
  assumes "\<And>p v. p \<in> set ps \<Longrightarrow> ob_subs (fst (notify p v)) = ob_subs v \<and> snd (notify p v) = Returns ()"
    and "notify q (fold (\<lambda>p v. fst (notify p v)) ps w) = (v, Throws e)"
  shows "notify_loop notify (ps @ q # qs) w = (v, Throws e)"
  using assms
proof (induction ps arbitrary: w)
  case (Cons p ps)
  obtain u oc where "notify p w = (u, oc)" by fastforce
  with Cons.prems(1) [of p w] Cons show ?case by simp
qed simp

text \<open>C38: A message reaches exactly the callbacks that are alive, each once and in the order they were
  made, whatever was made and destroyed before; so no destroyed callback is called. When one of
  them throws, the exception goes to the caller of \<^verbatim>\<open>NotifyAll\<close> and those made after it are not
  told.\<close>

theorem dispatcher_notifies_the_living:
  assumes "well_timed [] ls" and "ob_subs w = []" and "w1 = fold (lifetime_step thread) ls w"
    and good: "\<And>p v. p \<notin> bad \<Longrightarrow> ob_subs (fst (notify p msg v)) = ob_subs v \<and> snd (notify p msg v) = Returns ()"
    and bad: "\<And>p v. p \<in> bad \<Longrightarrow> \<exists>v'. notify p msg v = (v', Throws (error p))"
  shows "NotifyAll notify msg w1 =
    (case dropWhile (\<lambda>p. p \<notin> bad) (alive [] ls) of
       [] \<Rightarrow> (fold (\<lambda>p v. fst (notify p msg v)) (alive [] ls) w1, Returns ())
     | q # qs \<Rightarrow>
         (fst (notify q msg (fold (\<lambda>p v. fst (notify p msg v)) (takeWhile (\<lambda>p. p \<notin> bad) (alive [] ls)) w1)),
          Throws (error q)))"
proof -
  let ?told = "takeWhile (\<lambda>p. p \<notin> bad) (alive [] ls)"
  let ?rest = "dropWhile (\<lambda>p. p \<notin> bad) (alive [] ls)"
  have all: "?told @ ?rest = alive [] ls" by simp
  have quiet: "ob_subs (fst (notify p msg v)) = ob_subs v \<and> snd (notify p msg v) = Returns ()"
    if "p \<in> set ?told" for p v
    by (rule good) (use that in \<open>blast dest: set_takeWhileD\<close>)
  have subs: "ob_subs w1 = ?told @ ?rest"
    using lifetimes_subs [of w ls thread] assms(1-3) all by simp
  show ?thesis
  proof (cases ?rest)
    case Nil
    with all have told: "?told = alive [] ls" by simp
    show ?thesis
      using notify_loop_fold [of ?told "\<lambda>p. notify p msg" w1, OF quiet]
      by (simp only: NotifyAll_def subs Nil told append_Nil2 list.case)
  next
    case (Cons q qs)
    then have "q \<in> bad" by (metis hd_dropWhile list.distinct(1) list.sel(1))
    with bad obtain v' where "notify q msg (fold (\<lambda>p v. fst (notify p msg v)) ?told w1) = (v', Throws (error q))"
      by blast
    with notify_loop_throws [of ?told "\<lambda>p. notify p msg" q w1 v' "error q" qs, OF quiet] show ?thesis
      unfolding NotifyAll_def subs Cons by simp
  qed
qed

text \<open>A callback made without a dispatcher cannot be destroyed.\<close>

lemma orphan_callback: "snd (delete_CallBack True p w) = Undef"
  by (simp add: delete_CallBack_def)

text \<open>Three callbacks of which one was destroyed; each adds a line to the screen, the last throws.\<close>

definition demo_observers :: observers where
  "demo_observers = \<lparr>ob_subs = [], ob_logger =
     \<lparr>lg_log_level = ERROR, lg_logfile = None, lg_files = (\<lambda>f. ''''), lg_screen = '''',
      lg_clock = (\<lambda>i. \<lparr>tm_year = 2024, tm_mon = 1, tm_mday = 2, tm_hour = 3, tm_min = 4, tm_sec = 5\<rparr>),
      lg_reads = 0\<rparr>\<rparr>"

definition demo_notify :: "nat \<Rightarrow> string \<Rightarrow> observers \<Rightarrow> observers \<times> unit outcome" where
  "demo_notify p msg w =
     (w\<lparr>ob_logger := (ob_logger w)\<lparr>lg_screen := lg_screen (ob_logger w) @ to_string p @ msg\<rparr>\<rparr>,
      if p = 5 then Throws (Runtime_error msg) else Returns ())"

theorem dispatcher_notifies_the_living_witness:
  "lg_screen (ob_logger (fst (NotifyAll demo_notify ''a''
     (fold (lifetime_step ''1'') [Make 3, Make 4, Make 2, Destroy 4, Make 5, Make 6] demo_observers)))) = ''3a2a5a'' \<and>
   snd (NotifyAll demo_notify ''a''
     (fold (lifetime_step ''1'') [Make 3, Make 4, Make 2, Destroy 4, Make 5, Make 6] demo_observers))
     = Throws (Runtime_error ''a'')"
proof -
  let ?ls = "[Make 3, Make 4, Make 2, Destroy 4, Make 5, Make 6]"
  have "NotifyAll demo_notify ''a'' (fold (lifetime_step ''1'') ?ls demo_observers) =
    (fst (demo_notify 5 ''a'' (fold (\<lambda>p v. fst (demo_notify p ''a'' v)) [3, 2]
       (fold (lifetime_step ''1'') ?ls demo_observers))), Throws (Runtime_error ''a''))"
    by (subst dispatcher_notifies_the_living
        [where ls = ?ls and w = demo_observers and bad = "{5}" and error = "\<lambda>p. Runtime_error ''a''"
           and thread = "''1''"])
      (auto simp add: demo_notify_def demo_observers_def)
  then show ?thesis
    by (simp add: demo_notify_def demo_observers_def new_CallBack_def new_ICallBack_def Register_def UnRegister_def
        delete_CallBack_def delete_ICallBack_def log_write_def Logger_Write_def less_LogLevel_def to_string_small char_of_def bit_0)
qed

end
