(* ===== verification/Inotify_Watch.thy ===== *)
theory Inotify_Watch
  imports Ordered_Map
begin

text \<open>
  The inotify wrapper in the tree (\<^verbatim>\<open>external/Inotify_cpp/inotify\<close>): a manager with its watches, and the
  loop its thread runs. A handler is an address; what it does to the rest of the program is an
  argument. What the kernel answers is data: descriptors of \<^verbatim>\<open>inotify_init\<close> and
  \<^verbatim>\<open>inotify_add_watch\<close>, and what each \<^verbatim>\<open>read\<close> returns and leaves in the buffer.
\<close>

section \<open>Events and watches\<close>

record inotify_event =
  ie_wd :: int
  ie_mask :: u32
  ie_name :: string

text \<open>
  The buffer has room for one event with the longest name, and so for several with short names;
  \<open>rd_events\<close> are those the read left there.
\<close>

record watch_read =
  rd_ret :: int
  rd_events :: "inotify_event list"

definition getName :: "inotify_event \<Rightarrow> string" where
  "getName e = ie_name e"

definition getFlags :: "inotify_event \<Rightarrow> u32" where
  "getFlags e = ie_mask e"

record watch =
  iw_path :: string
  iw_flags :: u32
  iw_wd :: int
  iw_handlers :: "(nat, unit) omap"

text \<open>The text of an error, in a buffer of 128 chars.\<close>

definition inotify_error :: "string \<Rightarrow> string \<Rightarrow> string" where
  "inotify_error ctx strerror = ctx @ '': '' @ take (128 - length ctx - 2) strerror"

definition new_InotifyWatch :: "int \<Rightarrow> string \<Rightarrow> string \<Rightarrow> u32 \<Rightarrow> watch outcome" where
  "new_InotifyWatch wd strerror p f =
     (if wd = -1 then Throws (Inotify_exception (inotify_error ''inotify_add_watch'' strerror))
      else Returns \<lparr>iw_path = p, iw_flags = f, iw_wd = wd, iw_handlers = []\<rparr>)"

definition addEventHandler :: "watch \<Rightarrow> nat \<Rightarrow> watch" where
  "addEventHandler wt h = wt\<lparr>iw_handlers := map_put h () (iw_handlers wt)\<rparr>"

text \<open>Every handler is called, and one that asks to stop is enough.\<close>

fun watch_event ::
  "(nat \<Rightarrow> inotify_event \<Rightarrow> 'w \<Rightarrow> 'w \<times> bool outcome) \<Rightarrow> nat list \<Rightarrow> inotify_event \<Rightarrow> bool \<Rightarrow> 'w \<Rightarrow>
   'w \<times> bool outcome" where
  "watch_event handle [] e term w = (w, Returns term)"
| "watch_event handle (h # hs) e term w =
     sbind (handle h e w) (\<lambda>w1 r. watch_event handle hs e (if term then term else r) w1)"

section \<open>The manager\<close>

record manager =
  im_fd :: int
  im_watchSet :: "(int, watch option) omap"

definition new_InotifyManager :: "int \<Rightarrow> manager outcome" where
  "new_InotifyManager fd =
     (if fd = -1 then Throws (Inotify_exception ''Could not create inotify file descriptor'')
      else Returns \<lparr>im_fd = fd, im_watchSet = []\<rparr>)"

text \<open>The destructor deletes the watches and closes the descriptor.\<close>

definition delete_InotifyManager :: "manager \<Rightarrow> manager" where
  "delete_InotifyManager m = m\<lparr>im_watchSet := [], im_fd := -1\<rparr>"

text \<open>\<^verbatim>\<open>insert\<close> keeps an entry that is there; the watch is handed to the caller in any case.\<close>

definition addWatch :: "int \<Rightarrow> string \<Rightarrow> string \<Rightarrow> u32 \<Rightarrow> manager \<Rightarrow> manager \<times> watch outcome" where
  "addWatch wd strerror path flags m =
     (case new_InotifyWatch wd strerror path flags of
        Returns wt \<Rightarrow>
          (if map_of (im_watchSet m) (iw_wd wt) = None
           then m\<lparr>im_watchSet := map_put (iw_wd wt) (Some wt) (im_watchSet m)\<rparr> else m, Returns wt)
      | c \<Rightarrow> (m, c))"

text \<open>
  An event whose watch is null is answered by throwing a pointer to an exception, which no handler
  of the program catches.
\<close>

definition trigger ::
  "(nat \<Rightarrow> inotify_event \<Rightarrow> 'w \<Rightarrow> 'w \<times> bool outcome) \<Rightarrow> watch option \<Rightarrow> inotify_event \<Rightarrow> 'w \<Rightarrow>
   'w \<times> bool outcome" where
  "trigger handle wt e w =
     (case wt of
        None \<Rightarrow> (w, Dies)
      | Some x \<Rightarrow> watch_event handle (map fst (iw_handlers x)) e False w)"

text \<open>
  The loop: \<^verbatim>\<open>n\<close> is a \<^verbatim>\<open>uint32_t\<close>, so a failed read (-1) passes the test and a buffer nothing was
  read into is used; only the first event of a read is looked at; \<^verbatim>\<open>watchSet[wd]\<close> makes a null
  entry for a descriptor that is not there. When the reads given are used up the next one waits.
\<close>

definition watch_slot :: "int \<Rightarrow> manager \<Rightarrow> manager" where
  "watch_slot wd m =
     (if map_of (im_watchSet m) wd = None then m\<lparr>im_watchSet := map_put wd None (im_watchSet m)\<rparr> else m)"

fun readLoop ::
  "(nat \<Rightarrow> inotify_event \<Rightarrow> 'w \<Rightarrow> 'w \<times> bool outcome) \<Rightarrow> watch_read list \<Rightarrow> manager \<times> 'w \<Rightarrow>
   (manager \<times> 'w) \<times> unit outcome" where
  "readLoop handle [] mw = (mw, Blocks)"
| "readLoop handle (r # rs) (m, w) =
     (if (0 :: u32) < word_of_int (rd_ret r) then
        case rd_events r of
          [] \<Rightarrow> ((m, w), Undef)
        | e # _ \<Rightarrow>
            let m1 = watch_slot (ie_wd e) m
            in case trigger handle (the (map_of (im_watchSet m1) (ie_wd e))) e w of
                 (w1, Returns term) \<Rightarrow> if term then ((m1, w1), Returns ()) else readLoop handle rs (m1, w1)
               | (w1, Throws x) \<Rightarrow> ((m1, w1), Throws x)
               | (w1, Blocks) \<Rightarrow> ((m1, w1), Blocks)
               | (w1, Dies) \<Rightarrow> ((m1, w1), Dies)
               | (w1, Undef) \<Rightarrow> ((m1, w1), Undef)
      else ((m, w), Returns ()))"

text \<open>As the function of a thread: an exception that leaves it ends the process.\<close>

definition run_thread :: "'w \<times> unit outcome \<Rightarrow> 'w \<times> unit outcome" where
  "run_thread x = (case x of (w, Throws e) \<Rightarrow> (w, Dies) | _ \<Rightarrow> x)"

definition startWatching ::
  "(nat \<Rightarrow> inotify_event \<Rightarrow> 'w \<Rightarrow> 'w \<times> bool outcome) \<Rightarrow> watch_read list \<Rightarrow> manager \<times> 'w \<Rightarrow>
   (manager \<times> 'w) \<times> unit outcome" where
  "startWatching handle reads mw = run_thread (readLoop handle reads mw)"

section \<open>The loop\<close>

text \<open>What the read of an event returns: at least the 16 bytes of its head.\<close>

definition read_ok :: "watch_read \<Rightarrow> bool" where
  "read_ok r \<longleftrightarrow> 16 \<le> rd_ret r \<and> rd_ret r \<le> 272 \<and> rd_events r \<noteq> []"

lemma read_ok_positive: "read_ok r \<Longrightarrow> (0 :: u32) < word_of_int (rd_ret r)"
  by (simp add: read_ok_def word_less_def unsigned_of_int take_bit_eq_mod)

lemma map_of_put_same [simp]: "map_of (map_put k v m) k = Some v"
  by (induction m) auto

text \<open>A failed read is taken for one of 4294967295 bytes.\<close>

lemma failed_read: "rd_ret r = -1 \<Longrightarrow> rd_events r = [] \<Longrightarrow> readLoop handle (r # rs) (m, w) = ((m, w), Undef)"
  by (simp add: word_gt_0)

text \<open>The kernel reports a full queue with the watch descriptor -1.\<close>

lemma queue_overflow:
  assumes "read_ok r" and "rd_events r = e # es" and "map_of (im_watchSet m) (ie_wd e) = None"
  shows "snd (startWatching handle (r # rs) (m, w)) = Dies"
  using assms read_ok_positive [OF assms(1)]
  by (simp add: startWatching_def run_thread_def watch_slot_def trigger_def Let_def)

text \<open>A handler that never asks to stop keeps the loop from ending.\<close>

lemma watch_event_goes_on:
  assumes "\<And>h e w. snd (handle h e w) \<noteq> Returns True"
  shows "snd (watch_event handle hs e False w) \<noteq> Returns True"
proof (induction hs arbitrary: w)
  case (Cons h hs)
  obtain w1 oc where h: "handle h e w = (w1, oc)" by fastforce
  then show ?case using assms [of h e w] Cons by (cases oc) auto
qed simp

lemma trigger_goes_on:
  assumes "\<And>h e w. snd (handle h e w) \<noteq> Returns True"
  shows "snd (trigger handle wt e w) \<noteq> Returns True"
  by (cases wt) (simp_all add: trigger_def watch_event_goes_on [of handle, OF assms])

lemma readLoop_never_returns:
  assumes "\<And>h e w. snd (handle h e w) \<noteq> Returns True" and "\<forall>r \<in> set reads. read_ok r"
  shows "snd (readLoop handle reads mw) \<noteq> Returns ()"
  using assms(2)
proof (induction reads arbitrary: mw)
  case (Cons r rs)
  obtain m w where mw: "mw = (m, w)" by fastforce
  have "read_ok r" using Cons.prems by simp
  then obtain e es where e: "rd_events r = e # es" by (cases "rd_events r") (auto simp add: read_ok_def)
  obtain w1 oc where t:
    "trigger handle (the (map_of (im_watchSet (watch_slot (ie_wd e) m)) (ie_wd e))) e w = (w1, oc)"
    by fastforce
  have go: "oc \<noteq> Returns True"
    using trigger_goes_on [of handle, OF assms(1)] t by (metis snd_conv)
  have rest: "snd (readLoop handle rs (watch_slot (ie_wd e) m, w1)) \<noteq> Returns ()"
    by (rule Cons.IH) (use Cons.prems in simp)
  note pos = read_ok_positive [OF \<open>read_ok r\<close>]
  show ?case
  proof (cases oc)
    case (Returns b)
    with go have "\<not> b" by simp
    with Returns rest show ?thesis by (simp only: mw readLoop.simps pos e t Let_def if_True list.case outcome.case prod.case if_False not_False_eq_True)
  qed (simp_all only: mw readLoop.simps pos e t Let_def if_True list.case outcome.case prod.case snd_conv, simp_all)
qed simp

end
