(* ===== verification/Plugin_Loader.thy ===== *)
theory Plugin_Loader
  imports Observer Inotify_Watch
begin

text \<open>
  Plugins (\<^verbatim>\<open>plugins/src\<close>): \<^verbatim>\<open>DirMonitor\<close> watches the plugin directory in a thread of its own and
  tells its dispatcher the paths of new libraries, \<^verbatim>\<open>SoLoader\<close> opens them, \<^verbatim>\<open>PNP\<close> owns both. One
  event is handled in one step. What \<^verbatim>\<open>dlopen\<close> answers may change from call to call, since a file
  may still be growing: it is a function of the number of the call.
\<close>

unbundle bit_operations_syntax

datatype dl_answer = Handle nat | Dl_error string

text \<open>
  The logger and the dispatcher's vector are those of \<open>observers\<close>. \<open>pl_opened\<close> and \<open>pl_closed\<close>
  record the calls of \<^verbatim>\<open>dlopen\<close> and \<^verbatim>\<open>dlclose\<close>.
\<close>

record plugins = observers +
  pl_dirName :: string
  pl_listener :: bool
  pl_manager :: manager
  pl_libs :: "nat list"
  pl_pluginCB :: "nat option"
  pl_opened :: "string list"
  pl_closed :: "nat list"

section \<open>SoLoader\<close>

definition OnLoad :: "(nat \<Rightarrow> string \<Rightarrow> dl_answer) \<Rightarrow> string \<Rightarrow> string \<Rightarrow> plugins \<Rightarrow> plugins \<times> unit outcome" where
  "OnLoad dl thread libPath w =
     (let w1 = log_write thread (''Loading plugin: '' @ libPath) INFO w;
          w2 = w1\<lparr>pl_opened := pl_opened w1 @ [libPath]\<rparr>
      in case dl (length (pl_opened w1)) libPath of
           Dl_error dlerror \<Rightarrow>
             (let error = ''dlopen failed: '' @ dlerror
              in (log_write thread error ERROR w2, Throws (Runtime_error error)))
         | Handle handle \<Rightarrow>
             (log_write thread (''Plugin loaded successfully: '' @ libPath) INFO
                (w2\<lparr>pl_libs := pl_libs w2 @ [handle]\<rparr>), Returns ()))"

definition SoLoader_Load :: "(nat \<Rightarrow> string \<Rightarrow> dl_answer) \<Rightarrow> string \<Rightarrow> string \<Rightarrow> plugins \<Rightarrow> plugins \<times> unit outcome" where
  "SoLoader_Load dl thread libPath w = OnLoad dl thread libPath w"

text \<open>The constructor, with the address \<open>p\<close> the callback gets.\<close>

definition new_SoLoader :: "string \<Rightarrow> bool \<Rightarrow> nat \<Rightarrow> plugins \<Rightarrow> plugins" where
  "new_SoLoader thread null_disp p w =
     (let w0 = w\<lparr>pl_libs := []\<rparr>
      in if null_disp
         then (log_write thread ''Dispatcher is null'' ERROR w0)\<lparr>pl_pluginCB := None\<rparr>
         else log_write thread ''SoLoader initialized'' INFO
                ((new_CallBack thread False p w0)\<lparr>pl_pluginCB := Some p\<rparr>))"

definition delete_SoLoader :: "plugins \<Rightarrow> plugins \<times> unit outcome" where
  "delete_SoLoader w =
     (let w1 = w\<lparr>pl_closed := pl_closed w @ pl_libs w, pl_libs := []\<rparr>
      in case pl_pluginCB w1 of
           None \<Rightarrow> (w1, Returns ())
         | Some p \<Rightarrow> delete_CallBack False p w1)"

text \<open>\<^verbatim>\<open>Loader\<close>, the owner of one library that nothing uses yet: opened when made, closed when destroyed.\<close>

definition new_Loader :: "dl_answer \<Rightarrow> nat outcome" where
  "new_Loader answered =
     (case answered of
        Dl_error dlerror \<Rightarrow> Throws (Runtime_error (''Failed to load: '' @ dlerror))
      | Handle handle \<Rightarrow> Returns handle)"

definition delete_Loader :: "nat \<Rightarrow> nat list \<Rightarrow> nat list" where
  "delete_Loader m_handle closed = closed @ [m_handle]"

section \<open>DirMonitor\<close>

fun has_substring :: "string \<Rightarrow> string \<Rightarrow> bool" where
  "has_substring needle [] = (needle = [])"
| "has_substring needle (c # cs) = (take (length needle) (c # cs) = needle \<or> has_substring needle cs)"

definition plugin_path :: "string \<Rightarrow> string \<Rightarrow> string" where
  "plugin_path dir filename = dir @ ''/'' @ filename"

text \<open>The one kind of callback registered is \<^verbatim>\<open>SoLoader\<close>'s, whose action is \<^verbatim>\<open>OnLoad\<close>.\<close>

definition DirMonitor_handle ::
  "(nat \<Rightarrow> string \<Rightarrow> dl_answer) \<Rightarrow> string \<Rightarrow> nat \<Rightarrow> inotify_event \<Rightarrow> plugins \<Rightarrow> plugins \<times> bool outcome" where
  "DirMonitor_handle dl thread h e w =
     (let filename = getName e
      in if has_substring ''.so'' filename
         then let fullPath = plugin_path (pl_dirName w) filename;
                  w1 = log_write thread (''Plugin detected: '' @ fullPath) INFO w
              in sbind (NotifyAll (\<lambda>p. CallBack_Notify (OnLoad dl thread)) fullPath w1)
                   (\<lambda>w2 u. (w2, Returns False))
         else (w, Returns False))"

definition IN_CLOSE_WRITE :: u32 where "IN_CLOSE_WRITE = 0x8"
definition IN_CREATE :: u32 where "IN_CREATE = 0x100"

record inotify_answers =
  an_init_fd :: int
  an_wd :: int
  an_strerror :: string

text \<open>
  The constructor; \<open>h\<close> is the handler's address. \<^verbatim>\<open>addWatch\<close> throws when there is no such
  directory, so its test for a null watch never fires. An exception destroys the dispatcher.
\<close>

definition new_DirMonitor ::
  "string \<Rightarrow> inotify_answers \<Rightarrow> nat \<Rightarrow> string \<Rightarrow> plugins \<Rightarrow> plugins \<times> unit outcome" where
  "new_DirMonitor thread an h dirName w0 =
     (let w = new_Dispatcher thread (w0\<lparr>pl_dirName := dirName, pl_listener := False\<rparr>)
      in scatch
           (case new_InotifyManager (an_init_fd an) of
              Returns m \<Rightarrow>
                (case addWatch (an_wd an) (an_strerror an) dirName (IN_CREATE OR IN_CLOSE_WRITE) m of
                   (m1, Returns wt) \<Rightarrow>
                     (let wt1 = addEventHandler wt h;
                          m2 = m1\<lparr>im_watchSet := map_put (iw_wd wt1) (Some wt1) (im_watchSet m1)\<rparr>;
                          w1 = log_write thread (''Watching directory: '' @ dirName) INFO (w\<lparr>pl_manager := m2\<rparr>)
                      in (w1\<lparr>pl_listener := True\<rparr>, Returns ()))
                 | (m1, Throws e) \<Rightarrow> (w, Throws e)
                 | (m1, _) \<Rightarrow> (w, Undef))
            | Throws e \<Rightarrow> (w, Throws e)
            | _ \<Rightarrow> (w, Undef))
           (\<lambda>w1 e. sthen (delete_Dispatcher thread (\<lambda>p v. (v, Returns ())) w1) (\<lambda>w2. (w2, Throws e))))"

text \<open>What the listener does with the reads it gets.\<close>

definition listen ::
  "(nat \<Rightarrow> string \<Rightarrow> dl_answer) \<Rightarrow> string \<Rightarrow> watch_read list \<Rightarrow> plugins \<Rightarrow> plugins \<times> unit outcome" where
  "listen dl thread reads w =
     (case startWatching (DirMonitor_handle dl thread) reads (pl_manager w, w) of
        ((m, w1), oc) \<Rightarrow> (w1\<lparr>pl_manager := m\<rparr>, oc))"

text \<open>The destructor joins the listener, with the reads it still gets, then the members go.\<close>

definition delete_DirMonitor ::
  "(nat \<Rightarrow> string \<Rightarrow> dl_answer) \<Rightarrow> string \<Rightarrow> string \<Rightarrow> watch_read list \<Rightarrow> plugins \<Rightarrow> plugins \<times> unit outcome" where
  "delete_DirMonitor dl thread listener reads w =
     sthen (if pl_listener w then listen dl listener reads w else (w, Returns ()))
       (\<lambda>w1. delete_Dispatcher thread (\<lambda>p v. CallBack_NotifyEnd None v)
          (w1\<lparr>pl_manager := delete_InotifyManager (pl_manager w1)\<rparr>))"

section \<open>PNP\<close>

definition new_PNP ::
  "string \<Rightarrow> inotify_answers \<Rightarrow> nat \<Rightarrow> nat \<Rightarrow> string \<Rightarrow> plugins \<Rightarrow> plugins \<times> unit outcome" where
  "new_PNP thread an h p dirPath w =
     sthen (new_DirMonitor thread an h dirPath w)
       (\<lambda>w1. (log_write thread (''PNP initialized with directory: '' @ dirPath) INFO
               (new_SoLoader thread False p w1), Returns ()))"

definition delete_PNP ::
  "(nat \<Rightarrow> string \<Rightarrow> dl_answer) \<Rightarrow> string \<Rightarrow> string \<Rightarrow> watch_read list \<Rightarrow> plugins \<Rightarrow> plugins \<times> unit outcome" where
  "delete_PNP dl thread listener reads w =
     sthen (delete_SoLoader (log_write thread ''PNP shutting down'' INFO w))
       (delete_DirMonitor dl thread listener reads)"

section \<open>What a loader opens\<close>

lemma log_write_fields [simp]:
  "pl_dirName (log_write t msg l w) = pl_dirName w" "pl_manager (log_write t msg l w) = pl_manager w"
  "pl_libs (log_write t msg l w) = pl_libs w" "pl_opened (log_write t msg l w) = pl_opened w"
  "pl_pluginCB (log_write t msg l w) = pl_pluginCB w" "pl_listener (log_write t msg l w) = pl_listener w"
  "pl_closed (log_write t msg l w) = pl_closed w"
  by (simp_all add: log_write_def)

lemma dispatcher_fields [simp]:
  "pl_manager (Register t p w) = pl_manager w" "pl_libs (Register t p w) = pl_libs w"
  "pl_opened (Register t p w) = pl_opened w" "pl_dirName (Register t p w) = pl_dirName w"
  "pl_listener (Register t p w) = pl_listener w" "pl_closed (Register t p w) = pl_closed w"
  "pl_manager (UnRegister p w) = pl_manager w" "pl_listener (UnRegister p w) = pl_listener w"
  "pl_opened (UnRegister p w) = pl_opened w" "pl_closed (UnRegister p w) = pl_closed w"
  by (simp_all add: Register_def UnRegister_def Let_def)

lemma new_Dispatcher_fields [simp]:
  "ob_subs (new_Dispatcher t w) = []" "pl_libs (new_Dispatcher t w) = pl_libs w"
  "pl_opened (new_Dispatcher t w) = pl_opened w" "pl_dirName (new_Dispatcher t w) = pl_dirName w"
  "pl_closed (new_Dispatcher t w) = pl_closed w"
  by (simp_all add: new_Dispatcher_def)

text \<open>A loader that was made: its watch, its one callback, and nothing opened by it yet.\<close>

lemma new_PNP_result:
  assumes "new_PNP thread an h p dir w0 = (w, Returns ())"
  shows "ob_subs w = [p]" and "pl_dirName w = dir" and "pl_opened w = pl_opened w0" and "pl_libs w = []"
    and "pl_listener w" and "pl_pluginCB w = Some p"
    and "\<exists>wt. im_watchSet (pl_manager w) = [(an_wd an, Some wt)] \<and> iw_handlers wt = [(h, ())]"
    and "an_wd an \<noteq> -1"
proof -
  show "an_wd an \<noteq> -1"
    using assms
    by (auto simp add: new_PNP_def new_DirMonitor_def new_InotifyManager_def addWatch_def new_InotifyWatch_def
        sthen_def delete_Dispatcher_def Let_def split: if_splits outcome.splits prod.splits)
  have "an_init_fd an \<noteq> -1" "an_wd an \<noteq> -1"
    using assms
    by (auto simp add: new_PNP_def new_DirMonitor_def new_InotifyManager_def addWatch_def new_InotifyWatch_def
        sthen_def delete_Dispatcher_def Let_def split: if_splits outcome.splits prod.splits)
  then have w: "w = log_write thread (''PNP initialized with directory: '' @ dir) INFO (new_SoLoader thread False p
      ((log_write thread (''Watching directory: '' @ dir) INFO
        ((new_Dispatcher thread (w0\<lparr>pl_dirName := dir, pl_listener := False\<rparr>))\<lparr>pl_manager :=
          \<lparr>im_fd = an_init_fd an, im_watchSet = [(an_wd an, Some \<lparr>iw_path = dir, iw_flags = IN_CREATE OR IN_CLOSE_WRITE,
             iw_wd = an_wd an, iw_handlers = [(h, ())]\<rparr>)]\<rparr>\<rparr>))\<lparr>pl_listener := True\<rparr>))"
    using assms
    by (simp add: new_PNP_def new_DirMonitor_def new_InotifyManager_def addWatch_def new_InotifyWatch_def
        addEventHandler_def Let_def)
  show "ob_subs w = [p]" and "pl_dirName w = dir" and "pl_opened w = pl_opened w0" and "pl_libs w = []"
    and "pl_listener w" and "pl_pluginCB w = Some p"
    and "\<exists>wt. im_watchSet (pl_manager w) = [(an_wd an, Some wt)] \<and> iw_handlers wt = [(h, ())]"
    by (simp_all add: w new_SoLoader_def new_CallBack_def new_ICallBack_def Let_def)
qed

text \<open>
  The libraries opened for some paths, from the \<open>k\<close>-th call of \<^verbatim>\<open>dlopen\<close> on, until the first that
  cannot be opened; and whether there is none such.
\<close>

fun load_all :: "(nat \<Rightarrow> string \<Rightarrow> dl_answer) \<Rightarrow> nat \<Rightarrow> string list \<Rightarrow> string list \<times> nat list \<times> bool" where
  "load_all dl k [] = ([], [], True)"
| "load_all dl k (f # fs) =
     (case dl k f of
        Dl_error err \<Rightarrow> ([f], [], False)
      | Handle lib \<Rightarrow> (case load_all dl (Suc k) fs of (os, hs, ok) \<Rightarrow> (f # os, lib # hs, ok)))"

text \<open>The path an event stands for, if any.\<close>

definition event_path :: "string \<Rightarrow> inotify_event \<Rightarrow> string list" where
  "event_path dir e = (if has_substring ''.so'' (getName e) then [plugin_path dir (getName e)] else [])"

lemma OnLoad_result:
  "ob_subs (fst (OnLoad dl t f w)) = ob_subs w" "pl_dirName (fst (OnLoad dl t f w)) = pl_dirName w"
  "pl_opened (fst (OnLoad dl t f w)) = pl_opened w @ [f]"
  "dl (length (pl_opened w)) f = Handle lib \<Longrightarrow>
     snd (OnLoad dl t f w) = Returns () \<and> pl_libs (fst (OnLoad dl t f w)) = pl_libs w @ [lib]"
  "dl (length (pl_opened w)) f = Dl_error err \<Longrightarrow>
     snd (OnLoad dl t f w) = Throws (Runtime_error (''dlopen failed: '' @ err)) \<and>
     pl_libs (fst (OnLoad dl t f w)) = pl_libs w"
  by (simp_all add: OnLoad_def Let_def split: dl_answer.split)

text \<open>One event with one callback.\<close>

lemma handle_event:
  assumes "ob_subs w = [p]" and "DirMonitor_handle dl t h e w = (w1, oc)"
    and "load_all dl (length (pl_opened w)) (event_path (pl_dirName w) e) = (os, hs, ok)"
  shows "ob_subs w1 = [p]" and "pl_dirName w1 = pl_dirName w" and "pl_opened w1 = pl_opened w @ os"
    and "pl_libs w1 = pl_libs w @ hs" and "ok \<Longrightarrow> oc = Returns False" and "\<not> ok \<Longrightarrow> \<exists>x. oc = Throws x"
proof -
  have "ob_subs w1 = [p] \<and> pl_dirName w1 = pl_dirName w \<and> pl_opened w1 = pl_opened w @ os \<and>
    pl_libs w1 = pl_libs w @ hs \<and> (if ok then oc = Returns False else (\<exists>x. oc = Throws x))"
  proof (cases "has_substring ''.so'' (getName e)")
    case False
    with assms show ?thesis by (simp add: DirMonitor_handle_def event_path_def Let_def)
  next
    case True
    let ?f = "plugin_path (pl_dirName w) (getName e)"
    let ?w = "log_write t (''Plugin detected: '' @ ?f) INFO w"
    obtain w2 oc2 where load: "OnLoad dl t ?f ?w = (w2, oc2)" by fastforce
    note result = OnLoad_result [where dl = dl and t = t and f = "?f" and w = "?w", unfolded load, simplified]
    have run: "sbind (sbind (w2, oc2) (\<lambda>v u. if ob_subs v = [p] then (v, Returns ()) else (v, Undef)))
        (\<lambda>v u. (v, Returns False)) = (w1, oc)"
      using assms(1,2) True load
      by (simp add: DirMonitor_handle_def NotifyAll_def CallBack_Notify_def Let_def cong: if_cong)
    show ?thesis
    proof (cases "dl (length (pl_opened w)) ?f")
      case (Handle x)
      with result(4) [OF Handle] result(1-3) run assms(1,3) True show ?thesis by (simp add: event_path_def)
    next
      case (Dl_error x)
      with result(5) [OF Dl_error] result(1-3) run assms(1,3) True show ?thesis by (auto simp add: event_path_def)
    qed
  qed
  then show "ob_subs w1 = [p]" and "pl_dirName w1 = pl_dirName w" and "pl_opened w1 = pl_opened w @ os"
    and "pl_libs w1 = pl_libs w @ hs" and "ok \<Longrightarrow> oc = Returns False" and "\<not> ok \<Longrightarrow> \<exists>x. oc = Throws x"
    by (simp_all split: if_splits)
qed

text \<open>All the reads of a listener whose manager has the one watch.\<close>

definition first_event :: "watch_read \<Rightarrow> inotify_event" where
  "first_event r = hd (rd_events r)"

lemma load_all_append:
  "load_all dl k (fs @ gs) =
     (case load_all dl k fs of
        (os, hs, False) \<Rightarrow> (os, hs, False)
      | (os, hs, True) \<Rightarrow>
          (case load_all dl (k + length os) gs of (os', hs', ok) \<Rightarrow> (os @ os', hs @ hs', ok)))"
  by (induction fs arbitrary: k) (simp_all split: dl_answer.split prod.splits bool.splits)

lemma trigger_one_handler:
  "iw_handlers wt = [(h, ())] \<Longrightarrow> trigger handle (Some wt) e w = sbind (handle h e w) (\<lambda>w1 r. (w1, Returns r))"
  by (simp add: trigger_def)

lemma readLoop_opens:
  assumes "ob_subs w = [p]" and "im_watchSet m = [(wd, Some wt)]" and "iw_handlers wt = [(h, ())]"
    and "\<forall>r \<in> set reads. read_ok r \<and> ie_wd (first_event r) = wd"
    and "load_all dl (length (pl_opened w)) (concat (map (event_path (pl_dirName w) \<circ> first_event) reads)) = (os, hs, ok)"
  shows "\<exists>w' oc. readLoop (DirMonitor_handle dl t) reads (m, w) = ((m, w'), oc) \<and> pl_opened w' = pl_opened w @ os \<and>
    pl_libs w' = pl_libs w @ hs \<and> (if ok then oc = Blocks else (\<exists>x. oc = Throws x))"
  using assms
proof (induction reads arbitrary: w os hs)
  case Nil
  then show ?case by simp
next
  case (Cons r rs)
  have r: "read_ok r" and wd: "ie_wd (first_event r) = wd" using Cons.prems(4) by simp_all
  then obtain e es where e: "rd_events r = e # es" "first_event r = e" "ie_wd e = wd"
    by (cases "rd_events r") (auto simp add: read_ok_def first_event_def)
  obtain os1 hs1 ok1 where one: "load_all dl (length (pl_opened w)) (event_path (pl_dirName w) e) = (os1, hs1, ok1)"
    using prod_cases3 by blast
  obtain w1 oc1 where h: "DirMonitor_handle dl t h e w = (w1, oc1)" by fastforce
  note fin = handle_event [OF Cons.prems(1) h one]
  have step: "readLoop (DirMonitor_handle dl t) (r # rs) (m, w) =
      (case sbind (w1, oc1) (\<lambda>w1 r. (w1, Returns r)) of
         (w1, Returns b) \<Rightarrow> if b then ((m, w1), Returns ()) else readLoop (DirMonitor_handle dl t) rs (m, w1)
       | (w1, Throws x) \<Rightarrow> ((m, w1), Throws x)
       | (w1, Blocks) \<Rightarrow> ((m, w1), Blocks)
       | (w1, Dies) \<Rightarrow> ((m, w1), Dies)
       | (w1, Undef) \<Rightarrow> ((m, w1), Undef))"
    using read_ok_positive [OF r] e Cons.prems(2) h
    by (simp add: watch_slot_def trigger_one_handler [OF Cons.prems(3)] Let_def)
  show ?case
  proof (cases ok1)
    case False
    with fin(6) obtain x where "oc1 = Throws x" by blast
    with False step fin(3,4) one Cons.prems(5) e(2) show ?thesis by (simp add: load_all_append)
  next
    case True
    obtain os2 hs2 ok2 where rest: "load_all dl (length (pl_opened w1))
        (concat (map (event_path (pl_dirName w1) \<circ> first_event) rs)) = (os2, hs2, ok2)"
      using prod_cases3 by blast
    then have all: "os = os1 @ os2" "hs = hs1 @ hs2" "ok = ok2"
      using Cons.prems(5) one True e(2) fin(2,3) by (simp_all add: load_all_append comp_def)
    from Cons.IH [OF fin(1) Cons.prems(2,3) _ rest [folded all(3)]] Cons.prems(4)
    show ?thesis using step fin(3-5) True all by simp
  qed
qed


text \<open>
  A library copied into the directory: the first event finds it empty, and the server is gone. Had
  the listener been slower, the same file would have been opened twice.
\<close>

definition demo_logger :: logger where
  "demo_logger = \<lparr>lg_log_level = ERROR, lg_logfile = Some ''log.txt'', lg_files = (\<lambda>f. ''''), lg_screen = '''',
      lg_clock = (\<lambda>i. \<lparr>tm_year = 2024, tm_mon = 1, tm_mday = 2, tm_hour = 3, tm_min = 4, tm_sec = 5\<rparr>),
      lg_reads = 0\<rparr>"

definition blank_plugins :: "logger \<Rightarrow> plugins" where
  "blank_plugins lg = \<lparr>ob_subs = [], ob_logger = lg, pl_dirName = '''', pl_listener = False,
     pl_manager = \<lparr>im_fd = -1, im_watchSet = []\<rparr>, pl_libs = [], pl_pluginCB = None, pl_opened = [], pl_closed = []\<rparr>"

definition demo_inotify :: inotify_answers where
  "demo_inotify = \<lparr>an_init_fd = 5, an_wd = 1, an_strerror = ''''\<rparr>"

definition copied_file :: "watch_read list" where
  "copied_file =
     [\<lparr>rd_ret = 32, rd_events = [\<lparr>ie_wd = 1, ie_mask = IN_CREATE, ie_name = ''a.so''\<rparr>]\<rparr>,
      \<lparr>rd_ret = 32, rd_events = [\<lparr>ie_wd = 1, ie_mask = IN_CLOSE_WRITE, ie_name = ''a.so''\<rparr>]\<rparr>]"

definition short_at_first :: "nat \<Rightarrow> string \<Rightarrow> dl_answer" where
  "short_at_first k f = (if k = 0 then Dl_error ''file too short'' else Handle k)"

lemma demo_pnp:
  "\<exists>w. new_PNP ''1'' demo_inotify 70 80 ''plugins/'' (blank_plugins demo_logger) = (w, Returns ())"
  by (simp add: new_PNP_def new_DirMonitor_def new_InotifyManager_def addWatch_def new_InotifyWatch_def
      demo_inotify_def Let_def)


section \<open>Taking the loader down\<close>

lemma DirMonitor_never_stops: "snd (DirMonitor_handle dl t h e w) \<noteq> Returns True"
proof -
  obtain w1 oc where
    n: "NotifyAll (\<lambda>p. CallBack_Notify (OnLoad dl t)) (plugin_path (pl_dirName w) (getName e))
      (log_write t (''Plugin detected: '' @ plugin_path (pl_dirName w) (getName e)) INFO w) = (w1, oc)"
    by fastforce
  show ?thesis
    unfolding DirMonitor_handle_def Let_def n by (cases oc) simp_all
qed

lemma listen_never_returns: "\<forall>r \<in> set reads. read_ok r \<Longrightarrow> snd (listen dl t reads w) \<noteq> Returns ()"
proof -
  assume ok: "\<forall>r \<in> set reads. read_ok r"
  obtain m w1 oc where r: "readLoop (DirMonitor_handle dl t) reads (pl_manager w, w) = ((m, w1), oc)"
    by (metis surj_pair)
  then have "oc \<noteq> Returns ()"
    using readLoop_never_returns [where handle = "DirMonitor_handle dl t" and mw = "(pl_manager w, w)", OF _ ok]
      DirMonitor_never_stops by simp
  with r show ?thesis by (cases oc) (simp_all add: listen_def startWatching_def run_thread_def)
qed

lemma delete_PNP_listens:
  assumes "new_PNP thread an h p dir w0 = (w, Returns ())"
  shows "\<exists>v. (\<forall>reads. delete_PNP dl t u reads w =
      sthen (listen dl u reads v) (\<lambda>w1. delete_Dispatcher t (\<lambda>p v. CallBack_NotifyEnd None v)
          (w1\<lparr>pl_manager := delete_InotifyManager (pl_manager w1)\<rparr>))) \<and>
    ob_subs v = [] \<and> pl_manager v = pl_manager w \<and> pl_closed v = pl_closed w @ pl_libs w"
proof -
  note made = new_PNP_result [OF assms]
  let ?v = "UnRegister p (UnRegister p
    ((log_write t ''PNP shutting down'' INFO w)\<lparr>pl_closed := pl_closed w @ pl_libs w, pl_libs := []\<rparr>))"
  have "delete_PNP dl t u reads w = delete_DirMonitor dl t u reads ?v" for reads
    using made(6) by (simp add: delete_PNP_def delete_SoLoader_def delete_CallBack_def delete_ICallBack_def Let_def)
  moreover have "pl_listener ?v" "ob_subs ?v = []" "pl_manager ?v = pl_manager w"
    "pl_closed ?v = pl_closed w @ pl_libs w"
    using made(1,5) by simp_all
  ultimately show ?thesis by (auto simp add: delete_DirMonitor_def)
qed

lemma listen_no_exception: "snd (listen dl t reads w) \<noteq> Throws e"
proof -
  obtain m w1 oc where "readLoop (DirMonitor_handle dl t) reads (pl_manager w, w) = ((m, w1), oc)"
    by (metis surj_pair)
  then show ?thesis by (cases oc) (simp_all add: listen_def startWatching_def run_thread_def)
qed

lemma delete_PNP_outcome:
  assumes "new_PNP thread an h p dir w0 = (w, Returns ())"
  shows "\<forall>r \<in> set reads. read_ok r \<Longrightarrow> snd (delete_PNP dl t u reads w) \<in> {Blocks, Dies, Undef}"
    and "snd (delete_PNP dl t u [] w) = Blocks"
    and "pl_closed (fst (delete_PNP dl t u [] w)) = pl_closed w @ pl_libs w"
proof -
  obtain v where v: "\<And>rs. delete_PNP dl t u rs w =
      sthen (listen dl u rs v) (\<lambda>w1. delete_Dispatcher t (\<lambda>p v. CallBack_NotifyEnd None v)
          (w1\<lparr>pl_manager := delete_InotifyManager (pl_manager w1)\<rparr>))"
    and closed: "pl_closed v = pl_closed w @ pl_libs w"
    using delete_PNP_listens [OF assms, of dl t u] by blast
  have empty: "listen dl u [] v = (v\<lparr>pl_manager := pl_manager v\<rparr>, Blocks)"
    by (simp add: listen_def startWatching_def run_thread_def)
  then show "snd (delete_PNP dl t u [] w) = Blocks"
    and "pl_closed (fst (delete_PNP dl t u [] w)) = pl_closed w @ pl_libs w"
    using closed by (simp_all add: v)
  obtain w1 oc where l: "listen dl u reads v = (w1, oc)" by fastforce
  assume "\<forall>r \<in> set reads. read_ok r"
  from listen_never_returns [OF this, of dl u v] l have "oc \<noteq> Returns ()" by simp
  moreover have "oc \<noteq> Throws e" for e using listen_no_exception [of dl u reads v e] l by simp
  ultimately show "snd (delete_PNP dl t u reads w) \<in> {Blocks, Dies, Undef}"
    using l by (cases oc) (auto simp add: v)
qed

text \<open>The destructor of the loader closes the libraries and then never returns: whatever events still
  come, the listener it joins is never asked to stop and goes on reading. So \<^verbatim>\<open>RunServer\<close> does not
  return after the reactor has stopped, and "shutdown complete" is never printed.\<close>

theorem plugins_never_taken_down:
  assumes "new_PNP thread an h p dir w0 = (w, Returns ())" and "\<forall>r \<in> set reads. read_ok r"
  shows "snd (delete_PNP dl t u reads w) \<in> {Blocks, Dies, Undef} \<and> snd (delete_PNP dl t u [] w) = Blocks \<and>
    pl_closed (fst (delete_PNP dl t u [] w)) = pl_closed w @ pl_libs w"
  using delete_PNP_outcome [OF assms(1)] assms(2) by blast

theorem plugins_never_taken_down_witness:
  "\<exists>w. new_PNP ''1'' demo_inotify 70 80 ''plugins/'' (blank_plugins demo_logger) = (w, Returns ()) \<and>
     snd (delete_PNP (\<lambda>k f. Handle k) ''1'' ''2'' copied_file w) \<in> {Blocks, Dies, Undef}"
proof -
  have "\<forall>r \<in> set copied_file. read_ok r" by (simp add: copied_file_def read_ok_def)
  with demo_pnp plugins_never_taken_down show ?thesis by blast
qed

end
