(* ===== verification/Watchdog_Monitor.thy ===== *)
theory Watchdog_Monitor
  imports Lds_Prelude
begin

text \<open>
  \<^verbatim>\<open>services/watchdog_monitor/WatchdogMonitor.cpp\<close>: a thread that looks every three seconds whether the
  process that was the server's parent is still there. The flag and the pid are shared with the
  main thread; a test of the flag, a \<^verbatim>\<open>sleep\<close> with its \<^verbatim>\<open>kill\<close>, and a restart are one step each.
  \<open>wm_actions\<close> records what the thread asks of the system.
\<close>

datatype monitor = At_test | Asleep | Restarting | Exited

datatype action =
    Probe int
  | Spawn string "string list"

record watchdog =
  wm_is_monitoring :: bool
  wm_watchdog_pid :: int
  wm_threads :: "monitor list"
  wm_actions :: "action list"

definition no_watchdog :: watchdog where
  "no_watchdog = \<lparr>wm_is_monitoring = False, wm_watchdog_pid = 0, wm_threads = [], wm_actions = []\<rparr>"

text \<open>The new thread is detached, so \<^verbatim>\<open>StopMonitoring\<close> finds nothing to join.\<close>

definition StartMonitoring :: "int \<Rightarrow> watchdog \<Rightarrow> watchdog" where
  "StartMonitoring ppid w =
     (if wm_is_monitoring w then w
      else w\<lparr>wm_watchdog_pid := ppid, wm_is_monitoring := True, wm_threads := wm_threads w @ [At_test]\<rparr>)"

definition StopMonitoring :: "watchdog \<Rightarrow> watchdog" where
  "StopMonitoring w = w\<lparr>wm_is_monitoring := False\<rparr>"

text \<open>
  \<^verbatim>\<open>fork\<close> gives -1 on failure; otherwise the child replaces itself by \<^verbatim>\<open>argv[0]\<close> with the server's own
  arguments. The child's side: the exec, or \<^verbatim>\<open>exit(1)\<close>.
\<close>

definition RestartWatchdog :: "int \<Rightarrow> string list \<Rightarrow> watchdog \<Rightarrow> watchdog" where
  "RestartWatchdog respawn_pid argv w =
     (if respawn_pid = -1 then w else w\<lparr>wm_actions := wm_actions w @ [Spawn (hd argv) argv]\<rparr>)"

definition restarted_child :: "bool \<Rightarrow> string list \<Rightarrow> (string \<times> string list) + int" where
  "restarted_child exec_ok argv = (if exec_ok then Inl (hd argv, argv) else Inr 1)"

text \<open>One step of a monitor thread: \<open>rc\<close> what \<^verbatim>\<open>kill(pid, 0)\<close> returns, \<open>respawn_pid\<close> what \<^verbatim>\<open>fork\<close> does.\<close>

fun MonitorWatchdog :: "string list \<Rightarrow> int \<Rightarrow> int \<Rightarrow> monitor \<Rightarrow> watchdog \<Rightarrow> monitor \<times> watchdog" where
  "MonitorWatchdog argv rc respawn_pid At_test w = (if wm_is_monitoring w then Asleep else Exited, w)"
| "MonitorWatchdog argv rc respawn_pid Asleep w =
     (if rc = -1 then Restarting else At_test, w\<lparr>wm_actions := wm_actions w @ [Probe (wm_watchdog_pid w)]\<rparr>)"
| "MonitorWatchdog argv rc respawn_pid Restarting w = (Exited, RestartWatchdog respawn_pid argv w)"
| "MonitorWatchdog argv rc respawn_pid Exited w = (Exited, w)"

section \<open>Runs\<close>

text \<open>Steps of the \<open>i\<close>-th monitor thread, and calls of the main thread.\<close>

datatype watchdog_op = Turn nat int int | Start int | Stop

fun watchdog_step :: "string list \<Rightarrow> watchdog_op \<Rightarrow> watchdog \<Rightarrow> watchdog" where
  "watchdog_step argv (Turn i rc respawn_pid) w =
     (if i < length (wm_threads w)
      then case MonitorWatchdog argv rc respawn_pid (wm_threads w ! i) w of
             (m, w1) \<Rightarrow> w1\<lparr>wm_threads := (wm_threads w1)[i := m]\<rparr>
      else w)"
| "watchdog_step argv (Start ppid) w = StartMonitoring ppid w"
| "watchdog_step argv Stop w = StopMonitoring w"

text \<open>One monitor thread for the process \<open>ppid\<close> that has probed it \<open>k\<close> times.\<close>

definition probed :: "string list \<Rightarrow> int \<Rightarrow> nat \<Rightarrow> bool \<Rightarrow> monitor \<Rightarrow> watchdog \<Rightarrow> bool" where
  "probed argv ppid k spawned m w \<longleftrightarrow> wm_watchdog_pid w = ppid \<and> wm_threads w = [m] \<and>
     wm_actions w = replicate k (Probe ppid) @ (if spawned then [Spawn (hd argv) argv] else []) \<and>
     (spawned \<longrightarrow> m = Exited \<and> 0 < k) \<and> (m = Restarting \<longrightarrow> 0 < k)"

lemma probed_turn:
  assumes "probed argv ppid k sp m w"
  shows "probed argv ppid (if m = Asleep then Suc k else k) (if m = Restarting then f \<noteq> -1 else sp)
      (fst (MonitorWatchdog argv rc f m w)) (watchdog_step argv (Turn i rc f) w) \<or>
    i \<noteq> 0 \<and> watchdog_step argv (Turn i rc f) w = w"
proof (cases "i = 0")
  case True
  with assms show ?thesis
    by (cases m) (auto simp add: probed_def RestartWatchdog_def replicate_append_same)
next
  case False
  with assms show ?thesis by (simp add: probed_def)
qed

lemma turn_flag: "wm_is_monitoring (watchdog_step argv (Turn i rc f) w) = wm_is_monitoring w"
proof (cases "i < length (wm_threads w)")
  case True
  then show ?thesis by (cases "wm_threads w ! i") (simp_all add: RestartWatchdog_def)
qed simp

text \<open>While the flag is up; and once the thread has left the loop nothing happens any more.\<close>

lemma run_monitoring:
  "Stop \<notin> set ops \<Longrightarrow> probed argv ppid k sp m w \<Longrightarrow> wm_is_monitoring w \<Longrightarrow>
   \<exists>k' sp' m'. probed argv ppid k' sp' m' (fold (watchdog_step argv) ops w) \<and>
     (m = Exited \<longrightarrow> k' = k \<and> sp' = sp \<and> m' = Exited)"
proof (induction ops arbitrary: w k sp m)
  case (Cons op ops)
  show ?case
  proof (cases op)
    case (Turn i rc f)
    let ?w = "watchdog_step argv (Turn i rc f) w"
    let ?m = "fst (MonitorWatchdog argv rc f m w)"
    have up: "wm_is_monitoring ?w" using Cons.prems(3) by (simp only: turn_flag)
    from probed_turn [OF Cons.prems(2), of f rc i] show ?thesis
    proof
      assume "probed argv ppid (if m = Asleep then Suc k else k) (if m = Restarting then f \<noteq> -1 else sp) ?m ?w"
      from Cons.IH [OF _ this up] Cons.prems(1) obtain k' sp' m' where
        *: "probed argv ppid k' sp' m' (fold (watchdog_step argv) ops ?w)"
        "?m = Exited \<longrightarrow> k' = (if m = Asleep then Suc k else k) \<and> sp' = (if m = Restarting then f \<noteq> -1 else sp) \<and>
           m' = Exited" by auto
      then have "m = Exited \<longrightarrow> k' = k \<and> sp' = sp \<and> m' = Exited" by auto
      with *(1) Turn show ?thesis by (auto simp del: watchdog_step.simps)
    next
      assume "i \<noteq> 0 \<and> ?w = w"
      with Cons Turn show ?thesis by (simp del: watchdog_step.simps)
    qed
  next
    case (Start p)
    with Cons show ?thesis by (simp add: StartMonitoring_def)
  qed (use Cons.prems in simp)
qed (simp, blast)

text \<open>Once the flag is down: one more look when the thread was asleep.\<close>

fun pending :: "monitor \<Rightarrow> nat" where
  "pending Asleep = 1"
| "pending m = 0"

lemma run_stopped:
  "\<forall>p. Start p \<notin> set ops \<Longrightarrow> probed argv ppid k sp m w \<Longrightarrow> \<not> wm_is_monitoring w \<Longrightarrow>
   \<exists>k' sp' m'. probed argv ppid k' sp' m' (fold (watchdog_step argv) ops w) \<and> k \<le> k' \<and>
     k' + pending m' \<le> k + pending m \<and> (sp \<longrightarrow> sp' \<and> k' = k)"
proof (induction ops arbitrary: w k sp m)
  case (Cons op ops)
  show ?case
  proof (cases op)
    case (Turn i rc f)
    let ?w = "watchdog_step argv (Turn i rc f) w"
    let ?m = "fst (MonitorWatchdog argv rc f m w)"
    have down: "\<not> wm_is_monitoring ?w" using Cons.prems(3) by (simp only: turn_flag not_False_eq_True)
    from probed_turn [OF Cons.prems(2), of f rc i] show ?thesis
    proof
      assume "probed argv ppid (if m = Asleep then Suc k else k) (if m = Restarting then f \<noteq> -1 else sp) ?m ?w"
      from Cons.IH [OF _ this down] Cons.prems(1) obtain k' sp' m' where
        *: "probed argv ppid k' sp' m' (fold (watchdog_step argv) ops ?w)"
        "(if m = Asleep then Suc k else k) \<le> k'" "k' + pending m' \<le> (if m = Asleep then Suc k else k) + pending ?m"
        "(if m = Restarting then f \<noteq> -1 else sp) \<longrightarrow> sp' \<and> k' = (if m = Asleep then Suc k else k)" by auto
      have "sp \<longrightarrow> m = Exited" using Cons.prems(2) by (simp add: probed_def)
      then have "k \<le> k' \<and> k' + pending m' \<le> k + pending m \<and> (sp \<longrightarrow> sp' \<and> k' = k)"
        using *(2-4) Cons.prems(3) by (cases m) (auto split: if_splits)
      with *(1) Turn show ?thesis by (auto simp del: watchdog_step.simps)
    next
      assume "i \<noteq> 0 \<and> ?w = w"
      with Cons Turn show ?thesis by (simp del: watchdog_step.simps)
    qed
  next
    case (Start p)
    with Cons.prems(1) have False by auto
    then show ?thesis ..
  next
    case Stop
    have "probed argv ppid k sp m (StopMonitoring w)" "\<not> wm_is_monitoring (StopMonitoring w)"
      using Cons.prems(2) by (simp_all add: StopMonitoring_def probed_def)
    from Cons.IH [OF _ this] Cons.prems(1) Stop show ?thesis by simp
  qed
qed auto



end
