(* ===== verification/Lds_Main.thy ===== *)
theory Lds_Main
  imports Command_Line Plugin_Loader Watchdog_Monitor Server_Clients
begin

text \<open>
  The program as a whole (\<^verbatim>\<open>app/LDS.cpp\<close>): \<^verbatim>\<open>main\<close> from the command line to the moment the reactor
  runs, and from the moment it stops to the end. \<open>host\<close> is what the machine answers on the way.
\<close>

section \<open>The machine\<close>

record host =
  ho_fs :: file_system
  ho_hardware :: size_t
  ho_listen :: listen_answers
  ho_tcp_env :: tcp_driver
  ho_nbd :: nbd_answers
  ho_reactor :: reactor_answers
  ho_inotify :: inotify_answers
  ho_handler :: nat
  ho_callback :: nat
  ho_dlopen :: "nat \<Rightarrow> string \<Rightarrow> dl_answer"
  ho_can_open :: "string \<Rightarrow> bool"
  ho_files :: "string \<Rightarrow> string"
  ho_clock :: "nat \<Rightarrow> tm"
  ho_ppid :: int

definition main_thread :: string where
  "main_thread = ''main''"

definition listener_thread :: string where
  "listener_thread = ''listener''"

text \<open>
  The server when the reactor runs, with what the threads do about \<^verbatim>\<open>SIGINT\<close>: a thread starts with
  the mask of the one that starts it, \<open>True\<close> when the signal is blocked.
\<close>

record running =
  rn_server :: server
  rn_plugins :: plugins
  rn_watchdog :: watchdog
  rn_masks :: "bool list"
  rn_stdout :: string

text \<open>
  The process's logger is made on its first use, at the beginning of \<^verbatim>\<open>CreateMinions\<close>. Until the
  dispatcher of the plugin monitor raises its level it takes errors only, so a start without errors
  leaves it as it was made.
\<close>

definition process_logger :: "host \<Rightarrow> logger outcome" where
  "process_logger ho = new_logger (ho_can_open ho) (ho_files ho) (ho_clock ho) ''log.txt''"

definition make_pnp :: "host \<Rightarrow> logger \<Rightarrow> plugins outcome" where
  "make_pnp ho lg =
     (case new_PNP main_thread (ho_inotify ho) (ho_handler ho) (ho_callback ho) ''plugins/'' (blank_plugins lg) of
        (w, Returns u) \<Rightarrow> Returns w
      | (w, Throws e) \<Rightarrow> Throws e
      | (w, _) \<Rightarrow> Undef)"

section \<open>RunServer\<close>

text \<open>
  The locals of \<^verbatim>\<open>RunServer\<close> in their order: the pool's threads are started before the reactor
  blocks the signals, the plugin listener and the monitor thread after. An exception once the
  plugin loader is there destroys it on its way out.
\<close>

definition RunServer_start ::
  "host \<Rightarrow> logger \<Rightarrow> bool \<Rightarrow> string \<Rightarrow> string list \<Rightarrow> driver \<Rightarrow> storage \<Rightarrow> running outcome" where
  "RunServer_start ho lg blocked out argv drv st =
     obind (Reactor (ho_reactor ho)) (\<lambda>rx.
     obind (make_pnp ho lg) (\<lambda>w.
       let wd = StartMonitoring (ho_ppid ho) no_watchdog
       in case RunServer (ho_hardware ho) (ho_reactor ho) drv st of
            Throws e \<Rightarrow>
              (case snd (delete_PNP (ho_dlopen ho) main_thread listener_thread [] w) of
                 Returns u \<Rightarrow> Throws e | Throws x \<Rightarrow> Dies | Blocks \<Rightarrow> Blocks | Dies \<Rightarrow> Dies | Undef \<Rightarrow> Undef)
          | oc \<Rightarrow> obind oc (\<lambda>sv. Returns
              \<lparr>rn_server = sv, rn_plugins = w, rn_watchdog = wd,
               rn_masks = True # replicate (length (tp_threads (sv_pool sv))) blocked @ [True, True],
               rn_stdout = out\<rparr>)))"

text \<open>
  A signal sent to the process goes to a thread that does not block it, if there is one, and its
  default action ends the process; otherwise it stays pending until it is read or waited for.
\<close>

definition take_signal :: "bool list \<Rightarrow> unit outcome" where
  "take_signal masks = (if \<exists>blocked \<in> set masks. \<not> blocked then Dies else Returns ())"

text \<open>
  After the reactor has returned: the monitoring stops, then the locals go in the opposite order,
  the plugin loader first, with the events its listener still gets; then the reactor, and the pool
  stops and joins its workers.
\<close>

definition RunServer_end :: "host \<Rightarrow> watch_read list \<Rightarrow> running \<Rightarrow> running \<times> unit outcome" where
  "RunServer_end ho reads rn =
     (let rn1 = rn\<lparr>rn_watchdog := StopMonitoring (rn_watchdog rn)\<rparr>
      in case delete_PNP (ho_dlopen ho) main_thread listener_thread reads (rn_plugins rn1) of
           (w, Returns u) \<Rightarrow>
             (let sv = rn_server rn1
              in (rn1\<lparr>rn_plugins := w, rn_server := sv\<lparr>sv_reactor := Reactor_destroy (sv_reactor sv),
                       sv_pool := pool_Stop (sv_pool sv)\<rparr>\<rparr>, Returns ()))
         | (w, oc) \<Rightarrow> (rn1\<lparr>rn_plugins := w\<rparr>, oc))"

section \<open>The modes\<close>

definition show_size :: "size_t \<Rightarrow> string" where
  "show_size n = to_string (unat n)"

definition show_int :: "int \<Rightarrow> string" where
  "show_int i = (if i < 0 then ''-'' else '''') @ to_string (nat \<bar>i\<bar>)"

definition RunNBDMode ::
  "host \<Rightarrow> string list \<Rightarrow> string \<Rightarrow> size_t \<Rightarrow> size_t \<Rightarrow> MinionBackend \<Rightarrow> string \<Rightarrow> running outcome" where
  "RunNBDMode ho argv device nbytes num_minions backend backend_path =
     obind (process_logger ho) (\<lambda>lg.
     obind (StartArray (ho_fs ho) backend backend_path num_minions nbytes) (\<lambda>storage.
     obind (NBDDriverComm (ho_nbd ho) device nbytes) (\<lambda>driver.
       RunServer_start ho lg (nd_signal_thread driver)
         (''LDS: NBD mode - serving '' @ show_size nbytes @ '' bytes on '' @ device @ newline)
         argv (NBD_driver driver) (Raid_storage storage))))"

definition RunTCPMode ::
  "host \<Rightarrow> string list \<Rightarrow> int \<Rightarrow> size_t \<Rightarrow> size_t \<Rightarrow> MinionBackend \<Rightarrow> string \<Rightarrow> running outcome" where
  "RunTCPMode ho argv port nbytes num_minions backend backend_path =
     obind (process_logger ho) (\<lambda>lg.
     obind (StartArray (ho_fs ho) backend backend_path num_minions nbytes) (\<lambda>storage.
       case TCPDriverComm (ho_listen ho) (ho_tcp_env ho) port of
         (driver, Returns u) \<Rightarrow>
           RunServer_start ho lg False
             (''LDS: TCP mode - listening on port '' @ show_int port @ '' ('' @ show_size nbytes @
              '' bytes storage)'' @ newline @ ''LDS: Waiting for client connection...'' @ newline)
             argv (TCP_driver driver) (Raid_storage storage)
       | (driver, Throws e) \<Rightarrow> Throws e
       | (driver, _) \<Rightarrow> Undef))"

section \<open>DispatchMode and main\<close>

definition PrintUsage :: "string \<Rightarrow> string" where
  "PrintUsage prog = concat (map (\<lambda>l. l @ newline)
     [''Usage: '' @ prog @ '' <mode> <params> <num-minions> [backend] [backend-path]'', '''',
      ''Modes:'',
      ''  nbd <nbd-device> <size-bytes> [num-minions] [backend] [backend-path]'',
      ''    Example: '' @ prog @ '' nbd /dev/nbd0 134217728 4 memory'',
      ''    Example: '' @ prog @ '' nbd /dev/nbd0 134217728 4 file ./minion_data'', '''',
      ''  tcp <port> <size-bytes> [num-minions] [backend] [backend-path]'',
      ''    Example: '' @ prog @ '' tcp 9999 134217728 4 memory'',
      ''    Example: '' @ prog @ '' tcp 9999 134217728 4 file ./minion_data'', '''',
      ''Minion backends: memory (default), file'',
      ''num-minions: defaults to hardware_concurrency if not specified''])"

text \<open>What the process comes to: a status with what was printed, or the server running.\<close>

datatype launch =
    Exits int string
  | Serves running

text \<open>The optional arguments from the fourth on, as both modes read them.\<close>

definition optional_args ::
  "host \<Rightarrow> string list \<Rightarrow> (size_t \<times> MinionBackend \<times> string) outcome" where
  "optional_args ho argv =
     obind (num_minions_of (ho_hardware ho) (if 5 \<le> length argv then Some (argv ! 4) else None)) (\<lambda>num_minions.
     obind (if 6 \<le> length argv then ParseBackend (argv ! 5) else Returns MEMORY) (\<lambda>backend.
       Returns (num_minions, backend, if 7 \<le> length argv then argv ! 6 else '''')))"

text \<open>\<^verbatim>\<open>argv[0]\<close> is there: the program has a name.\<close>

definition DispatchMode :: "host \<Rightarrow> string list \<Rightarrow> launch outcome" where
  "DispatchMode ho argv =
     (if length argv < 2 then Returns (Exits 1 (PrintUsage (argv ! 0)))
      else if argv ! 1 = ''nbd''
      then if length argv < 4 then Returns (Exits 1 (PrintUsage (argv ! 0)))
           else obind (optional_args ho argv) (\<lambda>(num_minions, backend, backend_path).
                obind (ParseSize (argv ! 3)) (\<lambda>nbytes.
                obind (RunNBDMode ho argv (argv ! 2) nbytes num_minions backend backend_path) (\<lambda>rn.
                  Returns (Serves rn))))
      else if argv ! 1 = ''tcp''
      then if length argv < 4 then Returns (Exits 1 (PrintUsage (argv ! 0)))
           else obind (optional_args ho argv) (\<lambda>(num_minions, backend, backend_path).
                obind (ParsePort (argv ! 2)) (\<lambda>port.
                obind (ParseSize (argv ! 3)) (\<lambda>nbytes.
                obind (RunTCPMode ho argv port nbytes num_minions backend backend_path) (\<lambda>rn.
                  Returns (Serves rn)))))
      else Returns (Exits 1 (PrintUsage (argv ! 0))))"

fun what :: "exn \<Rightarrow> string" where
  "what (Out_of_range s) = s"
| "what (Runtime_error s) = s"
| "what (Invalid_argument s) = s"
| "what (Length_error s) = s"
| "what (Driver_error s) = s"
| "what (Reactor_error s) = s"
| "what (Logger_error s) = s"
| "what (Inotify_exception s) = s"
| "what Stop_exception = ''Stop command''"

definition lds_main :: "host \<Rightarrow> string list \<Rightarrow> launch outcome" where
  "lds_main ho argv =
     ocatch (DispatchMode ho argv) (\<lambda>e. Returns (Exits 1 (''Error: '' @ what e @ newline)))"

text \<open>The rest of \<^verbatim>\<open>main\<close> once the reactor has stopped.\<close>

definition lds_finish :: "host \<Rightarrow> watch_read list \<Rightarrow> running \<Rightarrow> launch outcome" where
  "lds_finish ho reads rn =
     (case RunServer_end ho reads rn of
        (rn1, Returns u) \<Rightarrow> Returns (Exits 0 (rn_stdout rn1 @ ''LDS: shutdown complete'' @ newline))
      | (rn1, Throws e) \<Rightarrow> Returns (Exits 1 (''Error: '' @ what e @ newline))
      | (rn1, Blocks) \<Rightarrow> Blocks
      | (rn1, Dies) \<Rightarrow> Dies
      | (rn1, Undef) \<Rightarrow> Undef)"

end
