(* ===== verification/Lds_Runs.thy ===== *)
theory Lds_Runs
  imports Lds_Main Server_Schedules Nbd_Server
begin

text \<open>
  What a command line leads to: the properties of the program as a whole, from \<^verbatim>\<open>main\<close> to the
  requests it serves, and its end.
\<close>

section \<open>How the modes start\<close>

lemma RunServer_start_result:
  assumes "RunServer_start ho lg blocked out argv drv st = Returns rn"
  shows "RunServer (ho_hardware ho) (ho_reactor ho) drv st = Returns (rn_server rn)"
    and "make_pnp ho lg = Returns (rn_plugins rn)"
    and "rn_watchdog rn = StartMonitoring (ho_ppid ho) no_watchdog"
    and "rn_masks rn = True # replicate (length (tp_threads (sv_pool (rn_server rn)))) blocked @ [True, True]"
    and "rn_stdout rn = out"
proof -
  let ?gone = "\<lambda>w. snd (delete_PNP (ho_dlopen ho) main_thread listener_thread [] w)"
  from assms obtain w where w: "make_pnp ho lg = Returns w"
    and rest: "(let wd = StartMonitoring (ho_ppid ho) no_watchdog
       in case RunServer (ho_hardware ho) (ho_reactor ho) drv st of
            Throws e \<Rightarrow> (case ?gone w of
                 Returns u \<Rightarrow> Throws e | Throws x \<Rightarrow> Dies | Blocks \<Rightarrow> Blocks | Dies \<Rightarrow> Dies | Undef \<Rightarrow> Undef)
          | oc \<Rightarrow> obind oc (\<lambda>sv. Returns
              \<lparr>rn_server = sv, rn_plugins = w, rn_watchdog = wd,
               rn_masks = True # replicate (length (tp_threads (sv_pool sv))) blocked @ [True, True],
               rn_stdout = out\<rparr>)) = Returns rn"
    unfolding RunServer_start_def obind_Returns_iff by blast
  obtain sv where "RunServer (ho_hardware ho) (ho_reactor ho) drv st = Returns sv"
    using rest by (cases "RunServer (ho_hardware ho) (ho_reactor ho) drv st"; cases "?gone w") simp_all
  with rest w show "RunServer (ho_hardware ho) (ho_reactor ho) drv st = Returns (rn_server rn)"
    and "make_pnp ho lg = Returns (rn_plugins rn)"
    and "rn_watchdog rn = StartMonitoring (ho_ppid ho) no_watchdog"
    and "rn_masks rn = True # replicate (length (tp_threads (sv_pool (rn_server rn)))) blocked @ [True, True]"
    and "rn_stdout rn = out"
    by (auto simp add: Let_def)
qed

lemma make_pnp_result:
  assumes "make_pnp ho lg = Returns w"
  shows "new_PNP main_thread (ho_inotify ho) (ho_handler ho) (ho_callback ho) ''plugins/'' (blank_plugins lg)
    = (w, Returns ())"
proof -
  obtain v oc where v: "new_PNP main_thread (ho_inotify ho) (ho_handler ho) (ho_callback ho) ''plugins/'' (blank_plugins lg)
    = (v, oc)" by fastforce
  with assms have "v = w" "oc = Returns ()" by (cases oc; simp add: make_pnp_def)+
  with v show ?thesis by simp
qed

lemma RunTCPMode_result:
  assumes "RunTCPMode ho argv port nbytes num backend path = Returns rn"
  obtains lg r d where "StartArray (ho_fs ho) backend path num nbytes = Returns r"
    and "TCPDriverComm (ho_listen ho) (ho_tcp_env ho) port = (d, Returns ())"
    and "RunServer (ho_hardware ho) (ho_reactor ho) (TCP_driver d) (Raid_storage r) = Returns (rn_server rn)"
    and "make_pnp ho lg = Returns (rn_plugins rn)"
    and "rn_masks rn = True # replicate (length (tp_threads (sv_pool (rn_server rn)))) False @ [True, True]"
proof -
  from assms obtain lg r where r: "StartArray (ho_fs ho) backend path num nbytes = Returns r"
    and rest: "(case TCPDriverComm (ho_listen ho) (ho_tcp_env ho) port of
         (driver, Returns u) \<Rightarrow>
           RunServer_start ho lg False
             (''LDS: TCP mode - listening on port '' @ show_int port @ '' ('' @ show_size nbytes @
              '' bytes storage)'' @ newline @ ''LDS: Waiting for client connection...'' @ newline)
             argv (TCP_driver driver) (Raid_storage r)
       | (driver, Throws e) \<Rightarrow> Throws e
       | (driver, _) \<Rightarrow> Undef) = Returns rn"
    unfolding RunTCPMode_def obind_Returns_iff by blast
  obtain d oc where d: "TCPDriverComm (ho_listen ho) (ho_tcp_env ho) port = (d, oc)" by fastforce
  then obtain out where "oc = Returns ()"
    "RunServer_start ho lg False out argv (TCP_driver d) (Raid_storage r) = Returns rn"
    using rest by (cases oc) auto
  with r d show thesis by (intro that) (auto dest: RunServer_start_result)
qed

lemma RunNBDMode_result:
  assumes "RunNBDMode ho argv device nbytes num backend path = Returns rn"
  obtains lg r d where "StartArray (ho_fs ho) backend path num nbytes = Returns r"
    and "NBDDriverComm (ho_nbd ho) device nbytes = Returns d"
    and "RunServer (ho_hardware ho) (ho_reactor ho) (NBD_driver d) (Raid_storage r) = Returns (rn_server rn)"
    and "make_pnp ho lg = Returns (rn_plugins rn)"
    and "rn_masks rn = True # replicate (length (tp_threads (sv_pool (rn_server rn)))) (nd_signal_thread d) @ [True, True]"
  using assms unfolding RunNBDMode_def obind_Returns_iff
  by (auto dest: RunServer_start_result)

lemma main_serves:
  assumes "lds_main ho argv = Returns (Serves rn)"
  obtains num backend path nbytes where "optional_args ho argv = Returns (num, backend, path)"
    and "ParseSize (argv ! 3) = Returns nbytes"
    and "argv ! 1 = ''tcp'' \<and> (\<exists>port. ParsePort (argv ! 2) = Returns port \<and>
           RunTCPMode ho argv port nbytes num backend path = Returns rn) \<or>
         argv ! 1 = ''nbd'' \<and> RunNBDMode ho argv (argv ! 2) nbytes num backend path = Returns rn"
proof -
  have "DispatchMode ho argv = Returns (Serves rn)"
    using assms by (cases "DispatchMode ho argv") (simp_all add: lds_main_def)
  then show thesis
    by (auto simp add: DispatchMode_def obind_Returns_iff split: if_splits intro: that)
qed

section \<open>From the command line to the disk\<close>

text \<open>Minions in memory make a healthy array of zeros.\<close>

lemma optional_array:
  assumes "optional_args ho argv = Returns (num, MEMORY, path)"
    and "StartArray (ho_fs ho) MEMORY path num nbytes = Returns r"
    and "nbytes \<noteq> 0" and "unat num * unat nbytes < 2 ^ 64"
  shows "raid_ok r" and "disk_of r = \<lparr>dk_bytes = replicate (unat num div 2 * unat nbytes) 0, dk_sizes = []\<rparr>"
    and "unat nbytes \<le> unat num div 2 * unat nbytes" and "raid_mirrored r"
    and "raid_capacity r = unat num div 2 * unat nbytes"
proof -
  have even: "even (unat num)"
  proof -
    obtain v where "num_minions_of (ho_hardware ho) v = Returns num"
      using assms(1) unfolding optional_args_def obind_Returns_iff by auto
    then show ?thesis by (rule num_minions_even)
  qed
  have num: "num \<noteq> 0" using assms(2) by (auto simp add: StartArray_def CreateMinions_def)
  then have "0 < unat num" by (simp add: unat_gt_0)
  with even have "1 \<le> unat num div 2" by presburger
  then show "unat nbytes \<le> unat num div 2 * unat nbytes" by simp
  obtain r1 where "StartArray (ho_fs ho) MEMORY path num nbytes = Returns r1" "raid_ok r1" "raid_mirrored r1"
    "raid_capacity r1 = unat num div 2 * unat nbytes" "raid_flat r1 = replicate (unat num div 2 * unat nbytes) 0" "rs_offset_sizes r1 = []"
    using StartArray_memory [OF _ _ assms(3,4), of "ho_fs ho" path] even num by metis
  with assms(2) show "raid_ok r" "disk_of r = \<lparr>dk_bytes = replicate (unat num div 2 * unat nbytes) 0, dk_sizes = []\<rparr>"
    "raid_mirrored r" "raid_capacity r = unat num div 2 * unat nbytes"
    by (simp_all add: disk_of_def)
qed



section \<open>Progress\<close>


section \<open>Interrupts\<close>

lemma pool_has_threads:
  assumes "RunServer hardware ra drv st = Returns sv"
  shows "0 < length (tp_threads (sv_pool sv))"
  using RunServer_result(3) [OF assms]
  by (simp add: ThreadPool_def InitThreads_def SetDefNumThreads_def unat_gt_0 word_neq_0_conv)


section \<open>The end\<close>

lemma main_loads_plugins:
  "lds_main ho argv = Returns (Serves rn) \<Longrightarrow> \<exists>lg. make_pnp ho lg = Returns (rn_plugins rn)"
  by (erule main_serves) (auto elim: RunTCPMode_result RunNBDMode_result)

text \<open>C33: The program never ends by itself: once the reactor has stopped, the destruction of the plugin
  loader waits for its listener, which no event ends, so \<^verbatim>\<open>main\<close> neither returns nor prints that
  the shutdown is complete. And it never comes to serve when the plugin directory cannot be
  watched: it ends with status 1.\<close>

theorem main_never_returns:
  assumes "lds_main ho argv = Returns (Serves rn)" and "\<forall>r \<in> set reads. read_ok r"
  shows "lds_finish ho reads rn \<in> {Blocks, Dies, Undef} \<and> lds_finish ho [] rn = Blocks \<and>
    an_wd (ho_inotify ho) \<noteq> -1"
proof -
  obtain lg where lg: "new_PNP main_thread (ho_inotify ho) (ho_handler ho) (ho_callback ho) ''plugins/'' (blank_plugins lg)
    = (rn_plugins rn, Returns ())"
    using main_loads_plugins [OF assms(1)] make_pnp_result by blast
  note ends = delete_PNP_outcome [OF lg, where dl = "ho_dlopen ho" and t = main_thread and u = listener_thread]
  have finish: "lds_finish ho rs rn = (case oc of Blocks \<Rightarrow> Blocks | Dies \<Rightarrow> Dies | _ \<Rightarrow> Undef)"
    if oc: "snd (delete_PNP (ho_dlopen ho) main_thread listener_thread rs (rn_plugins rn)) = oc"
      "oc \<in> {Blocks, Dies, Undef}" for rs and oc :: "unit outcome"
  proof -
    obtain w where "delete_PNP (ho_dlopen ho) main_thread listener_thread rs (rn_plugins rn) = (w, oc)"
      using oc(1) by (metis prod.collapse)
    with oc(2) show ?thesis by (auto simp add: lds_finish_def RunServer_end_def Let_def)
  qed
  have "lds_finish ho reads rn \<in> {Blocks, Dies, Undef}"
    using finish [OF refl ends(1) [OF assms(2)]]
    by (auto split: outcome.splits)
  moreover have "lds_finish ho [] rn = Blocks" using finish [OF ends(2)] by simp
  moreover have "an_wd (ho_inotify ho) \<noteq> -1" using new_PNP_result(8) [OF lg] .
  ultimately show ?thesis by blast
qed

section \<open>A machine\<close>

text \<open>The kernel writes two bytes to the block device and reads them back.\<close>

definition demo_block_put :: DriverData where
  "demo_block_put = (new_DriverData WRITE 11 1 2 SUCCESS)\<lparr>m_source_fd := 6, m_buffer := [10, 20]\<rparr>"

definition demo_block_get :: DriverData where
  "demo_block_get = (new_DriverData READ 12 1 2 SUCCESS)\<lparr>m_source_fd := 6\<rparr>"

definition demo_nbd_answers :: nbd_answers where
  "demo_nbd_answers = \<lparr>na_socketpair_ok = True, na_server = 6, na_client = 7, na_fd = 8, na_set_size_ok = True,
     na_clear_sock_ok = True, na_set_sock_ok = True, na_errno = '''',
     na_socket = demo_nbd_socket [encode_nbd_request demo_block_put, encode_nbd_request demo_block_get]\<rparr>"

definition demo_host :: host where
  "demo_host = \<lparr>ho_fs = demo_fs, ho_hardware = 2, ho_listen = demo_listen, ho_tcp_env = demo_env,
     ho_nbd = demo_nbd_answers, ho_reactor = demo_answers, ho_inotify = demo_inotify, ho_handler = 70,
     ho_callback = 80, ho_dlopen = (\<lambda>k f. Handle k), ho_can_open = (\<lambda>f. True), ho_files = (\<lambda>f. ''''),
     ho_clock = (\<lambda>i. \<lparr>tm_year = 2024, tm_mon = 1, tm_mday = 2, tm_hour = 3, tm_min = 4, tm_sec = 5\<rparr>),
     ho_ppid = 41\<rparr>"

definition demo_tcp_args :: "string list" where
  "demo_tcp_args = [''lds_app'', ''tcp'', ''9999'', ''4'', ''3'', ''memory'']"

definition demo_nbd_args :: "string list" where
  "demo_nbd_args = [''lds_app'', ''nbd'', ''/dev/nbd0'', ''4'', ''4'']"

lemma demo_array: "StartArray demo_fs MEMORY path 4 4 = Returns demo_raid"
proof -
  let ?m = "Memory_minion (StorageMinionMemory 4)"
  have "CreateMinions demo_fs MEMORY path 4 4 = Returns (map (\<lambda>i. ?m) [0..<unat (4 :: size_t)])"
    by (rule CreateMinions_map) (simp_all add: CreateMinion_def)
  also have "map (\<lambda>i. ?m) [0..<unat (4 :: size_t)] = replicate 4 ?m" by (simp add: map_replicate_const)
  finally have create: "CreateMinions demo_fs MEMORY path 4 4 = Returns (replicate 4 ?m)" .
  have "RAIDStorage (replicate 4 ?m) (Memory_store []) = Returns demo_raid"
    by (subst RAIDStorage_made(1) [where num = 4 and n = 4])
      (simp_all add: demo_raid_def MemoryMeta_Load_def)
  with create show ?thesis by (simp add: StartArray_def CreateMetadataStore_def)
qed

lemma demo_numbers:
  "ParseSize ''4'' = Returns 4" "ParseSize ''3'' = Returns 3" "ParsePort ''9999'' = Returns 9999"
  by (simp_all add: ParseSize_def ParsePort_def stoull_def stoi_def scan_number_def digits_value_def digit_value_def
      is_space_def is_digit_def Let_def)

lemma demo_options:
  "optional_args demo_host demo_tcp_args = Returns (4, MEMORY, '''')"
  "optional_args demo_host demo_nbd_args = Returns (4, MEMORY, '''')"
  by (simp_all add: optional_args_def demo_tcp_args_def demo_nbd_args_def num_minions_of_def demo_numbers
      ParseBackend_def Let_def)

lemma demo_pnp_made: "\<exists>w. make_pnp demo_host lg = Returns w"
  by (simp add: make_pnp_def demo_host_def new_PNP_def new_DirMonitor_def
      new_InotifyManager_def addWatch_def new_InotifyWatch_def demo_inotify_def Let_def)

lemma demo_RunServer_start:
  assumes "RunServer 2 demo_answers drv st = Returns sv"
  shows "\<exists>rn. RunServer_start demo_host lg blocked out argv drv st = Returns rn \<and> rn_server rn = sv"
proof -
  obtain w where w: "make_pnp demo_host lg = Returns w" using demo_pnp_made by blast
  have "\<exists>rx. Reactor demo_answers = Returns rx"
    by (simp add: Reactor_def Reactor_SetupSignals_def demo_answers_def)
  moreover have "ho_reactor demo_host = demo_answers" "ho_hardware demo_host = 2" by (simp_all add: demo_host_def)
  ultimately show ?thesis using assms w by (auto simp add: RunServer_start_def Let_def)
qed

lemma demo_process_logger: "\<exists>lg. process_logger demo_host = Returns lg"
  by (simp add: process_logger_def new_logger_def demo_host_def)

lemma demo_tcp_main: "\<exists>rn. lds_main demo_host demo_tcp_args = Returns (Serves rn) \<and> rn_server rn = demo_server"
proof -
  have ho: "ho_fs demo_host = demo_fs" "ho_listen demo_host = demo_listen" "ho_tcp_env demo_host = demo_env"
    by (simp_all add: demo_host_def)
  have "\<exists>rn. RunTCPMode demo_host demo_tcp_args 9999 4 4 MEMORY '''' = Returns rn \<and> rn_server rn = demo_server"
    using demo_RunServer_start [OF demo_started] demo_process_logger
    by (auto simp add: RunTCPMode_def ho demo_array demo_constructed(1))
  then show ?thesis
    using demo_options(1)
    by (auto simp add: lds_main_def DispatchMode_def demo_tcp_args_def demo_numbers)
qed



theorem main_never_returns_witness:
  "\<exists>rn. lds_main demo_host demo_tcp_args = Returns (Serves rn) \<and>
     lds_finish demo_host copied_file rn \<in> {Blocks, Dies, Undef} \<and> lds_finish demo_host [] rn = Blocks"
proof -
  obtain rn where rn: "lds_main demo_host demo_tcp_args = Returns (Serves rn)" using demo_tcp_main by blast
  have "\<forall>r \<in> set copied_file. read_ok r" by (simp add: copied_file_def read_ok_def)
  from main_never_returns [OF rn this] rn show ?thesis by blast
qed

lemma demo_nbd_main:
  "\<exists>rn. lds_main demo_host demo_nbd_args = Returns (Serves rn) \<and>
     RunNBDMode demo_host demo_nbd_args ''/dev/nbd0'' 4 4 MEMORY '''' = Returns rn \<and>
     sv_storage (rn_server rn) = Raid_storage demo_raid"
proof -
  have ho: "ho_fs demo_host = demo_fs" "ho_nbd demo_host = demo_nbd_answers" by (simp_all add: demo_host_def)
  obtain d where d: "NBDDriverComm demo_nbd_answers ''/dev/nbd0'' 4 = Returns d" "nd_serverFd d = 6"
    by (simp add: NBDDriverComm_def demo_nbd_answers_def SetUpSignals_def)
  have "\<exists>sv. RunServer 2 demo_answers (NBD_driver d) (Raid_storage demo_raid) = Returns sv \<and>
    sv_storage sv = Raid_storage demo_raid"
    using d(2)
    by (simp add: RunServer_def Reactor_def Reactor_SetupSignals_def demo_answers_def mediator_add_def Reactor_Add_def
        NBD_GetFD_def)
  then obtain sv where sv: "RunServer 2 demo_answers (NBD_driver d) (Raid_storage demo_raid) = Returns sv"
    "sv_storage sv = Raid_storage demo_raid" by blast
  have "\<exists>rn. RunNBDMode demo_host demo_nbd_args ''/dev/nbd0'' 4 4 MEMORY '''' = Returns rn \<and> rn_server rn = sv"
    using demo_RunServer_start [OF sv(1)] demo_process_logger by (auto simp add: RunNBDMode_def ho demo_array d(1))
  then show ?thesis
    using demo_options(2) sv(2)
    by (auto simp add: lds_main_def DispatchMode_def demo_nbd_args_def demo_numbers)
qed

text \<open>Two requests of the kernel with two idle workers.\<close>

lemma nbd_two_requests:
  assumes "sv_driver sv = NBD_driver d" and "fd \<in> map_keys (rx_watched (sv_reactor sv))"
    and "fd \<noteq> rx_signal_fd (sv_reactor sv)" and "nbd_wire_request fd q1" and "nbd_wire_request fd q2"
    and "sock_wf (nd_socket d)" and "stream (nd_socket d) = encode_nbd_request q1 @ encode_nbd_request q2 @ rest"
    and "tp_command (sv_pool sv) = []" and "tp_threads (sv_pool sv) = [Idle, Idle]"
    and "serves_as nbd_speaks sv pr" and "range_ok q1" and "range_ok q2"
  shows "\<exists>sv4 sv6. server_run sv [Received q1, Received q2, Internal, Internal] sv4 \<and>
    tp_threads (sv_pool sv4) = [Busy (FunctionCommand q1), Busy (FunctionCommand q2)] \<and>
    server_run sv ([Received q1, Received q2, Internal, Internal] @ [Served q1, Served q2]) sv6"
proof -
  obtain s1 where one: "server_step sv (Received q1) (sv\<lparr>sv_driver := NBD_driver (d\<lparr>nd_socket := s1\<rparr>),
      sv_pool := (sv_pool sv)\<lparr>tp_command := tp_command (sv_pool sv) @ [FunctionCommand q1]\<rparr>\<rparr>)"
    "sock_wf s1" "stream s1 = encode_nbd_request q2 @ rest"
    by (rule nbd_step_receive [OF assms(1-4,6,7)])
  let ?sv1 = "sv\<lparr>sv_driver := NBD_driver (d\<lparr>nd_socket := s1\<rparr>),
      sv_pool := (sv_pool sv)\<lparr>tp_command := [FunctionCommand q1]\<rparr>\<rparr>"
  have "sv_driver ?sv1 = NBD_driver (d\<lparr>nd_socket := s1\<rparr>)" "fd \<in> map_keys (rx_watched (sv_reactor ?sv1))"
    "fd \<noteq> rx_signal_fd (sv_reactor ?sv1)" using assms(2,3) by simp_all
  then obtain s2 where two: "server_step ?sv1 (Received q2) (?sv1\<lparr>sv_driver := NBD_driver (d\<lparr>nd_socket := s1, nd_socket := s2\<rparr>),
      sv_pool := (sv_pool ?sv1)\<lparr>tp_command := tp_command (sv_pool ?sv1) @ [FunctionCommand q2]\<rparr>\<rparr>)"
    by (rule nbd_step_receive [OF _ _ _ assms(5), where rest = rest]) (use one(2,3) in simp_all)
  let ?sv2 = "?sv1\<lparr>sv_driver := NBD_driver (d\<lparr>nd_socket := s1, nd_socket := s2\<rparr>),
      sv_pool := (sv_pool ?sv1)\<lparr>tp_command := tp_command (sv_pool ?sv1) @ [FunctionCommand q2]\<rparr>\<rparr>"
  let ?sv3 = "?sv2\<lparr>sv_pool := (sv_pool ?sv2)\<lparr>tp_command := map FunctionCommand [q2],
      tp_threads := (tp_threads (sv_pool ?sv2))[0 := Busy (FunctionCommand q1)]\<rparr>\<rparr>"
  let ?sv4 = "?sv3\<lparr>sv_pool := (sv_pool ?sv3)\<lparr>tp_command := map FunctionCommand [],
      tp_threads := (tp_threads (sv_pool ?sv3))[1 := Busy (FunctionCommand q2)]\<rparr>\<rparr>"
  have three: "server_step ?sv2 Internal ?sv3" by (rule step_take) (simp_all add: assms(9))
  have four: "server_step ?sv3 Internal ?sv4" by (rule step_take) (simp_all add: assms(9))
  have one': "server_step sv (Received q1) ?sv1" using one(1) by (simp add: assms(8))
  have run4: "server_run sv [Received q1, Received q2, Internal, Internal] ?sv4"
    using run_snoc [OF run_snoc [OF run_snoc [OF run_snoc [OF run_nil one'] two] three] four] by simp
  have busy: "tp_threads (sv_pool ?sv4) = [Busy (FunctionCommand q1), Busy (FunctionCommand q2)]"
    by (simp add: assms(9))
  have "serves_as nbd_speaks ?sv4 (foldl (contract_step nbd_meets nbd_tells) pr [Received q1, Received q2, Internal, Internal])"
    by (rule nbddc.run_serves [OF run4 assms(10)]) simp
  then obtain sv5 where five: "server_step ?sv4 (Served q1) sv5"
    "serves_as nbd_speaks sv5 (contract_step nbd_meets nbd_tells
       (foldl (contract_step nbd_meets nbd_tells) pr [Received q1, Received q2, Internal, Internal]) (Served q1))"
    "tp_threads (sv_pool sv5) = [Idle, Busy (FunctionCommand q2)]"
    by (rule nbddc.busy_worker_serves [OF _ assms(11), where k = 0]) (simp_all add: assms(9))
  obtain sv6 where six: "server_step sv5 (Served q2) sv6"
    by (rule nbddc.busy_worker_serves [OF five(2) assms(12), where k = 1]) (simp_all add: five(3))
  have "server_run sv ([Received q1, Received q2, Internal, Internal] @ [Served q1, Served q2]) sv6"
    using run_snoc [OF run_snoc [OF run4 five(1)] six] by simp
  with run4 busy show ?thesis by blast
qed

lemma demo_block_requests:
  "nbd_wire_request 6 demo_block_put" "nbd_wire_request 6 demo_block_get"
  "range_ok demo_block_put" "range_ok demo_block_get"
  by (simp_all add: nbd_wire_request_def range_ok_def demo_block_put_def demo_block_get_def new_DriverData_def)

lemma demo_block_socket:
  "accepting (na_socket (ho_nbd demo_host))" "sock_wf (na_socket (ho_nbd demo_host))"
  "sk_out (na_socket (ho_nbd demo_host)) = []"
  "stream (na_socket (ho_nbd demo_host)) = encode_nbd_request demo_block_put @ encode_nbd_request demo_block_get"
  "na_server (ho_nbd demo_host) = 6"
proof -
  have "length (encode_nbd_request q) \<noteq> 0" for q by (simp add: encode_nbd_request_def)
  then have ne: "[] \<noteq> encode_nbd_request q" for q by (metis list.size(3))
  then show "accepting (na_socket (ho_nbd demo_host))" "sock_wf (na_socket (ho_nbd demo_host))"
    "sk_out (na_socket (ho_nbd demo_host)) = []"
    "stream (na_socket (ho_nbd demo_host)) = encode_nbd_request demo_block_put @ encode_nbd_request demo_block_get"
    "na_server (ho_nbd demo_host) = 6"
    by (auto simp add: demo_host_def demo_nbd_answers_def accepting_def sock_wf_def stream_def)
qed

lemma demo_block_run:
  "\<exists>rn sv4 sv6. lds_main demo_host demo_nbd_args = Returns (Serves rn) \<and>
     server_run (rn_server rn) [Received demo_block_put, Received demo_block_get, Internal, Internal] sv4 \<and>
     tp_threads (sv_pool sv4) = [Busy (FunctionCommand demo_block_put), Busy (FunctionCommand demo_block_get)] \<and>
     server_run (rn_server rn) ([Received demo_block_put, Received demo_block_get, Internal, Internal] @
       [Served demo_block_put, Served demo_block_get]) sv6"
proof -
  obtain rn where rn: "lds_main demo_host demo_nbd_args = Returns (Serves rn)"
    "RunNBDMode demo_host demo_nbd_args ''/dev/nbd0'' 4 4 MEMORY '''' = Returns rn"
    using demo_nbd_main by blast
  obtain d where d: "NBDDriverComm (ho_nbd demo_host) ''/dev/nbd0'' 4 = Returns d"
    and sv: "RunServer (ho_hardware demo_host) (ho_reactor demo_host) (NBD_driver d) (Raid_storage demo_raid) = Returns (rn_server rn)"
    by (rule RunNBDMode_result [OF rn(2)]) (use demo_array in \<open>auto simp add: demo_host_def\<close>)
  note sock = NBDDriverComm_socket [OF d] demo_block_socket
  note srv = RunServer_result [OF sv]
  have host: "ho_hardware demo_host = 2" "ra_signal_fd (ho_reactor demo_host) = 5"
    by (simp_all add: demo_host_def demo_answers_def)
  have "\<exists>sv4 sv6. server_run (rn_server rn) [Received demo_block_put, Received demo_block_get, Internal, Internal] sv4 \<and>
    tp_threads (sv_pool sv4) = [Busy (FunctionCommand demo_block_put), Busy (FunctionCommand demo_block_get)] \<and>
    server_run (rn_server rn) ([Received demo_block_put, Received demo_block_get, Internal, Internal] @
      [Served demo_block_put, Served demo_block_get]) sv6"
  proof (rule nbd_two_requests [OF srv(1) _ _ demo_block_requests(1,2)])
    show "tp_threads (sv_pool (rn_server rn)) = [Idle, Idle]" "tp_command (sv_pool (rn_server rn)) = []"
      by (simp_all add: srv(3) host ThreadPool_def InitThreads_def SetDefNumThreads_def replicate_small)
    show "serves_as nbd_speaks (rn_server rn) (disk_of demo_raid, sk_out (na_socket (ho_nbd demo_host)))"
      by (rule started_nbd_serves [OF d demo_block_socket(1) sv demo_raid_ok])
    show "stream (nd_socket d) = encode_nbd_request demo_block_put @ encode_nbd_request demo_block_get @ []"
      by (simp add: sock)
  qed (use sock srv(4,5) host demo_block_requests(3,4) in \<open>simp_all add: NBD_GetFD_def\<close>)
  with rn(1) show ?thesis by blast
qed



section \<open>The device of NBD\<close>

text \<open>What the factory makes has minions of the size asked for, and so that stripe.\<close>

lemma CreateMinion_size: "CreateMinion fs backend path n i = Returns m \<Longrightarrow> minion_Size m = n"
  by (cases backend) (auto simp add: CreateMinion_def StorageMinionFile_def StorageMinionMemory_def obind_Returns_iff
      Let_def split: if_splits)

lemma minions_loop_size:
  "minions_loop fs backend path n is = Returns ms \<Longrightarrow> length ms = length is \<and> (\<forall>m \<in> set ms. minion_Size m = n)"
  by (induction "is" arbitrary: ms) (auto simp add: obind_Returns_iff dest: CreateMinion_size)

lemma StartArray_shape:
  assumes "StartArray fs backend path num n = Returns r"
  shows "rs_stripe_size r = n" and "rs_num_primary r = num div 2" and "rs_num_primary r \<noteq> 0"
proof -
  from assms obtain ms store where ms: "CreateMinions fs backend path num n = Returns ms"
    "RAIDStorage ms store = Returns r"
    unfolding StartArray_def obind_Returns_iff by blast
  then have "minions_loop fs backend path n [0..<unat num] = Returns ms"
    by (auto simp add: CreateMinions_def split: if_splits)
  then have "length ms = unat num" "\<forall>m \<in> set ms. minion_Size m = n"
    by (auto dest: minions_loop_size)
  moreover from this(1) have "vsize ms = num" by (simp add: vsize_def)
  moreover have "ms \<noteq> []" using ms(2) by (auto simp add: RAIDStorage_def vsize_def Let_def)
  ultimately show "rs_stripe_size r = n" and "rs_num_primary r = num div 2" and "rs_num_primary r \<noteq> 0"
    using ms(2) by (auto simp add: RAIDStorage_def Let_def split: if_splits)
qed

lemma minion_write_others:
  assumes "raid_minion_write r i l c = (r', oc)" and "j \<noteq> unat i"
  shows "rs_minions r' ! j = rs_minions r ! j" and "rs_stripe_size r' = rs_stripe_size r"
    and "rs_num_primary r' = rs_num_primary r"
  using assms by (auto simp add: raid_minion_write_def split: outcome.splits prod.splits)

lemma first_stripe_chunk:
  assumes "unat off < unat (rs_stripe_size r)" and "rs_num_primary r \<noteq> 0"
    and "raid_write_chunk r off c = (r', oc)" and "j \<noteq> 0" and "j \<noteq> raid_np r"
  shows "rs_minions r' ! j = rs_minions r ! j \<and> rs_stripe_size r' = rs_stripe_size r \<and>
    rs_num_primary r' = rs_num_primary r"
proof -
  have nz: "rs_stripe_size r \<noteq> 0" using assms(1) by auto
  have "off div rs_stripe_size r = 0" using assms(1) by (simp add: word_unat_eq_iff unat_div)
  with nz assms(2) have p: "PrimaryIndex r off = Returns 0" by (simp add: PrimaryIndex_def)
  obtain l where l: "LocalOffset r off = Returns l" using nz assms(2) by (simp add: LocalOffset_def Let_def)
  obtain r1 oc1 where first: "raid_minion_write r 0 l c = (r1, oc1)" by fastforce
  have "j \<noteq> unat (0 :: size_t)" using assms(4) by simp
  note one = minion_write_others [OF first this]
  show ?thesis
  proof (cases "oc1 = Returns ()")
    case True
    then have "raid_minion_write r1 (MirrorIndex r 0) l c = (r', oc)"
      using assms(3) p l first one by (simp add: raid_write_chunk_def MirrorIndex_def)
    from minion_write_others [OF this, of j] assms(5) one show ?thesis by (simp add: MirrorIndex_def)
  next
    case False
    then have "r' = r1" using assms(3) p l first by (cases oc1) (simp_all add: raid_write_chunk_def)
    with one show ?thesis by simp
  qed
qed

text \<open>The storage after a write, when it returns.\<close>

definition raid_after :: "DriverData \<Rightarrow> raid \<Rightarrow> raid" where
  "raid_after q r = (case RAID_Write r q of Returns (r', a) \<Rightarrow> r' | _ \<Rightarrow> r)"

lemma first_stripe_write:
  assumes "unat (m_offset q) + length (m_buffer q) \<le> unat (rs_stripe_size r)" and "rs_num_primary r \<noteq> 0"
    and "j \<noteq> 0" and "j \<noteq> raid_np r"
  shows "rs_minions (raid_after q r) ! j = rs_minions r ! j \<and> rs_stripe_size (raid_after q r) = rs_stripe_size r \<and>
    rs_num_primary (raid_after q r) = rs_num_primary r"
proof -
  let ?n = "vsize (m_buffer q)"
  have "length (m_buffer q) < 2 ^ 64" using assms(1) unat_lt_size [of "rs_stripe_size r"] by linarith
  then have n: "unat ?n = length (m_buffer q)" by (rule unat_vsize)
  obtain r1 oc where loop: "raid_write_loop r (m_offset q) ?n 0 (m_buffer q) = (r1, oc)" by fastforce
  have "rs_minions r1 ! j = rs_minions r ! j \<and> rs_stripe_size r1 = rs_stripe_size r \<and>
    rs_num_primary r1 = rs_num_primary r"
  proof (cases "?n = 0")
    case True
    with loop show ?thesis by (simp add: raid_write_loop.simps)
  next
    case False
    then have "0 < unat ?n" by (simp add: unat_gt_0)
    then have off: "unat (m_offset q) < unat (rs_stripe_size r)" using assms(1) n by linarith
    then have nz: "rs_stripe_size r \<noteq> 0" by auto
    have "m_offset q mod rs_stripe_size r = m_offset q"
      using off by (simp add: word_unat_eq_iff unat_mod)
    moreover have "?n \<le> rs_stripe_size r - m_offset q"
      using assms(1) n off by (simp add: word_le_nat_alt unat_sub word_less_nat_alt)
    ultimately have len: "chunk_len r (m_offset q) ?n = ?n" by (simp add: chunk_len_def min_def)
    obtain r2 oc2 where ch: "raid_write_chunk r (m_offset q) (subvec (m_buffer q) 0 (unat ?n)) = (r2, oc2)"
      by fastforce
    have "r1 = r2"
      using loop False nz len ch
      by (cases oc2) (simp_all add: raid_write_loop.simps [of r "m_offset q"] raid_write_loop.simps [of _ _ 0] Let_def)
    with first_stripe_chunk [OF off assms(2) ch assms(3,4)] show ?thesis by simp
  qed
  then show ?thesis
    using loop by (cases oc) (simp_all add: raid_after_def RAID_Write_def Let_def)
qed

text \<open>The block device NBD mode offers has the size on the command line, which is the size of one
  minion and so of the first stripe: whatever is written within the device, only the first minion
  and its mirror are ever written, however many minions were asked for.\<close>

theorem nbd_device_uses_one_pair:
  assumes "lds_main ho argv = Returns (Serves rn)" and "argv ! 1 = ''nbd''"
    and "ParseSize (argv ! 3) = Returns nbytes" and "sv_storage (rn_server rn) = Raid_storage r"
    and "\<forall>q \<in> set qs. unat (m_offset q) + length (m_buffer q) \<le> unat nbytes"
    and "j \<noteq> 0" and "j \<noteq> raid_np r"
  shows "rs_minions (fold raid_after qs r) ! j = rs_minions r ! j"
proof -
  obtain num backend path where run: "RunNBDMode ho argv (argv ! 2) nbytes num backend path = Returns rn"
    using main_serves [OF assms(1)] assms(2,3) by fastforce
  then obtain r0 d where "StartArray (ho_fs ho) backend path num nbytes = Returns r0"
    "RunServer (ho_hardware ho) (ho_reactor ho) (NBD_driver d) (Raid_storage r0) = Returns (rn_server rn)"
    by (rule RunNBDMode_result)
  with assms(4) RunServer_result(2) have r: "StartArray (ho_fs ho) backend path num nbytes = Returns r" by fastforce
  have "rs_minions (fold raid_after qs v) ! j = rs_minions v ! j"
    if "rs_stripe_size v = nbytes" "rs_num_primary v = rs_num_primary r" for v
    using assms(5) that
  proof (induction qs arbitrary: v)
    case (Cons q qs)
    have "rs_minions (raid_after q v) ! j = rs_minions v ! j \<and> rs_stripe_size (raid_after q v) = rs_stripe_size v \<and>
        rs_num_primary (raid_after q v) = rs_num_primary v"
      by (rule first_stripe_write) (use Cons.prems assms(6,7) StartArray_shape(3) [OF r] in auto)
    with Cons show ?case by simp
  qed simp
  then show ?thesis using StartArray_shape(1) [OF r] by simp
qed

theorem nbd_device_uses_one_pair_witness:
  "\<exists>rn. lds_main demo_host demo_nbd_args = Returns (Serves rn) \<and>
     rs_minions (fold raid_after [demo_write 1 [10, 20], demo_write 0 [1, 2, 3, 4]] demo_raid) ! 1 = rs_minions demo_raid ! 1"
proof -
  obtain rn where rn: "lds_main demo_host demo_nbd_args = Returns (Serves rn)"
    "sv_storage (rn_server rn) = Raid_storage demo_raid"
    using demo_nbd_main by blast
  have "demo_nbd_args ! 1 = ''nbd''" "ParseSize (demo_nbd_args ! 3) = Returns 4"
    by (simp_all add: demo_nbd_args_def demo_numbers)
  from nbd_device_uses_one_pair [OF rn(1) this rn(2), of "[demo_write 1 [10, 20], demo_write 0 [1, 2, 3, 4]]" 1] rn(1)
  show ?thesis by (auto simp add: demo_raid_def)
qed

end
