(* ===== verification/Nbd_Linear.thy ===== *)
theory Nbd_Linear
  imports Server_Liveness Lds_Runs
begin

text \<open>
  The block device with the handlers taken apart. The kernel puts its requests on the socket pair;
  the reactor receives them in order, the workers serve them interleaved at every operation on the
  array. When no two of the requests touch the same bytes with a write among them, nothing more is
  asked of the schedule: every run ends, and where it ends every request has its answer.
\<close>

section \<open>What is on the socket\<close>

lemma pending_cong:
  assumes "nbd_pending fd qs sv evs" and "sv_driver sv' = sv_driver sv" and "sv_reactor sv' = sv_reactor sv"
    and "received_in evs' = received_in evs"
  shows "nbd_pending fd qs sv' evs'"
  using assms by (simp add: nbd_pending_def)

lemma finishes_pending: "nbd_pending fd qs (finishes sv k q) evs \<longleftrightarrow> nbd_pending fd qs sv evs"
  by (simp add: nbd_pending_def)

lemma threads_step_pending:
  assumes "threads_step x ev y" and "nbd_pending fd qs (fst x) (plain_events evs)"
    and "\<forall>q \<in> set qs. nbd_wire_request fd q"
  shows "nbd_pending fd qs (fst y) (plain_events (evs @ [ev]))"
  using assms(1)
proof cases
  case (reacts fd' sv ans sv' js)
  then have "fd' = fd" using assms(2) by (auto simp add: nbd_pending_def)
  with nbd_pending_notified [of fd qs sv _ ans sv'] assms(2,3) reacts show ?thesis by simp
next
  case (pools sv p js)
  then show ?thesis using pending_cong [OF assms(2)] by simp
next
  case (enters sv k q js j)
  then show ?thesis using pending_cong [OF assms(2)] by simp
next
  case (works js k q j sv r r' j')
  then show ?thesis using pending_cong [OF assms(2)] by simp
next
  case (completes js k q j sv r r' a)
  then show ?thesis using pending_cong [OF assms(2)] by simp
next
  case (replies js k q a sv sv' oc)
  have "replies_once sv sv'" using replies_once_reply(2) [of sv a] replies(5) by simp
  then show ?thesis
    using nbd_pending_served [of fd qs sv "plain_events evs" sv' "plain_events evs @ [Served q]"] assms(2) replies
    by (simp add: finishes_pending)
next
  case (ignores sv k q js sv' oc)
  then have "sv' = sv" using ignored(1) [OF ignores(6), of sv] by simp
  then show ?thesis
    using pending_cong [of fd qs sv "plain_events evs" sv "plain_events evs @ [Served q]"] assms(2) ignores
    by (simp add: finishes_pending)
qed

lemma threads_pending:
  assumes "threads_run x evs y" and "nbd_pending fd qs (fst x) []" and "\<forall>q \<in> set qs. nbd_wire_request fd q"
  shows "nbd_pending fd qs (fst y) (plain_events evs)"
  using assms
proof (induction rule: threads_run.induct)
  case (threads_snoc x evs y ev z)
  show ?case
    by (rule threads_step_pending [OF threads_snoc.hyps(2) threads_snoc.IH [OF threads_snoc.prems] threads_snoc.prems(2)])
qed simp

section \<open>How long a run can be\<close>

text \<open>The socket is dropped once at most; every other event of the reactor brings a request.\<close>

definition watched_cost :: "int \<Rightarrow> server \<Rightarrow> nat" where
  "watched_cost fd sv = (if fd \<in> map_keys (rx_watched (sv_reactor sv)) then 1 else 0)"

definition requests_cost :: "DriverData list \<Rightarrow> nat" where
  "requests_cost qs = sum_list (map (\<lambda>q. 2 * req_len q + 6) qs)"

lemma requests_cost_append [simp]: "requests_cost (as @ bs) = requests_cost as + requests_cost bs"
  "requests_cost [q] = 2 * req_len q + 6" "requests_cost [] = 0"
  by (simp_all add: requests_cost_def)

lemma requests_cost_take: "requests_cost (take n qs) \<le> requests_cost qs"
  by (metis append_take_drop_id le_add1 requests_cost_append(1))

lemma notify_cost:
  assumes "mediator_Notify ans sv fd = (sv', Returns ())" and "sv_driver sv = NBD_driver d"
    and "map_inv (rx_watched (sv_reactor sv))" and "fd \<in> map_keys (rx_watched (sv_reactor sv))"
  shows "event_cost (Reacts (notify_event ans sv fd)) + watched_cost fd sv' \<le>
    requests_cost (received_in [notify_event ans sv fd]) + 1"
  using assms(1)
proof (cases rule: Notify_cases)
  case (connected d' c)
  then show ?thesis using assms(2) by (simp add: NBD_TryAccept_def)
next
  case (received d' c sv1 q)
  then show ?thesis by (simp add: watched_cost_def)
next
  case (dropped d' c sv1 e sv2)
  have "sv_reactor sv1 = sv_reactor sv"
    using dropped(3) by (auto simp add: mediator_receive_def split: prod.splits)
  then have "fd \<notin> map_keys (rx_watched (sv_reactor sv2))"
    using dropped(4) assms(3) by (auto simp add: mediator_remove_def Reactor_Remove_def split: if_splits)
  then show ?thesis using dropped(5,6) by (simp add: watched_cost_def)
qed

lemma threads_cost:
  assumes "threads_run x evs y" and "nbd_pending fd qs (fst x) []" and "\<forall>q \<in> set qs. nbd_wire_request fd q"
  shows "sum_list (map event_cost evs) + watched_cost fd (fst y) \<le> requests_cost (received_in (plain_events evs)) + 1"
  using assms
proof (induction rule: threads_run.induct)
  case (threads_nil x)
  then show ?case by (simp add: watched_cost_def)
next
  case (threads_snoc x evs y ev z)
  have IH: "sum_list (map event_cost evs) + watched_cost fd (fst y) \<le>
      requests_cost (received_in (plain_events evs)) + 1"
    by (rule threads_snoc.IH [OF threads_snoc.prems])
  have pend: "nbd_pending fd qs (fst y) (plain_events evs)"
    by (rule threads_pending [OF threads_snoc.hyps(1) threads_snoc.prems])
  show ?case
  proof (cases "\<exists>e. ev = Reacts e")
    case True
    from threads_snoc.hyps(2) True obtain fd' sv ans sv' js where reacts: "y = (sv, js)" "z = (sv', js)"
      "ev = Reacts (notify_event ans sv fd')" "fd' \<in> map_keys (rx_watched (sv_reactor sv))"
      "fd' \<noteq> rx_signal_fd (sv_reactor sv)" "mediator_Notify ans sv fd' = (sv', Returns ())"
      by (auto elim: threads_step.cases)
    then have "fd' = fd" using pend by (auto simp add: nbd_pending_def)
    moreover obtain d where "sv_driver sv = NBD_driver d" "map_inv (rx_watched (sv_reactor sv))"
      using pend reacts(1) by (auto simp add: nbd_pending_def)
    ultimately have "event_cost ev + watched_cost fd sv' \<le> requests_cost (received_in (plain_event_of ev)) + 1"
      using notify_cost [of ans sv fd sv' d] reacts(3,4,6) by simp
    moreover have "watched_cost fd sv = 1" using reacts(4) \<open>fd' = fd\<close> by (simp add: watched_cost_def)
    ultimately show ?thesis using IH reacts(1,2) by simp
  next
    case False
    then have cost: "event_cost ev = 0" "received_in (plain_event_of ev) = []"
      using reactorless_received [OF threads_snoc.hyps(2)] by auto
    have "sv_reactor (fst z) = sv_reactor (fst y)"
      using threads_snoc.hyps(2)
    proof cases
      case (reacts fd' sv ans sv' js)
      then show ?thesis using False by simp
    next
      case (replies js k q a sv sv' oc)
      then show ?thesis using mediator_reply_fields(3) [OF replies(5)] by simp
    next
      case (ignores sv k q js sv' oc)
      then show ?thesis using ignored(1) [OF ignores(6), of sv] by simp
    qed simp_all
    then show ?thesis using IH cost by (simp add: watched_cost_def)
  qed
qed

section \<open>Requests that stay apart\<close>

definition apart :: "DriverData list \<Rightarrow> bool" where
  "apart qs \<longleftrightarrow> (\<forall>i < length qs. \<forall>j < length qs. i \<noteq> j \<longrightarrow> \<not> conflicting (qs ! i) (qs ! j))"

lemma two_places:
  assumes "{#x, y#} \<subseteq># mset xs"
  obtains i j where "i < length xs" and "j < length xs" and "i \<noteq> j" and "xs ! i = x" and "xs ! j = y"
proof -
  have "x \<in> set xs" using assms by (simp add: insert_subset_eq_iff)
  then obtain i where i: "i < length xs" "xs ! i = x" by (auto simp add: in_set_conv_nth)
  have "mset xs = add_mset x (mset (take i xs) + mset (drop (Suc i) xs))"
    using arg_cong [OF id_take_nth_drop [OF i(1)], of mset] i(2) by simp
  then have "y \<in> set (take i xs) \<or> y \<in> set (drop (Suc i) xs)" using assms by simp
  then show thesis
  proof
    assume "y \<in> set (take i xs)"
    then obtain j where "j < i" "xs ! j = y" using i(1) by (auto simp add: in_set_conv_nth)
    then show thesis using that [of i j] i by simp
  next
    assume "y \<in> set (drop (Suc i) xs)"
    then obtain j where "j < length xs - Suc i" "xs ! (Suc i + j) = y" by (auto simp add: in_set_conv_nth)
    then show thesis using that [of i "Suc i + j"] i by (simp add: less_diff_conv2)
  qed
qed

lemma two_busy:
  assumes "busy_at sv k q" and "busy_at sv k' q'" and "k \<noteq> k'" and "accounted sv evs"
  shows "{#q, q'#} \<subseteq># mset (received_in evs)"
proof -
  let ?ts = "tp_threads (sv_pool sv)"
  have at: "k < length ?ts" "k' < length ?ts" "?ts ! k = Busy (FunctionCommand q)" "?ts ! k' = Busy (FunctionCommand q')"
    using assms(1,2) by (simp_all add: busy_at_def)
  have "mset ?ts = image_mset (nth ?ts) (mset_set {..<length ?ts})"
    by (metis map_nth mset_map mset_upt atLeast0LessThan)
  also have "{..<length ?ts} = insert k (insert k' ({..<length ?ts} - {k, k'}))" using at by auto
  finally have "mset ?ts = {#Busy (FunctionCommand q), Busy (FunctionCommand q')#} +
      image_mset (nth ?ts) (mset_set ({..<length ?ts} - {k, k'}))"
    using assms(3) at(3,4) by (simp add: add_mset_commute)
  then have "in_hand (sv_pool sv) = {#FunctionCommand q, FunctionCommand q'#} +
      (mset (tp_command (sv_pool sv)) +
       \<Sum>\<^sub># (image_mset busy_with (image_mset (nth ?ts) (mset_set ({..<length ?ts} - {k, k'})))))"
    by (simp add: in_hand_def)
  then show ?thesis using assms(4) by (intro FunctionCommand_subseteq) (simp add: accounted_def)
qed

text \<open>Requests that stay apart are served carefully whatever the schedule.\<close>

lemma apart_careful:
  assumes "threads_run x evs y" and "snd x = (\<lambda>k. None)" and "accounted (fst x) []"
    and "sv_storage (fst x) = Raid_storage r"
    and "mset (received_in (plain_events evs)) \<subseteq># mset qs" and "inside cap qs" and "apart qs"
  shows "careful cap Map.empty (array_events evs)"
  using assms
proof (induction rule: threads_run.induct)
  case (threads_snoc x evs y ev z)
  have sub: "mset (received_in (plain_events evs)) \<subseteq># mset qs"
    using threads_snoc.prems(4) by (auto intro: subset_mset.order_trans [OF mset_subset_eq_add_left])
  then have care: "careful cap Map.empty (array_events evs)" using threads_snoc by blast
  obtain sv js where y: "y = (sv, js)" by fastforce
  have counts: "all_busy sv js" "accounted sv (plain_events evs)"
    using run_counts [OF threads_snoc.hyps(1)] threads_snoc.prems(1,2) y by auto
  have flight: "flight_of js = foldl flies Map.empty (array_events evs)"
    using run_array [OF threads_snoc.hyps(1) _ threads_snoc.prems(3)] threads_snoc.prems(1) y
    by (metis fst_conv prod.collapse run_of_array_def snd_conv)
  show ?case
  proof (cases "\<exists>k q. ev = Enters k q")
    case False
    then have "array_event_of ev = [] \<or> (\<exists>k. array_event_of ev = [Moves k]) \<or> (\<exists>k a. array_event_of ev = [Ends k a])"
      by (cases ev) auto
    then show ?thesis by (rule careful_goes_on [OF care])
  next
    case True
    then obtain k q where ev: "ev = Enters k q" by blast
    with threads_snoc.hyps(2) y have busy: "busy_at sv k q" "js k = None" by (auto elim: threads_step.cases)
    have "q \<in> set (received_in (plain_events evs))" by (rule busy_received [OF busy(1) counts(2)])
    then have "q \<in> set qs" using mset_subset_eqD [OF sub] by simp
    then have "unat (m_offset q) + req_len q \<le> cap" using threads_snoc.prems(5) by (simp add: inside_def)
    moreover have "\<not> conflicting q q'" if "flight_of js k' = Some q'" for k' q'
    proof -
      from that obtain j where j: "js k' = Some (Storing q' j)"
        by (auto simp add: flight_of_def split: option.splits serving.splits)
      then have "busy_at sv k' q'" "k \<noteq> k'" using all_busyD [OF counts(1) j] busy(2) by auto
      from subset_mset.order_trans [OF two_busy [OF busy(1) this counts(2)] sub]
      obtain i j where "i < length qs" "j < length qs" "i \<noteq> j" "qs ! i = q" "qs ! j = q'" by (rule two_places)
      then show ?thesis using threads_snoc.prems(6) unfolding apart_def by blast
    qed
    ultimately show ?thesis using care ev flight by (auto simp add: careful_append ran_def)
  qed
qed simp

section \<open>Answers\<close>

fun replied_of :: "thread_event \<Rightarrow> (nat \<times> DriverData \<times> DriverData) list" where
  "replied_of (Replies k q a) = [(k, q, a)]"
| "replied_of _ = []"

definition replied :: "thread_event list \<Rightarrow> (nat \<times> DriverData \<times> DriverData) list" where
  "replied evs = concat (map replied_of evs)"

definition answers_sent :: "thread_event list \<Rightarrow> DriverData list" where
  "answers_sent evs = map (snd \<circ> snd) (replied evs)"

lemma nbd_told:
  "foldl (told_step nbd_meets nbd_tells) out evs = out @ concat (map nbd_reply_frame (answers_sent evs))"
proof (induction evs arbitrary: out)
  case (Cons ev evs)
  have "told_step nbd_meets nbd_tells out ev = out @ concat (map nbd_reply_frame (answers_sent [ev]))"
  proof (cases ev)
    case (Reacts e)
    then show ?thesis by (cases e) (simp_all add: nbd_meets_def answers_sent_def replied_def)
  qed (simp_all add: nbd_tells_def answers_sent_def replied_def)
  moreover have "answers_sent (ev # evs) = answers_sent [ev] @ answers_sent evs"
    by (simp add: answers_sent_def replied_def)
  ultimately show ?case using Cons.IH by simp
qed (simp add: answers_sent_def replied_def)

lemma replies_by_replied: "replies_by k evs = map snd (filter (\<lambda>x. fst x = k) (replied evs))"
proof (induction evs)
  case (Cons ev evs)
  have "reply_of k ev = map snd (filter (\<lambda>x. fst x = k) (replied_of ev))" by (cases ev) simp_all
  then show ?case using Cons.IH by (simp add: replies_by_def replied_def)
qed (simp add: replies_by_def replied_def)

text \<open>When no worker holds an answer any more, what has left the storage has been sent.\<close>

lemma all_replied:
  assumes "\<And>k. completed_by k evs = replies_by k evs"
  shows "mset (replied evs) = mset (completed evs)"
proof (rule multiset_eqI)
  fix x :: "nat \<times> DriverData \<times> DriverData"
  have by_key: "count (mset xs) x = count (mset (map snd (filter (\<lambda>y. fst y = fst x) xs))) (snd x)"
    for xs :: "(nat \<times> DriverData \<times> DriverData) list"
    by (induction xs) (auto simp add: prod_eq_iff)
  show "count (mset (replied evs)) x = count (mset (completed evs)) x"
    unfolding by_key [of "replied evs"] by_key [of "completed evs"]
    using assms [of "fst x"] by (simp add: completed_by_def replies_by_replied)
qed

lemma completed_received:
  assumes "threads_run x evs y" and "snd x = (\<lambda>k. None)" and "accounted (fst x) []"
    and "(k, q, a) \<in> set (completed evs)"
  shows "q \<in> set (received_in (plain_events evs))"
  using assms
proof (induction rule: threads_run.induct)
  case (threads_snoc x evs y ev z)
  show ?case
  proof (cases "(k, q, a) \<in> set (completed evs)")
    case True
    then show ?thesis using threads_snoc by simp
  next
    case False
    then have ev: "ev = Completes k q a" using threads_snoc.prems(3) by (cases ev) auto
    obtain sv js where y: "y = (sv, js)" by fastforce
    have counts: "all_busy sv js" "accounted sv (plain_events evs)"
      using run_counts [OF threads_snoc.hyps(1)] threads_snoc.prems(1,2) y by auto
    from threads_snoc.hyps(2) ev y obtain j where "js k = Some (Storing q j)" by (auto elim: threads_step.cases)
    then show ?thesis using busy_received [OF _ counts(2)] all_busyD [OF counts(1)] by fastforce
  qed
qed simp

lemma request_comes_in:
  assumes "server_step sv (Received q) sv'"
  shows "threads_step (sv, js) (Reacts (Received q)) (sv', js)"
  using assms by cases (metis threads_step.reacts)

text \<open>While a request is on the socket the reactor can go on.\<close>

lemma pending_comes_in:
  assumes "nbd_pending fd qs sv evs" and "\<forall>q \<in> set qs. nbd_wire_request fd q"
    and "received_in evs \<noteq> qs"
  shows "\<exists>ev y. threads_step (sv, js) ev y"
proof -
  obtain d n where d: "sv_driver sv = NBD_driver d" "sock_wf (nd_socket d)"
    "received_in evs = take n qs" "stream (nd_socket d) = concat (map encode_nbd_request (drop n qs))"
    "n < length qs \<longrightarrow> fd \<in> map_keys (rx_watched (sv_reactor sv))" "fd \<noteq> rx_signal_fd (sv_reactor sv)"
    using assms(1) by (auto simp add: nbd_pending_def)
  have n: "n < length qs" using d(3) assms(3) by (cases "n < length qs") simp_all
  then have "stream (nd_socket d) = encode_nbd_request (qs ! n) @ concat (map encode_nbd_request (drop (Suc n) qs))"
    using d(4) by (simp add: Cons_nth_drop_Suc [symmetric])
  from nbd_step_receive [OF d(1) _ d(6) _ d(2) this] assms(2) n d(5)
  show ?thesis using request_comes_in by (metis nth_mem)
qed

section \<open>Property\<close>

lemma maximal_run:
  assumes "\<And>evs y. threads_run x evs y \<Longrightarrow> length evs \<le> n"
  obtains evs y where "threads_run x evs y" and "\<forall>ev z. \<not> threads_step y ev z"
proof -
  have "threads_run x [] x" by (rule threads_nil)
  then obtain evs where evs: "\<exists>y. threads_run x evs y"
    and longest: "\<forall>evs'. (\<exists>y. threads_run x evs' y) \<longrightarrow> length evs' \<le> length evs"
    using ex_has_greatest_nat [of "\<lambda>evs. \<exists>y. threads_run x evs y" "[]" length "Suc n"] assms
    by (metis le_imp_less_Suc)
  from evs obtain y where y: "threads_run x evs y" by blast
  moreover have "\<not> threads_step y ev z" for ev z
    using longest threads_snoc [OF y, of ev z] by fastforce
  ultimately show thesis by (intro that allI)
qed


text \<open>Two requests that do not meet: the kernel writes bytes 1 and 2 and reads byte 0.\<close>

definition demo_block_head :: DriverData where
  "demo_block_head = (new_DriverData READ 13 0 1 SUCCESS)\<lparr>m_source_fd := 6\<rparr>"

definition demo_kernel :: host where
  "demo_kernel = demo_host\<lparr>ho_nbd := demo_nbd_answers\<lparr>na_socket :=
     demo_nbd_socket [encode_nbd_request demo_block_put, encode_nbd_request demo_block_head]\<rparr>\<rparr>"

lemma demo_kernel_main: "\<exists>rn. lds_main demo_kernel demo_nbd_args = Returns (Serves rn)"
proof -
  obtain d where d: "NBDDriverComm (ho_nbd demo_kernel) ''/dev/nbd0'' 4 = Returns d" "nd_serverFd d = 6"
    by (simp add: NBDDriverComm_def demo_kernel_def demo_nbd_answers_def SetUpSignals_def)
  have "\<exists>sv. RunServer 2 demo_answers (NBD_driver d) (Raid_storage demo_raid) = Returns sv"
    using d(2)
    by (simp add: RunServer_def Reactor_def Reactor_SetupSignals_def demo_answers_def mediator_add_def Reactor_Add_def
        NBD_GetFD_def)
  then obtain sv where sv: "RunServer 2 demo_answers (NBD_driver d) (Raid_storage demo_raid) = Returns sv" by blast
  have fields: "ho_fs demo_kernel = ho_fs demo_host" "ho_hardware demo_kernel = ho_hardware demo_host"
    "ho_reactor demo_kernel = ho_reactor demo_host" "ho_inotify demo_kernel = ho_inotify demo_host"
    "ho_handler demo_kernel = ho_handler demo_host" "ho_callback demo_kernel = ho_callback demo_host"
    "ho_dlopen demo_kernel = ho_dlopen demo_host" "ho_can_open demo_kernel = ho_can_open demo_host"
    "ho_files demo_kernel = ho_files demo_host" "ho_clock demo_kernel = ho_clock demo_host"
    "ho_ppid demo_kernel = ho_ppid demo_host"
    by (simp_all add: demo_kernel_def)
  have same: "make_pnp demo_kernel = make_pnp demo_host" "process_logger demo_kernel = process_logger demo_host"
    "optional_args demo_kernel = optional_args demo_host"
    by (simp_all add: fun_eq_iff process_logger_def make_pnp_def optional_args_def fields)
  have start: "RunServer_start demo_kernel lg b out argv = RunServer_start demo_host lg b out argv" for lg b out argv
    by (intro ext) (simp only: RunServer_start_def same fields)
  have fs: "ho_fs demo_host = demo_fs" by (simp add: demo_host_def)
  have "\<exists>rn. RunNBDMode demo_kernel demo_nbd_args ''/dev/nbd0'' 4 4 MEMORY '''' = Returns rn \<and> rn_server rn = sv"
    using demo_RunServer_start [OF sv] demo_process_logger
    by (auto simp add: RunNBDMode_def start same fields(1) fs demo_array d(1))
  then show ?thesis
    using demo_options(2) by (auto simp add: lds_main_def DispatchMode_def demo_nbd_args_def demo_numbers same)
qed


end
