(* ===== verification/Nbd_Threads.thy ===== *)
theory Nbd_Threads
  imports Nbd_Protocol
begin

text \<open>
  The threads of \<^verbatim>\<open>NBDDriverComm\<close> side by side: the listener, which makes its four calls on the
  device and is inside \<^verbatim>\<open>NBD_DO_IT\<close> for most of the time; the signal thread, which calls
  \<^verbatim>\<open>Disconnect\<close> when a signal comes; and the thread that runs the destructor. They share the
  descriptor of the device and the two thread objects, which nothing guards, so every statement of
  \<^verbatim>\<open>Disconnect\<close> is a step of its own.
\<close>

section \<open>Where the threads are\<close>

datatype listener_at = L_set_sock | L_do_it | L_inside | L_clear_que | L_clear_sock | L_over

text \<open>A call of \<^verbatim>\<open>Disconnect\<close>, before the statement named.\<close>

datatype disconnect_at =
    D_test | D_ioctl | D_close | D_reset
  | D_listener | D_join_listener | D_signal | D_join_signal
  | D_server | D_client

text \<open>The signal thread in \<^verbatim>\<open>sigwait\<close>, or the owner of the driver before its destructor, is \<open>Away\<close>.\<close>

datatype caller_at = Away | At disconnect_at | Gone

datatype nbd_ioctl = NBD_SET_SOCK | NBD_DO_IT | NBD_CLEAR_QUE | NBD_CLEAR_SOCK | NBD_DISCONNECT

text \<open>
  The calls are kept with the descriptor they were made on. The process runs (\<open>Returns ()\<close>), has
  been terminated (\<open>Dies\<close>), or two threads have joined the same one (\<open>Undef\<close>).
\<close>

record nbd_process =
  np_driver :: nbd_driver
  np_listener :: listener_at
  np_callers :: "nbd_caller \<Rightarrow> caller_at"
  np_open :: bool
  np_calls :: "(nbd_ioctl \<times> int) list"
  np_end :: "unit outcome"

definition nbd_started :: "nbd_driver \<Rightarrow> nbd_process" where
  "nbd_started d = \<lparr>np_driver = d, np_listener = L_set_sock, np_callers = (\<lambda>_. Away), np_open = True,
     np_calls = [], np_end = Returns ()\<rparr>"

definition nbd_calls :: "nbd_ioctl \<Rightarrow> nbd_process \<Rightarrow> nbd_process" where
  "nbd_calls r p = p\<lparr>np_calls := np_calls p @ [(r, nd_nbdFd (np_driver p))]\<rparr>"

section \<open>Steps\<close>

text \<open>
  \<^verbatim>\<open>ListenerThread\<close>. It masks every signal first, so none is taken here. A call on a descriptor that
  is closed fails, and no result is looked at;
  \<^verbatim>\<open>NBD_DO_IT\<close> comes back when the kernel is done with the device.
\<close>

fun ListenerThread :: "nbd_process \<Rightarrow> listener_at \<Rightarrow> nbd_process option" where
  "ListenerThread p L_set_sock = Some ((nbd_calls NBD_SET_SOCK p)\<lparr>np_listener := L_do_it\<rparr>)"
| "ListenerThread p L_do_it =
     Some ((nbd_calls NBD_DO_IT p)\<lparr>np_listener :=
       if np_open p \<and> nd_nbdFd (np_driver p) \<noteq> -1 then L_inside else L_clear_que\<rparr>)"
| "ListenerThread p L_inside = Some (p\<lparr>np_listener := L_clear_que\<rparr>)"
| "ListenerThread p L_clear_que = Some ((nbd_calls NBD_CLEAR_QUE p)\<lparr>np_listener := L_clear_sock\<rparr>)"
| "ListenerThread p L_clear_sock = Some ((nbd_calls NBD_CLEAR_SOCK p)\<lparr>np_listener := L_over\<rparr>)"
| "ListenerThread p L_over = None"

definition moves_to :: "nbd_caller \<Rightarrow> caller_at \<Rightarrow> nbd_process \<Rightarrow> nbd_process" where
  "moves_to self x p = p\<lparr>np_callers := (np_callers p)(self := x)\<rparr>"

fun other_caller :: "nbd_caller \<Rightarrow> nbd_caller" where
  "other_caller Signal_thread = Other_thread"
| "other_caller Other_thread = Signal_thread"

text \<open>
  \<^verbatim>\<open>Disconnect\<close>, statement by statement. A \<^verbatim>\<open>join\<close> waits (\<open>None\<close>) until its thread is over; it throws
  on a thread that cannot be joined any more and on the thread that calls it, and what it throws
  ends the process for both callers.
\<close>

fun Disconnect_step :: "nbd_caller \<Rightarrow> nbd_process \<Rightarrow> disconnect_at \<Rightarrow> nbd_process option" where
  "Disconnect_step self p D_test =
     Some (moves_to self (At (if nd_nbdFd (np_driver p) \<noteq> -1 then D_ioctl else D_listener)) p)"
| "Disconnect_step self p D_ioctl = Some (moves_to self (At D_close) (nbd_calls NBD_DISCONNECT p))"
| "Disconnect_step self p D_close = Some (moves_to self (At D_reset) (p\<lparr>np_open := False\<rparr>))"
| "Disconnect_step self p D_reset =
     Some (moves_to self (At D_listener) (p\<lparr>np_driver := (np_driver p)\<lparr>nd_nbdFd := -1\<rparr>\<rparr>))"
| "Disconnect_step self p D_listener =
     Some (moves_to self (At (if nd_listener (np_driver p) then D_join_listener else D_signal)) p)"
| "Disconnect_step self p D_join_listener =
     (if np_callers p (other_caller self) = At D_join_listener then Some (p\<lparr>np_end := Undef\<rparr>)
      else if \<not> nd_listener (np_driver p) then Some (p\<lparr>np_end := Dies\<rparr>)
      else if np_listener p = L_over
      then Some (moves_to self (At D_signal) (p\<lparr>np_driver := (np_driver p)\<lparr>nd_listener := False\<rparr>\<rparr>))
      else None)"
| "Disconnect_step self p D_signal =
     Some (moves_to self (At (if nd_signal_thread (np_driver p) then D_join_signal else D_server)) p)"
| "Disconnect_step self p D_join_signal =
     (if self = Signal_thread \<or> \<not> nd_signal_thread (np_driver p) then Some (p\<lparr>np_end := Dies\<rparr>)
      else if np_callers p Signal_thread = Gone
      then Some (moves_to self (At D_server) (p\<lparr>np_driver := (np_driver p)\<lparr>nd_signal_thread := False\<rparr>\<rparr>))
      else None)"
| "Disconnect_step self p D_server =
     Some (moves_to self (At D_client) (p\<lparr>np_driver := (np_driver p)\<lparr>nd_serverFd := -1\<rparr>\<rparr>))"
| "Disconnect_step self p D_client =
     Some (moves_to self Gone (p\<lparr>np_driver := (np_driver p)\<lparr>nd_clientFd := -1\<rparr>\<rparr>))"

text \<open>Whose turn it is: the listener's, a call of \<^verbatim>\<open>Disconnect\<close>, or a signal or the destructor to come.\<close>

datatype nbd_turn = Listens | Calls nbd_caller | Disconnects nbd_caller

fun nbd_next :: "nbd_process \<Rightarrow> nbd_turn \<Rightarrow> nbd_process option" where
  "nbd_next p Listens =
     (if np_end p = Returns () then ListenerThread p (np_listener p) else None)"
| "nbd_next p (Calls self) =
     (if np_end p = Returns () \<and> np_callers p self = Away then Some (moves_to self (At D_test) p) else None)"
| "nbd_next p (Disconnects self) =
     (if np_end p = Returns ()
      then (case np_callers p self of At x \<Rightarrow> Disconnect_step self p x | _ \<Rightarrow> None) else None)"

fun nbd_turns :: "nbd_process \<Rightarrow> nbd_turn list \<Rightarrow> nbd_process option" where
  "nbd_turns p [] = Some p"
| "nbd_turns p (t # ts) = (case nbd_next p t of None \<Rightarrow> None | Some p' \<Rightarrow> nbd_turns p' ts)"

lemma nbd_turns_append:
  "nbd_turns p (ts @ us) = (case nbd_turns p ts of None \<Rightarrow> None | Some p' \<Rightarrow> nbd_turns p' us)"
  by (induction ts arbitrary: p) (simp_all split: option.splits)

lemmas nbd_step_defs = moves_to_def nbd_calls_def

section \<open>How long it can go on\<close>

fun listener_left :: "listener_at \<Rightarrow> nat" where
  "listener_left L_set_sock = 5"
| "listener_left L_do_it = 4"
| "listener_left L_inside = 3"
| "listener_left L_clear_que = 2"
| "listener_left L_clear_sock = 1"
| "listener_left L_over = 0"

fun caller_left :: "caller_at \<Rightarrow> nat" where
  "caller_left Away = 11"
| "caller_left (At D_test) = 10"
| "caller_left (At D_ioctl) = 9"
| "caller_left (At D_close) = 8"
| "caller_left (At D_reset) = 7"
| "caller_left (At D_listener) = 6"
| "caller_left (At D_join_listener) = 5"
| "caller_left (At D_signal) = 4"
| "caller_left (At D_join_signal) = 3"
| "caller_left (At D_server) = 2"
| "caller_left (At D_client) = 1"
| "caller_left Gone = 0"

definition turns_left :: "nbd_process \<Rightarrow> nat" where
  "turns_left p = listener_left (np_listener p) + caller_left (np_callers p Signal_thread) +
     caller_left (np_callers p Other_thread) + (if np_end p = Returns () then 1 else 0)"

lemma ListenerThread_left:
  "ListenerThread p (np_listener p) = Some p' \<Longrightarrow> turns_left p' < turns_left p"
  by (cases "np_listener p") (auto simp add: turns_left_def nbd_step_defs split: if_splits)

lemma Disconnect_step_left:
  assumes "Disconnect_step self p x = Some p'" and "np_callers p self = At x" and "np_end p = Returns ()"
  shows "turns_left p' < turns_left p"
  using assms
  by (cases x; cases self) (auto simp add: turns_left_def nbd_step_defs split: if_splits)

lemma nbd_next_left: "nbd_next p t = Some p' \<Longrightarrow> turns_left p' < turns_left p"
proof (cases t)
  case (Calls self)
  assume "nbd_next p t = Some p'"
  with Calls show ?thesis by (cases self) (auto simp add: turns_left_def nbd_step_defs split: if_splits)
qed (auto simp add: ListenerThread_left Disconnect_step_left split: if_splits caller_at.splits)

lemma nbd_turns_left: "nbd_turns p ts = Some p' \<Longrightarrow> turns_left p' + length ts \<le> turns_left p"
proof (induction ts arbitrary: p)
  case (Cons t ts)
  then obtain p1 where "nbd_next p t = Some p1" "nbd_turns p1 ts = Some p'" by (auto split: option.splits)
  with Cons.IH [of p1] nbd_next_left [of p t p1] show ?case by simp
qed simp

section \<open>What is never reached\<close>

text \<open>
  The signal thread stays joinable, so no caller gets past the second join: the sockets stay open
  and no \<^verbatim>\<open>Disconnect\<close> returns.
\<close>

definition inside_disconnect :: "caller_at \<Rightarrow> bool" where
  "inside_disconnect x \<longleftrightarrow> x \<noteq> Gone \<and> x \<noteq> At D_server \<and> x \<noteq> At D_client"

definition descriptors_held :: "nbd_driver \<Rightarrow> nbd_driver \<Rightarrow> bool" where
  "descriptors_held d e \<longleftrightarrow> nd_signal_thread e \<and> nd_serverFd e = nd_serverFd d \<and>
     nd_clientFd e = nd_clientFd d \<and> nd_nbdFd e \<in> {nd_nbdFd d, -1}"

definition calls_held :: "nbd_driver \<Rightarrow> (nbd_ioctl \<times> int) list \<Rightarrow> bool" where
  "calls_held d cs \<longleftrightarrow> snd ` set cs \<subseteq> {nd_nbdFd d, -1}"

lemma calls_held_append [simp]:
  "calls_held d (cs @ [(r, fd)]) \<longleftrightarrow> calls_held d cs \<and> fd \<in> {nd_nbdFd d, -1}"
  by (auto simp add: calls_held_def)

text \<open>Where the signal thread and the owner are, with the end of the process and whether the listener can be joined.\<close>

definition callers_held :: "bool \<Rightarrow> unit outcome \<Rightarrow> caller_at \<Rightarrow> caller_at \<Rightarrow> bool" where
  "callers_held listener oc s w \<longleftrightarrow> inside_disconnect s \<and> inside_disconnect w \<and>
     oc \<in> {Returns (), Dies, Undef} \<and> (oc = Undef \<longrightarrow> s \<noteq> Away \<and> w \<noteq> Away) \<and>
     (s = Away \<longrightarrow> oc = Returns () \<and> (listener \<or> w = At D_signal \<or> w = At D_join_signal))"

definition nbd_held :: "nbd_driver \<Rightarrow> nbd_process \<Rightarrow> bool" where
  "nbd_held d p \<longleftrightarrow> descriptors_held d (np_driver p) \<and> calls_held d (np_calls p) \<and>
     callers_held (nd_listener (np_driver p)) (np_end p) (np_callers p Signal_thread) (np_callers p Other_thread)"

lemma started_held:
  assumes "NBDDriverComm na dev capacity = Returns d"
  shows "nbd_held d (nbd_started d)"
  using assms
  by (auto simp add: nbd_held_def descriptors_held_def calls_held_def callers_held_def nbd_started_def inside_disconnect_def
      NBDDriverComm_def SetUpSignals_def Let_def split: if_splits)

lemma nbd_calls_held: "nbd_held d p \<Longrightarrow> nbd_held d (nbd_calls r p)"
  by (simp add: nbd_held_def nbd_calls_def descriptors_held_def)

lemma listener_moves_held: "nbd_held d p \<Longrightarrow> nbd_held d (p\<lparr>np_listener := l\<rparr>)"
  by (simp add: nbd_held_def)

lemma ListenerThread_held:
  "nbd_held d p \<Longrightarrow> ListenerThread p (np_listener p) = Some p' \<Longrightarrow> nbd_held d p'"
  by (cases "np_listener p") (auto simp add: nbd_calls_held listener_moves_held)

text \<open>A step of a caller keeps the descriptors and the calls, and what it does to the callers.\<close>

lemma Disconnect_step_descriptors:
  assumes "descriptors_held d (np_driver p)" and "calls_held d (np_calls p)"
    and "Disconnect_step self p x = Some p'" and "x \<noteq> D_server" and "x \<noteq> D_client"
    and "np_callers p Signal_thread \<noteq> Gone"
  shows "descriptors_held d (np_driver p') \<and> calls_held d (np_calls p')"
  using assms
  by (cases x; simp add: nbd_step_defs descriptors_held_def split: if_splits; clarsimp)

lemma Disconnect_step_callers:
  assumes "callers_held (nd_listener (np_driver p)) (Returns ()) (np_callers p Signal_thread) (np_callers p Other_thread)"
    and "Disconnect_step self p x = Some p'" and "np_callers p self = At x" and "np_end p = Returns ()"
    and "nd_signal_thread (np_driver p)"
  shows "callers_held (nd_listener (np_driver p')) (np_end p') (np_callers p' Signal_thread) (np_callers p' Other_thread)"
proof (cases self)
  case Signal_thread
  then show ?thesis
    using assms by (cases x; simp add: nbd_step_defs callers_held_def inside_disconnect_def split: if_splits; clarsimp)
next
  case Other_thread
  then show ?thesis
    using assms by (cases x; simp add: nbd_step_defs callers_held_def inside_disconnect_def split: if_splits; clarsimp)
qed

lemma nbd_heldD:
  assumes "nbd_held d p"
  shows "descriptors_held d (np_driver p)" and "calls_held d (np_calls p)"
    and "callers_held (nd_listener (np_driver p)) (np_end p) (np_callers p Signal_thread) (np_callers p Other_thread)"
    and "inside_disconnect (np_callers p self)" and "nd_signal_thread (np_driver p)"
  using assms by (cases self; simp add: nbd_held_def callers_held_def descriptors_held_def)+

lemma Disconnect_step_held:
  assumes "nbd_held d p" and "Disconnect_step self p x = Some p'" and "np_callers p self = At x"
    and "np_end p = Returns ()"
  shows "nbd_held d p'"
proof -
  note held = nbd_heldD [OF assms(1)]
  have "x \<noteq> D_server" "x \<noteq> D_client" "np_callers p Signal_thread \<noteq> Gone"
    using held(4) [of self] held(4) [of Signal_thread] assms(3) by (simp_all add: inside_disconnect_def)
  from Disconnect_step_descriptors [OF held(1,2) assms(2) this]
    Disconnect_step_callers [OF held(3) [unfolded assms(4)] assms(2,3,4) held(5)]
  show ?thesis by (simp add: nbd_held_def)
qed

lemma call_begins_held:
  assumes "nbd_held d p" and "np_callers p self = Away" and "np_end p = Returns ()"
  shows "nbd_held d (moves_to self (At D_test) p)"
  using assms
  by (cases self) (simp_all add: nbd_held_def nbd_step_defs callers_held_def inside_disconnect_def)

lemma nbd_next_held: "nbd_held d p \<Longrightarrow> nbd_next p t = Some p' \<Longrightarrow> nbd_held d p'"
  by (cases t)
    (auto dest: ListenerThread_held Disconnect_step_held simp add: call_begins_held split: if_splits caller_at.splits)

lemma nbd_turns_held: "nbd_held d p \<Longrightarrow> nbd_turns p ts = Some p' \<Longrightarrow> nbd_held d p'"
  by (induction ts arbitrary: p) (auto dest: nbd_next_held split: option.splits)

section \<open>Where it comes to rest\<close>

text \<open>No thread can make a step; a signal may still come, and the owner may still call the destructor.\<close>

definition nbd_waits :: "nbd_process \<Rightarrow> bool" where
  "nbd_waits p \<longleftrightarrow> nbd_next p Listens = None \<and> nbd_next p (Disconnects Signal_thread) = None \<and>
     nbd_next p (Disconnects Other_thread) = None"

lemma listener_waits: "ListenerThread p x = None \<longleftrightarrow> x = L_over"
  by (cases x) simp_all

lemma disconnect_waits:
  assumes "Disconnect_step self p x = None" and "np_listener p = L_over"
  shows "x = D_join_signal \<and> self = Other_thread"
  using assms by (cases x; cases self) (simp_all split: if_splits)

lemma held_waits:
  assumes "nbd_held d p" and "nbd_waits p"
  shows "if np_callers p Signal_thread = Away
         then np_end p = Returns () \<and> np_callers p Other_thread \<in> {Away, At D_join_signal}
         else np_end p \<in> {Dies, Undef}"
proof (cases "np_end p = Returns ()")
  case True
  then have over: "np_listener p = L_over" using assms(2) by (simp add: nbd_waits_def listener_waits)
  have "np_callers p self = Away \<or> np_callers p self = At D_join_signal \<and> self = Other_thread" for self
  proof (cases "np_callers p self")
    case (At x)
    then have "Disconnect_step self p x = None" using assms(2) True by (cases self) (simp_all add: nbd_waits_def)
    then show ?thesis using At disconnect_waits over by simp
  next
    case Gone
    then show ?thesis using nbd_heldD(4) [OF assms(1), of self] by (simp add: inside_disconnect_def)
  qed simp
  from this [of Signal_thread] this [of Other_thread] show ?thesis using True by simp
next
  case False
  then show ?thesis using nbd_heldD(3) [OF assms(1)] by (auto simp add: callers_held_def)
qed

text \<open>
  A signal while the device is served, then the listener: late, after the descriptor has been
  reset, or in time, between \<^verbatim>\<open>NBD_DISCONNECT\<close> and \<^verbatim>\<open>close\<close>.
\<close>

definition listener_late :: "nbd_turn list" where
  "listener_late = [Listens, Listens, Calls Signal_thread] @ replicate 4 (Disconnects Signal_thread) @
     replicate 3 Listens @ replicate 4 (Disconnects Signal_thread)"

definition listener_in_time :: "nbd_turn list" where
  "listener_in_time = [Listens, Listens, Calls Signal_thread] @ replicate 2 (Disconnects Signal_thread) @
     replicate 3 Listens @ replicate 6 (Disconnects Signal_thread)"

lemma listener_races:
  assumes "nd_nbdFd d \<noteq> -1" and "nd_listener d" and "nd_signal_thread d"
  shows "\<exists>p. nbd_turns (nbd_started d) listener_late = Some p \<and> np_end p = Dies \<and> (NBD_CLEAR_SOCK, -1) \<in> set (np_calls p)"
    and "\<exists>p. nbd_turns (nbd_started d) listener_in_time = Some p \<and> np_end p = Dies \<and>
      (NBD_CLEAR_SOCK, nd_nbdFd d) \<in> set (np_calls p)"
  using assms
  by (simp_all add: listener_late_def listener_in_time_def nbd_started_def nbd_step_defs numeral_eq_Suc)

text \<open>
  The signal thread undisturbed, with the listener over, does what \<open>NBD_Disconnect\<close> says.
\<close>

lemma disconnect_alone:
  assumes "np_end p = Returns ()" and "np_callers p = (\<lambda>_. Away)" and "np_listener p = L_over"
    and "nd_nbdFd (np_driver p) \<noteq> -1" and "nd_listener (np_driver p)" and "nd_signal_thread (np_driver p)"
  shows "\<exists>p'. nbd_turns p (Calls Signal_thread # replicate 8 (Disconnects Signal_thread)) = Some p' \<and>
    (np_driver p', np_end p') = nbd_signal_thread_body True (np_driver p)"
  using assms
  by (simp add: nbd_step_defs numeral_eq_Suc nbd_signal_thread_body_def nbd_terminate_def NBD_Disconnect_def
      nbd_join_listener_def nbd_join_signal_def Let_def)

section \<open>Property\<close>



end
