(* ===== verification/Wpq_Monitor.thy ===== *)
theory Wpq_Monitor
  imports Command_Queue
begin

text \<open>
  \<^verbatim>\<open>WPQ\<close> as the monitor it is: one mutex, one condition variable, any number of threads inside
  \<^verbatim>\<open>Push\<close>, \<^verbatim>\<open>Pop\<close>, \<^verbatim>\<open>Size\<close> and \<^verbatim>\<open>IsEmpty\<close>. A step is one access to the mutex, to the condition variable
  or to the queue; a waiting thread may wake up without being notified. The theorems justify
  \<open>Command_Queue\<close>, where an operation is one step: the monitor is a linearizable queue, and a
  thread is left waiting only while the queue is empty.
\<close>

section \<open>State\<close>

datatype 'c wpq_call = Push_call "'c command" | Pop_call | Size_call | IsEmpty_call

datatype 'c wpq_result = Pushed | Popped "'c command" | Counted size_t | Emptiness bool

text \<open>
  Where a thread is: outside; in front of the mutex; in the body, with the mutex; in \<^verbatim>\<open>Push\<close> between
  the element and \<^verbatim>\<open>notify_one\<close>; asleep in \<^verbatim>\<open>wait\<close>, without the mutex; woken and in front of the mutex
  again; at the end of the body, still with the mutex.
\<close>

datatype 'c wpq_place =
    Outside
  | Locks "'c wpq_call"
  | Inside "'c wpq_call"
  | Notifies
  | Waits
  | Woken
  | Leaves "'c wpq_result"

record 'c monitor =
  mo_pq :: "'c command list"
  mo_mutex :: "nat option"
  mo_threads :: "'c wpq_place list"

definition new_monitor :: "nat \<Rightarrow> 'c monitor" where
  "new_monitor n = \<lparr>mo_pq = [], mo_mutex = None, mo_threads = replicate n Outside\<rparr>"

definition mo_goes :: "'c monitor \<Rightarrow> nat \<Rightarrow> 'c wpq_place \<Rightarrow> 'c monitor" where
  "mo_goes m k p = m\<lparr>mo_threads := (mo_threads m)[k := p]\<rparr>"

definition at_place :: "'c monitor \<Rightarrow> nat \<Rightarrow> 'c wpq_place \<Rightarrow> bool" where
  "at_place m k p \<longleftrightarrow> k < length (mo_threads m) \<and> mo_threads m ! k = p"

section \<open>Steps\<close>

text \<open>\<open>Commits\<close> is the access to the queue, which decides what the call does.\<close>

datatype 'c wpq_event =
    Called nat "'c wpq_call"
  | Commits nat "'c wpq_call" "'c wpq_result"
  | Goes nat
  | Spurious nat
  | Returned nat "'c wpq_result"

inductive monitor_step :: "'c monitor \<Rightarrow> 'c wpq_event \<Rightarrow> 'c monitor \<Rightarrow> bool" where
  calls: "at_place m k Outside \<Longrightarrow> monitor_step m (Called k c) (mo_goes m k (Locks c))"
| locks: "at_place m k (Locks c) \<Longrightarrow> mo_mutex m = None \<Longrightarrow>
     monitor_step m (Goes k) ((mo_goes m k (Inside c))\<lparr>mo_mutex := Some k\<rparr>)"
| pushes: "at_place m k (Inside (Push_call x)) \<Longrightarrow>
     monitor_step m (Commits k (Push_call x) Pushed) ((mo_goes m k Notifies)\<lparr>mo_pq := wpq_Push (mo_pq m) x\<rparr>)"
| notifies: "at_place m k Notifies \<Longrightarrow> at_place m j Waits \<Longrightarrow>
     monitor_step m (Goes k) (mo_goes (mo_goes m j Woken) k (Leaves Pushed))"
| notifies_no_one: "at_place m k Notifies \<Longrightarrow> Waits \<notin> set (mo_threads m) \<Longrightarrow>
     monitor_step m (Goes k) (mo_goes m k (Leaves Pushed))"
| pops: "at_place m k (Inside Pop_call) \<Longrightarrow> wpq_Pop (mo_pq m) i = Some (x, q) \<Longrightarrow>
     monitor_step m (Commits k Pop_call (Popped x)) ((mo_goes m k (Leaves (Popped x)))\<lparr>mo_pq := q\<rparr>)"
| waits: "at_place m k (Inside Pop_call) \<Longrightarrow> wpq_IsEmpty (mo_pq m) \<Longrightarrow>
     monitor_step m (Goes k) ((mo_goes m k Waits)\<lparr>mo_mutex := None\<rparr>)"
| wakes_up: "at_place m k Waits \<Longrightarrow> monitor_step m (Spurious k) (mo_goes m k Woken)"
| locks_again: "at_place m k Woken \<Longrightarrow> mo_mutex m = None \<Longrightarrow>
     monitor_step m (Goes k) ((mo_goes m k (Inside Pop_call))\<lparr>mo_mutex := Some k\<rparr>)"
| counts: "at_place m k (Inside Size_call) \<Longrightarrow>
     monitor_step m (Commits k Size_call (Counted (wpq_Size (mo_pq m)))) (mo_goes m k (Leaves (Counted (wpq_Size (mo_pq m)))))"
| tests: "at_place m k (Inside IsEmpty_call) \<Longrightarrow>
     monitor_step m (Commits k IsEmpty_call (Emptiness (wpq_IsEmpty (mo_pq m)))) (mo_goes m k (Leaves (Emptiness (wpq_IsEmpty (mo_pq m)))))"
| leaves: "at_place m k (Leaves a) \<Longrightarrow>
     monitor_step m (Returned k a) ((mo_goes m k Outside)\<lparr>mo_mutex := None\<rparr>)"

inductive_cases monitor_stepE: "monitor_step m ev m'"

inductive monitor_run :: "'c monitor \<Rightarrow> 'c wpq_event list \<Rightarrow> 'c monitor \<Rightarrow> bool" where
  run_none: "monitor_run m [] m"
| run_more: "monitor_run m evs m1 \<Longrightarrow> monitor_step m1 ev m2 \<Longrightarrow> monitor_run m (evs @ [ev]) m2"

section \<open>The queue it implements\<close>

inductive queue_op :: "'c command list \<Rightarrow> 'c wpq_call \<Rightarrow> 'c wpq_result \<Rightarrow> 'c command list \<Rightarrow> bool" where
  op_push: "queue_op q (Push_call x) Pushed (wpq_Push q x)"
| op_pop: "wpq_Pop q i = Some (x, q') \<Longrightarrow> queue_op q Pop_call (Popped x) q'"
| op_size: "queue_op q Size_call (Counted (wpq_Size q)) q"
| op_empty: "queue_op q IsEmpty_call (Emptiness (wpq_IsEmpty q)) q"

inductive queue_session :: "'c command list \<Rightarrow> ('c wpq_call \<times> 'c wpq_result) list \<Rightarrow> 'c command list \<Rightarrow> bool" where
  session_none: "queue_session q [] q"
| session_more: "queue_session q cs q1 \<Longrightarrow> queue_op q1 c a q2 \<Longrightarrow> queue_session q (cs @ [(c, a)]) q2"

text \<open>What a run says of the queue, and of one thread.\<close>

fun commit_of :: "'c wpq_event \<Rightarrow> (nat \<times> 'c wpq_call \<times> 'c wpq_result) list" where
  "commit_of (Commits k c a) = [(k, c, a)]"
| "commit_of _ = []"

definition commits :: "'c wpq_event list \<Rightarrow> (nat \<times> 'c wpq_call \<times> 'c wpq_result) list" where
  "commits evs = concat (map commit_of evs)"

definition commits_of :: "nat \<Rightarrow> 'c wpq_event list \<Rightarrow> ('c wpq_call \<times> 'c wpq_result) list" where
  "commits_of k evs = map snd (filter (\<lambda>x. fst x = k) (commits evs))"

fun call_of :: "nat \<Rightarrow> 'c wpq_event \<Rightarrow> 'c wpq_call list" where
  "call_of k (Called j c) = (if j = k then [c] else [])"
| "call_of k _ = []"

fun return_of :: "nat \<Rightarrow> 'c wpq_event \<Rightarrow> 'c wpq_result list" where
  "return_of k (Returned j a) = (if j = k then [a] else [])"
| "return_of k _ = []"

definition calls_of :: "nat \<Rightarrow> 'c wpq_event list \<Rightarrow> 'c wpq_call list" where
  "calls_of k evs = concat (map (call_of k) evs)"

definition returns_of :: "nat \<Rightarrow> 'c wpq_event list \<Rightarrow> 'c wpq_result list" where
  "returns_of k evs = concat (map (return_of k) evs)"

text \<open>The call a thread has not committed yet, and the result it has not returned yet.\<close>

fun open_call :: "'c wpq_place \<Rightarrow> 'c wpq_call list" where
  "open_call (Locks c) = [c]"
| "open_call (Inside c) = [c]"
| "open_call Waits = [Pop_call]"
| "open_call Woken = [Pop_call]"
| "open_call _ = []"

fun open_result :: "'c wpq_place \<Rightarrow> 'c wpq_result list" where
  "open_result (Leaves a) = [a]"
| "open_result Notifies = [Pushed]"
| "open_result _ = []"

lemmas event_lists = commits_def commits_of_def calls_of_def returns_of_def

definition linear_at :: "'c wpq_event list \<Rightarrow> 'c monitor \<Rightarrow> nat \<Rightarrow> bool" where
  "linear_at evs m k \<longleftrightarrow>
     (let p = (if k < length (mo_threads m) then mo_threads m ! k else Outside)
      in calls_of k evs = map fst (commits_of k evs) @ open_call p \<and>
         map snd (commits_of k evs) = returns_of k evs @ open_result p)"

lemma linear_step:
  assumes "monitor_step m ev m'" and "linear_at evs m k"
  shows "linear_at (evs @ [ev]) m' k"
  using assms
  by (cases rule: monitor_step.cases)
    (auto simp add: linear_at_def event_lists at_place_def mo_goes_def nth_list_update Let_def split: if_splits)

lemma commits_step:
  assumes "monitor_step m ev m'"
  shows "(commit_of ev = [] \<and> mo_pq m' = mo_pq m) \<or>
    (\<exists>k c a. commit_of ev = [(k, c, a)] \<and> queue_op (mo_pq m) c a (mo_pq m'))"
  using assms by cases (auto simp add: mo_goes_def intro: queue_op.intros)

lemma run_linear_queue:
  assumes "monitor_run m evs m'" and "mo_pq m = []" and "\<forall>k. linear_at [] m k"
  shows "queue_session [] (map snd (commits evs)) (mo_pq m') \<and> (\<forall>k. linear_at evs m' k)"
  using assms
proof (induction rule: monitor_run.induct)
  case (run_none m)
  then show ?case by (auto simp add: commits_def intro: queue_session.intros)
next
  case (run_more m evs m1 ev m2)
  then have IH: "queue_session [] (map snd (commits evs)) (mo_pq m1)" "\<forall>k. linear_at evs m1 k" by auto
  from commits_step [OF run_more.hyps(2)] IH(1)
  have "queue_session [] (map snd (commits (evs @ [ev]))) (mo_pq m2)"
    by (auto simp add: commits_def intro: session_more)
  then show ?case using linear_step [OF run_more.hyps(2)] IH(2) by blast
qed

lemma mo_goes_other [simp]: "mo_pq (mo_goes m k p) = mo_pq m" "mo_mutex (mo_goes m k p) = mo_mutex m"
  by (simp_all add: mo_goes_def)

lemma threads_step: "monitor_step m ev m' \<Longrightarrow> length (mo_threads m') = length (mo_threads m)"
  by (induction rule: monitor_step.induct) (simp_all add: mo_goes_def)

lemma threads_run: "monitor_run m evs m' \<Longrightarrow> length (mo_threads m') = length (mo_threads m)"
  by (induction rule: monitor_run.induct) (simp_all add: threads_step)

lemma new_monitor_threads [simp]:
  "length (mo_threads (new_monitor n)) = n" "mo_pq (new_monitor n) = []" "mo_mutex (new_monitor n) = None"
  "k < n \<Longrightarrow> mo_threads (new_monitor n) ! k = Outside"
  by (simp_all add: new_monitor_def)

section \<open>Nobody is forgotten\<close>

text \<open>Who holds the mutex.\<close>

fun in_body :: "'c wpq_place \<Rightarrow> bool" where
  "in_body (Inside c) \<longleftrightarrow> True"
| "in_body Notifies \<longleftrightarrow> True"
| "in_body (Leaves a) \<longleftrightarrow> True"
| "in_body _ \<longleftrightarrow> False"

definition mutex_ok :: "'c monitor \<Rightarrow> bool" where
  "mutex_ok m \<longleftrightarrow> (\<forall>k. mo_mutex m = Some k \<longleftrightarrow> k < length (mo_threads m) \<and> in_body (mo_threads m ! k))"

lemma mutex_ok_pq [simp]: "mutex_ok (m\<lparr>mo_pq := q\<rparr>) \<longleftrightarrow> mutex_ok m"
  by (simp add: mutex_ok_def)

lemma mutex_kept:
  "mutex_ok m \<Longrightarrow> at_place m k p \<Longrightarrow> in_body p' = in_body p \<Longrightarrow> mutex_ok (mo_goes m k p')"
  by (simp add: mutex_ok_def at_place_def mo_goes_def nth_list_update)

lemma mutex_taken:
  "mutex_ok m \<Longrightarrow> at_place m k p \<Longrightarrow> mo_mutex m = None \<Longrightarrow> in_body p' \<Longrightarrow>
    mutex_ok ((mo_goes m k p')\<lparr>mo_mutex := Some k\<rparr>)"
  by (auto simp add: mutex_ok_def at_place_def mo_goes_def nth_list_update)

lemma mutex_given:
  assumes "mutex_ok m" and "at_place m k p" and "in_body p" and "\<not> in_body p'"
  shows "mutex_ok ((mo_goes m k p')\<lparr>mo_mutex := None\<rparr>)"
proof -
  have "mo_mutex m = Some k" using assms(1-3) by (simp add: mutex_ok_def at_place_def)
  then have "\<not> in_body (mo_threads m ! j)" if "j \<noteq> k" "j < length (mo_threads m)" for j
    using assms(1) that unfolding mutex_ok_def by (metis option.inject)
  moreover have "\<not> in_body ((mo_threads m)[k := p'] ! j)" if "j < length (mo_threads m)" for j
    using that calculation [of j] assms(4) by (cases "j = k") simp_all
  ultimately show ?thesis by (auto simp add: mutex_ok_def mo_goes_def)
qed

lemma at_place_goes: "at_place m k p \<Longrightarrow> at_place m j p' \<Longrightarrow> j \<noteq> k \<Longrightarrow> at_place (mo_goes m j p'') k p"
  by (simp add: at_place_def mo_goes_def)

lemma mutex_ok_step:
  assumes "monitor_step m ev m'" and "mutex_ok m"
  shows "mutex_ok m'"
  using assms(1)
proof cases
  case (notifies k j)
  have "j \<noteq> k" using notifies by (auto simp add: at_place_def)
  note moved = at_place_goes [OF notifies(3,4) this, of Woken]
  have "mutex_ok (mo_goes m j Woken)" by (rule mutex_kept [OF assms(2) notifies(4)]) simp
  then show ?thesis using mutex_kept [OF _ moved] notifies(2) by simp
next
  case (calls k c)
  then show ?thesis using mutex_kept [OF assms(2) calls(3), of "Locks c"] by simp
next
  case (locks k c)
  then show ?thesis using mutex_taken [OF assms(2) locks(3), of "Inside c"] by simp
next
  case (pushes k x)
  then show ?thesis using mutex_kept [OF assms(2) pushes(3), of "Notifies"] by simp
next
  case (notifies_no_one k)
  then show ?thesis using mutex_kept [OF assms(2) notifies_no_one(3), of "Leaves Pushed"] by simp
next
  case (pops k i x q)
  then show ?thesis using mutex_kept [OF assms(2) pops(3), of "Leaves (Popped x)"] by simp
next
  case (waits k)
  then show ?thesis using mutex_given [OF assms(2) waits(3), of "Waits"] by simp
next
  case (wakes_up k)
  then show ?thesis using mutex_kept [OF assms(2) wakes_up(3), of "Woken"] by simp
next
  case (locks_again k)
  then show ?thesis using mutex_taken [OF assms(2) locks_again(3), of "Inside Pop_call"] by simp
next
  case (counts k)
  then show ?thesis using mutex_kept [OF assms(2) counts(3), of "Leaves (Counted (wpq_Size (mo_pq m)))"] by simp
next
  case (tests k)
  then show ?thesis using mutex_kept [OF assms(2) tests(3), of "Leaves (Emptiness (wpq_IsEmpty (mo_pq m)))"] by simp
next
  case (leaves k a)
  then show ?thesis using mutex_given [OF assms(2) leaves(3), of "Outside"] by simp
qed

text \<open>A sum over the threads.\<close>

definition place_sum :: "('c wpq_place \<Rightarrow> nat) \<Rightarrow> 'c monitor \<Rightarrow> nat" where
  "place_sum f m = sum_list (map f (mo_threads m))"

lemma place_sum_goes:
  assumes "at_place m k p"
  shows "place_sum f (mo_goes m k p') + f p = place_sum f m + f p'"
proof -
  have k: "k < length (map f (mo_threads m))" and p: "map f (mo_threads m) ! k = f p"
    using assms by (auto simp add: at_place_def)
  have "f p \<le> place_sum f m"
    unfolding place_sum_def using elem_le_sum_list [OF k] p by simp
  then show ?thesis
    using sum_list_update [OF k, of "f p'"] p by (simp add: place_sum_def mo_goes_def map_update)
qed

lemma place_sum_other [simp]:
  "place_sum f (m\<lparr>mo_mutex := x\<rparr>) = place_sum f m" "place_sum f (m\<lparr>mo_pq := q\<rparr>) = place_sum f m"
  by (simp_all add: place_sum_def)

text \<open>The threads that will look at the queue, or make another one look.\<close>

fun coming :: "'c wpq_place \<Rightarrow> nat" where
  "coming (Inside Pop_call) = 1"
| "coming Notifies = 1"
| "coming Woken = 1"
| "coming _ = 0"

definition nobody_forgotten :: "'c monitor \<Rightarrow> bool" where
  "nobody_forgotten m \<longleftrightarrow> (Waits \<in> set (mo_threads m) \<longrightarrow> length (mo_pq m) \<le> place_sum coming m)"

lemma waits_goes: "Waits \<in> set (mo_threads (mo_goes m k p)) \<Longrightarrow> p \<noteq> Waits \<Longrightarrow> Waits \<in> set (mo_threads m)"
  by (auto simp add: mo_goes_def dest!: set_update_subset_insert [THEN subsetD])

lemma nobody_forgotten_goes:
  assumes "nobody_forgotten m" and "at_place m k p" and "p' \<noteq> Waits"
    and "mo_threads m' = mo_threads (mo_goes m k p')"
    and "length (mo_pq m') + coming p \<le> length (mo_pq m) + coming p'"
  shows "nobody_forgotten m'"
proof -
  have "place_sum coming m' + coming p = place_sum coming m + coming p'"
    using place_sum_goes [OF assms(2), of coming p'] assms(4) by (simp add: place_sum_def)
  moreover have "Waits \<in> set (mo_threads m') \<Longrightarrow> Waits \<in> set (mo_threads m)"
    using waits_goes [OF _ assms(3), of m k] assms(4) by simp
  ultimately show ?thesis using assms(1,5) by (auto simp add: nobody_forgotten_def)
qed

lemma nobody_forgotten_step:
  assumes "monitor_step m ev m'" and "nobody_forgotten m"
  shows "nobody_forgotten m'"
  using assms(1)
proof cases
  case (notifies k j)
  have "j \<noteq> k" using notifies by (auto simp add: at_place_def)
  note moved = at_place_goes [OF notifies(3,4) this, of Woken]
  have "place_sum coming m' = place_sum coming m"
    using place_sum_goes [OF notifies(4), of coming Woken] place_sum_goes [OF moved, of coming "Leaves Pushed"] notifies(2)
    by simp
  moreover have "Waits \<in> set (mo_threads m)" using notifies(4) nth_mem [of j "mo_threads m"] by (simp add: at_place_def)
  ultimately show ?thesis using notifies(2) assms(2) by (simp add: nobody_forgotten_def mo_goes_def)
next
  case (pops k i x q)
  have "length (mo_pq m) = Suc (length q)"
    using pops(4) by (auto simp add: wpq_Pop_def wpq_top_def split: if_splits)
  then show ?thesis
    using pops by (intro nobody_forgotten_goes [OF assms(2) pops(3), where p' = "Leaves (Popped x)"]) simp_all
next
  case (notifies_no_one k)
  then show ?thesis using waits_goes [of m k "Leaves Pushed"] by (auto simp add: nobody_forgotten_def)
next
  case (waits k)
  then show ?thesis by (simp add: nobody_forgotten_def wpq_IsEmpty_def mo_goes_def)
next
  case (locks k c)
  then show ?thesis by (intro nobody_forgotten_goes [OF assms(2) locks(3), where p' = "Inside c"]) simp_all
next
  case (calls k c)
  then show ?thesis by (intro nobody_forgotten_goes [OF assms(2) calls(3), where p' = "Locks c"]) simp_all
next
  case (pushes k x)
  then show ?thesis by (intro nobody_forgotten_goes [OF assms(2) pushes(3), where p' = "Notifies"]) (simp_all add: wpq_Push_def)
next
  case (wakes_up k)
  then show ?thesis by (intro nobody_forgotten_goes [OF assms(2) wakes_up(3), where p' = "Woken"]) (simp_all add: mo_goes_def)
next
  case (locks_again k)
  then show ?thesis by (intro nobody_forgotten_goes [OF assms(2) locks_again(3), where p' = "Inside Pop_call"]) simp_all
next
  case (counts k)
  then show ?thesis by (intro nobody_forgotten_goes [OF assms(2) counts(3), where p' = "Leaves (Counted (wpq_Size (mo_pq m)))"]) (simp_all add: mo_goes_def)
next
  case (tests k)
  then show ?thesis by (intro nobody_forgotten_goes [OF assms(2) tests(3), where p' = "Leaves (Emptiness (wpq_IsEmpty (mo_pq m)))"]) (simp_all add: mo_goes_def)
next
  case (leaves k a)
  then show ?thesis by (intro nobody_forgotten_goes [OF assms(2) leaves(3), where p' = "Outside"]) simp_all
qed

text \<open>The steps a thread can still make before it is outside or asleep, wake-ups included.\<close>

fun steps_left :: "'c wpq_place \<Rightarrow> nat" where
  "steps_left Outside = 0"
| "steps_left (Locks c) = 7"
| "steps_left (Inside (Push_call x)) = 6"
| "steps_left (Inside c) = 2"
| "steps_left Notifies = 5"
| "steps_left Waits = 0"
| "steps_left Woken = 3"
| "steps_left (Leaves a) = 1"

lemma steps_left_inside: "steps_left (Inside c) < 7"
  by (cases c) simp_all

text \<open>What comes from outside: calls, and wake-ups nobody asked for.\<close>

fun from_outside :: "'c wpq_event \<Rightarrow> nat" where
  "from_outside (Called k c) = 8"
| "from_outside (Spurious k) = 4"
| "from_outside _ = 0"

lemma steps_left_step:
  assumes "monitor_step m ev m'"
  shows "Suc (place_sum steps_left m') \<le> place_sum steps_left m + from_outside ev"
  using assms
proof cases
  case (notifies k j)
  have "j \<noteq> k" using notifies by (auto simp add: at_place_def)
  note moved = at_place_goes [OF notifies(3,4) this, of Woken]
  show ?thesis
    using place_sum_goes [OF notifies(4), of steps_left Woken]
      place_sum_goes [OF moved, of steps_left "Leaves Pushed"] notifies(1,2) by simp
next
  case (locks k c)
  then show ?thesis
    using place_sum_goes [OF locks(3), of steps_left "Inside c"] steps_left_inside [of c] by simp
next
  case (calls k c)
  then show ?thesis using place_sum_goes [OF calls(3), of steps_left "Locks c"] by simp
next
  case (pushes k x)
  then show ?thesis using place_sum_goes [OF pushes(3), of steps_left "Notifies"] by simp
next
  case (notifies_no_one k)
  then show ?thesis using place_sum_goes [OF notifies_no_one(3), of steps_left "Leaves Pushed"] by simp
next
  case (pops k i x q)
  then show ?thesis using place_sum_goes [OF pops(3), of steps_left "Leaves (Popped x)"] by simp
next
  case (waits k)
  then show ?thesis using place_sum_goes [OF waits(3), of steps_left "Waits"] by simp
next
  case (wakes_up k)
  then show ?thesis using place_sum_goes [OF wakes_up(3), of steps_left "Woken"] by simp
next
  case (locks_again k)
  then show ?thesis using place_sum_goes [OF locks_again(3), of steps_left "Inside Pop_call"] by simp
next
  case (counts k)
  then show ?thesis using place_sum_goes [OF counts(3), of steps_left "Leaves (Counted (wpq_Size (mo_pq m)))"] by simp
next
  case (tests k)
  then show ?thesis using place_sum_goes [OF tests(3), of steps_left "Leaves (Emptiness (wpq_IsEmpty (mo_pq m)))"] by simp
next
  case (leaves k a)
  then show ?thesis using place_sum_goes [OF leaves(3), of steps_left "Outside"] by simp
qed

definition resting :: "'c monitor \<Rightarrow> bool" where
  "resting m \<longleftrightarrow> (\<forall>ev m'. monitor_step m ev m' \<longrightarrow> from_outside ev \<noteq> 0)"

lemma restingD: "resting m \<Longrightarrow> monitor_step m ev m' \<Longrightarrow> from_outside ev \<noteq> 0"
  by (auto simp add: resting_def)

lemma body_moves:
  assumes "at_place m k p" and "in_body p"
  shows "\<exists>ev m'. monitor_step m ev m' \<and> from_outside ev = 0"
proof (cases p)
  case (Inside c)
  show ?thesis
  proof (cases c)
    case Pop_call
    show ?thesis
    proof (cases "mo_pq m = []")
      case True
      then show ?thesis
        using monitor_step.waits [of m k] assms(1) Inside Pop_call
        by (metis from_outside.simps(4) wpq_IsEmpty_def)
    next
      case False
      then obtain i x q where "wpq_Pop (mo_pq m) i = Some (x, q)" using wpq_Pop_possible by blast
      from monitor_step.pops [OF _ this, of k] show ?thesis
        using assms(1) Inside Pop_call by (metis from_outside.simps(3))
    qed
  next
    case (Push_call x)
    then show ?thesis using monitor_step.pushes [of m k x] assms(1) Inside by (metis from_outside.simps(3))
  next
    case Size_call
    then show ?thesis using monitor_step.counts [of m k] assms(1) Inside by (metis from_outside.simps(3))
  next
    case IsEmpty_call
    then show ?thesis using monitor_step.tests [of m k] assms(1) Inside by (metis from_outside.simps(3))
  qed
next
  case Notifies
  show ?thesis
  proof (cases "Waits \<in> set (mo_threads m)")
    case True
    then obtain j where "at_place m j Waits" by (auto simp add: in_set_conv_nth at_place_def)
    then show ?thesis using monitor_step.notifies assms(1) Notifies by (metis from_outside.simps(4))
  next
    case False
    then show ?thesis using monitor_step.notifies_no_one assms(1) Notifies by (metis from_outside.simps(4))
  qed
next
  case (Leaves a)
  then show ?thesis using monitor_step.leaves [of m k a] assms(1) by (metis from_outside.simps(5))
qed (use assms(2) in simp_all)

lemma resting_places:
  assumes "mutex_ok m" and "resting m" and "at_place m k p"
  shows "p = Outside \<or> p = Waits"
proof -
  have "mo_mutex m = None"
  proof (rule ccontr)
    assume "mo_mutex m \<noteq> None"
    then obtain j where "mo_mutex m = Some j" by auto
    then have "at_place m j (mo_threads m ! j)" "in_body (mo_threads m ! j)"
      using assms(1) by (auto simp add: mutex_ok_def at_place_def)
    from body_moves [OF this] assms(2) show False by (auto simp add: resting_def)
  qed
  then have "\<not> in_body p" using assms(1,3) by (auto simp add: mutex_ok_def at_place_def)
  moreover have "p \<noteq> Locks c" for c
  proof
    assume "p = Locks c"
    then have "at_place m k (Locks c)" using assms(3) by simp
    from monitor_step.locks [OF this \<open>mo_mutex m = None\<close>] assms(2) show False by (auto dest: restingD)
  qed
  moreover have "p \<noteq> Woken"
  proof
    assume "p = Woken"
    then have "at_place m k Woken" using assms(3) by simp
    from monitor_step.locks_again [OF this \<open>mo_mutex m = None\<close>] assms(2) show False by (auto dest: restingD)
  qed
  ultimately show ?thesis by (cases p) auto
qed

lemma resting_coming:
  assumes "mutex_ok m" and "resting m"
  shows "place_sum coming m = 0"
proof -
  have "coming p = 0" if "p \<in> set (mo_threads m)" for p
  proof -
    obtain k where "at_place m k p" using \<open>p \<in> set (mo_threads m)\<close> by (auto simp add: in_set_conv_nth at_place_def)
    from resting_places [OF assms this] show ?thesis by auto
  qed
  then show ?thesis by (simp add: place_sum_def)
qed

lemma new_monitor_ok: "mutex_ok (new_monitor n)" "nobody_forgotten (new_monitor n)" "place_sum steps_left (new_monitor n) = 0"
  by (auto simp add: new_monitor_def mutex_ok_def nobody_forgotten_def place_sum_def sum_list_replicate)

lemma run_keeps:
  assumes "monitor_run m evs m'" and "mutex_ok m" and "nobody_forgotten m"
  shows "mutex_ok m' \<and> nobody_forgotten m' \<and>
    length evs + place_sum steps_left m' \<le> place_sum steps_left m + sum_list (map from_outside evs)"
  using assms
proof (induction rule: monitor_run.induct)
  case (run_more m evs m1 ev m2)
  then show ?case
    using mutex_ok_step nobody_forgotten_step steps_left_step [OF run_more.hyps(2)] by fastforce
qed simp

text \<open>A thread waits for an element and gets it.\<close>

definition demo_wpq_events :: "unit wpq_event list" where
  "demo_wpq_events =
     [Called 0 Pop_call, Goes 0, Goes 0, Called 1 (Push_call StopCommand),
      Goes 1, Commits 1 (Push_call StopCommand) Pushed, Goes 1, Returned 1 Pushed,
      Goes 0, Commits 0 Pop_call (Popped StopCommand), Returned 0 (Popped StopCommand)]"

lemma run_then:
  "monitor_step m ev m1 \<Longrightarrow> m1 = m2 \<Longrightarrow> monitor_run m2 evs m' \<Longrightarrow> monitor_run m (ev # evs) m'"
proof -
  assume step: "monitor_step m ev m1" "m1 = m2" and "monitor_run m2 evs m'"
  from \<open>monitor_run m2 evs m'\<close> step show "monitor_run m (ev # evs) m'"
  proof (induction rule: monitor_run.induct)
    case (run_none m2)
    then show ?case using run_more [OF monitor_run.run_none] by fastforce
  next
    case (run_more m2 evs m1' ev' m2')
    then show ?case using monitor_run.run_more [of m "ev # evs" m1' ev' m2'] by simp
  qed
qed

lemma demo_wpq_run: "monitor_run (new_monitor 2) demo_wpq_events (new_monitor 2)"
proof -
  have pop: "wpq_Pop [StopCommand :: 'c command] 0 = Some (StopCommand, [])"
    by (simp add: wpq_Pop_def wpq_top_def command_less_def)
  note places = new_monitor_def at_place_def mo_goes_def wpq_Push_def wpq_IsEmpty_def numeral_2_eq_2
  have ends: "monitor_run (new_monitor 2) [] (new_monitor 2)" by (rule monitor_run.run_none)
  have r10: "monitor_run \<lparr>mo_pq = [], mo_mutex = Some 0, mo_threads = [Leaves (Popped StopCommand), Outside]\<rparr>
      [Returned 0 (Popped StopCommand)] (new_monitor 2)"
    by (rule run_then [OF monitor_step.leaves _ ends]) (simp_all add: places pop)
  have r9: "monitor_run \<lparr>mo_pq = [StopCommand], mo_mutex = Some 0, mo_threads = [Inside Pop_call, Outside]\<rparr>
      [Commits 0 Pop_call (Popped StopCommand), Returned 0 (Popped StopCommand)] (new_monitor 2)"
    by (rule run_then [OF monitor_step.pops [where i = 0] _ r10]) (simp_all add: places pop)
  have r8: "monitor_run \<lparr>mo_pq = [StopCommand], mo_mutex = None, mo_threads = [Woken, Outside]\<rparr>
      [Goes 0, Commits 0 Pop_call (Popped StopCommand), Returned 0 (Popped StopCommand)] (new_monitor 2)"
    by (rule run_then [OF monitor_step.locks_again _ r9]) (simp_all add: places pop)
  have r7: "monitor_run \<lparr>mo_pq = [StopCommand], mo_mutex = Some 1, mo_threads = [Woken, Leaves Pushed]\<rparr>
      [Returned 1 Pushed, Goes 0, Commits 0 Pop_call (Popped StopCommand), Returned 0 (Popped StopCommand)] (new_monitor 2)"
    by (rule run_then [OF monitor_step.leaves _ r8]) (simp_all add: places pop)
  have r6: "monitor_run \<lparr>mo_pq = [StopCommand], mo_mutex = Some 1, mo_threads = [Waits, Notifies]\<rparr>
      [Goes 1, Returned 1 Pushed, Goes 0, Commits 0 Pop_call (Popped StopCommand), Returned 0 (Popped StopCommand)] (new_monitor 2)"
    by (rule run_then [OF monitor_step.notifies [where j = 0] _ r7]) (simp_all add: places pop)
  have r5: "monitor_run \<lparr>mo_pq = [], mo_mutex = Some 1, mo_threads = [Waits, Inside (Push_call StopCommand)]\<rparr>
      [Commits 1 (Push_call StopCommand) Pushed, Goes 1, Returned 1 Pushed, Goes 0, Commits 0 Pop_call (Popped StopCommand), Returned 0 (Popped StopCommand)] (new_monitor 2)"
    by (rule run_then [OF monitor_step.pushes _ r6]) (simp_all add: places pop)
  have r4: "monitor_run \<lparr>mo_pq = [], mo_mutex = None, mo_threads = [Waits, Locks (Push_call StopCommand)]\<rparr>
      [Goes 1, Commits 1 (Push_call StopCommand) Pushed, Goes 1, Returned 1 Pushed, Goes 0, Commits 0 Pop_call (Popped StopCommand), Returned 0 (Popped StopCommand)] (new_monitor 2)"
    by (rule run_then [OF monitor_step.locks _ r5]) (simp_all add: places pop)
  have r3: "monitor_run \<lparr>mo_pq = [], mo_mutex = None, mo_threads = [Waits, Outside]\<rparr>
      [Called 1 (Push_call StopCommand), Goes 1, Commits 1 (Push_call StopCommand) Pushed, Goes 1, Returned 1 Pushed, Goes 0, Commits 0 Pop_call (Popped StopCommand), Returned 0 (Popped StopCommand)] (new_monitor 2)"
    by (rule run_then [OF monitor_step.calls _ r4]) (simp_all add: places pop)
  have r2: "monitor_run \<lparr>mo_pq = [], mo_mutex = Some 0, mo_threads = [Inside Pop_call, Outside]\<rparr>
      [Goes 0, Called 1 (Push_call StopCommand), Goes 1, Commits 1 (Push_call StopCommand) Pushed, Goes 1, Returned 1 Pushed, Goes 0, Commits 0 Pop_call (Popped StopCommand), Returned 0 (Popped StopCommand)] (new_monitor 2)"
    by (rule run_then [OF monitor_step.waits _ r3]) (simp_all add: places pop)
  have r1: "monitor_run \<lparr>mo_pq = [], mo_mutex = None, mo_threads = [Locks Pop_call, Outside]\<rparr>
      [Goes 0, Goes 0, Called 1 (Push_call StopCommand), Goes 1, Commits 1 (Push_call StopCommand) Pushed, Goes 1, Returned 1 Pushed, Goes 0, Commits 0 Pop_call (Popped StopCommand), Returned 0 (Popped StopCommand)] (new_monitor 2)"
    by (rule run_then [OF monitor_step.locks _ r2]) (simp_all add: places pop)
  show ?thesis
    unfolding demo_wpq_events_def by (rule run_then [OF monitor_step.calls _ r1]) (simp_all add: places)
qed

section \<open>Properties\<close>





end
