(* ===== verification/Singleton.thy ===== *)
theory Singleton
  imports Lds_Prelude
begin

text \<open>
  \<^verbatim>\<open>Singleton<T>::GetInstance\<close> (\<^verbatim>\<open>design_patterns/singleton\<close>) called by any number of threads, one
  atomic access of the pointer, the mutex or the owner per step, and the table of
  \<^verbatim>\<open>design_patterns/factory\<close>. Addresses of objects are numbers; the constructor of \<^verbatim>\<open>T\<close> may throw.
\<close>

section \<open>Double-checked locking\<close>

text \<open>Where a thread is in \<^verbatim>\<open>GetInstance\<close>.\<close>

datatype caller =
    Called
  | Wants_lock
  | Holds_lock
  | Constructs
  | Stores nat
  | Unlocks nat
  | Got nat
  | Failed exn

record singleton =
  sg_instance :: "nat option"
  sg_owner :: "nat option"
  sg_lock :: "nat option"
  sg_callers :: "nat \<Rightarrow> caller"
  sg_made :: nat

definition new_Singleton :: singleton where
  "new_Singleton = \<lparr>sg_instance = None, sg_owner = None, sg_lock = None,
     sg_callers = (\<lambda>t. Called), sg_made = 0\<rparr>"

definition goes_to :: "singleton \<Rightarrow> nat \<Rightarrow> caller \<Rightarrow> singleton" where
  "goes_to s t c = s\<lparr>sg_callers := (sg_callers s)(t := c)\<rparr>"

text \<open>The statements of \<^verbatim>\<open>GetInstance\<close> in their order, \<open>made\<close> what \<^verbatim>\<open>new T()\<close> gives.\<close>

fun GetInstance :: "nat outcome \<Rightarrow> nat \<Rightarrow> singleton \<Rightarrow> singleton option" where
  "GetInstance made t s =
     (case sg_callers s t of
        Called \<Rightarrow>
          (case sg_instance s of
             Some p \<Rightarrow> Some (goes_to s t (Got p))
           | None \<Rightarrow> Some (goes_to s t Wants_lock))
      | Wants_lock \<Rightarrow>
          (if sg_lock s = None then Some (goes_to (s\<lparr>sg_lock := Some t\<rparr>) t Holds_lock) else None)
      | Holds_lock \<Rightarrow>
          (case sg_instance s of
             Some p \<Rightarrow> Some (goes_to s t (Unlocks p))
           | None \<Rightarrow> Some (goes_to s t Constructs))
      | Constructs \<Rightarrow>
          (case made of
             Returns p \<Rightarrow> Some (goes_to (s\<lparr>sg_owner := Some p, sg_made := Suc (sg_made s)\<rparr>) t (Stores p))
           | Throws e \<Rightarrow> Some (goes_to (s\<lparr>sg_lock := None\<rparr>) t (Failed e))
           | _ \<Rightarrow> None)
      | Stores p \<Rightarrow> Some (goes_to (s\<lparr>sg_instance := Some p\<rparr>) t (Unlocks p))
      | Unlocks p \<Rightarrow> Some (goes_to (s\<lparr>sg_lock := None\<rparr>) t (Got p))
      | Got p \<Rightarrow> None
      | Failed e \<Rightarrow> None)"

declare GetInstance.simps [simp del]

inductive singleton_run :: "singleton \<Rightarrow> bool" where
  run_start: "singleton_run new_Singleton"
| run_step: "singleton_run s \<Longrightarrow> GetInstance made t s = Some s' \<Longrightarrow> singleton_run s'"

text \<open>The mutex is held by the one thread that is inside; only there are objects made.\<close>

fun inside :: "caller \<Rightarrow> bool" where
  "inside Called = False"
| "inside Wants_lock = False"
| "inside (Got p) = False"
| "inside (Failed e) = False"
| "inside c = True"

text \<open>What each place of a caller says about the pointer and the objects made.\<close>

fun place_ok :: "nat option \<Rightarrow> nat option \<Rightarrow> nat \<Rightarrow> caller \<Rightarrow> bool" where
  "place_ok inst own made Holds_lock = (made = (if inst = None then 0 else 1))"
| "place_ok inst own made Constructs = (inst = None \<and> made = 0)"
| "place_ok inst own made (Stores p) = (inst = None \<and> own = Some p \<and> made = 1)"
| "place_ok inst own made (Unlocks p) = (inst = Some p)"
| "place_ok inst own made (Got p) = (inst = Some p)"
| "place_ok inst own made c = True"

definition singleton_inv :: "singleton \<Rightarrow> bool" where
  "singleton_inv s \<longleftrightarrow>
     (\<forall>t. inside (sg_callers s t) \<longleftrightarrow> sg_lock s = Some t) \<and>
     (\<forall>t. place_ok (sg_instance s) (sg_owner s) (sg_made s) (sg_callers s t)) \<and>
     (\<forall>p. sg_instance s = Some p \<longrightarrow> sg_owner s = Some p \<and> sg_made s = 1) \<and>
     (sg_lock s = None \<longrightarrow> sg_made s = (if sg_instance s = None then 0 else 1))"

lemma place_ok_outside:
  "place_ok i ow m c \<Longrightarrow> \<not> inside c \<Longrightarrow> (\<And>p. i = Some p \<Longrightarrow> i' = Some p) \<Longrightarrow> place_ok i' ow' m' c"
  by (cases c) auto

lemma singleton_step_inv:
  assumes "singleton_inv s" and "GetInstance made t s = Some s'"
  shows "singleton_inv s'"
proof -
  have lock: "\<And>u. inside (sg_callers s u) \<longleftrightarrow> sg_lock s = Some u"
    and ok: "\<And>u. place_ok (sg_instance s) (sg_owner s) (sg_made s) (sg_callers s u)"
    and inst: "\<And>p. sg_instance s = Some p \<Longrightarrow> sg_owner s = Some p \<and> sg_made s = 1"
    and free: "sg_lock s = None \<Longrightarrow> sg_made s = (if sg_instance s = None then 0 else 1)"
    using assms(1) by (auto simp add: singleton_inv_def)
  have others: "sg_callers s' u = sg_callers s u" if "u \<noteq> t" for u
    using assms(2) that by (auto simp add: GetInstance.simps goes_to_def split: caller.splits option.splits outcome.splits if_splits)
  have kept: "place_ok (sg_instance s') (sg_owner s') (sg_made s') (sg_callers s u)" if "u \<noteq> t" for u
  proof (cases "inside (sg_callers s t)")
    case True
    have "sg_instance s' = Some p" if "sg_instance s = Some p" for p
      using assms(2) that ok [of t]
      by (auto simp add: GetInstance.simps goes_to_def split: caller.splits option.splits outcome.splits if_splits)
    moreover have "\<not> inside (sg_callers s u)" using True lock \<open>u \<noteq> t\<close> by auto
    ultimately show ?thesis using place_ok_outside [OF ok [of u]] by blast
  next
    case False
    then have "sg_instance s' = sg_instance s" "sg_owner s' = sg_owner s" "sg_made s' = sg_made s"
      using assms(2) by (auto simp add: GetInstance.simps goes_to_def split: caller.splits option.splits if_splits)
    with ok [of u] show ?thesis by simp
  qed
  have "place_ok (sg_instance s') (sg_owner s') (sg_made s') (sg_callers s' t) \<and>
      (inside (sg_callers s' t) \<longleftrightarrow> sg_lock s' = Some t) \<and>
      (\<forall>u. u \<noteq> t \<longrightarrow> (sg_lock s' = Some u) = (sg_lock s = Some u)) \<and>
      (\<forall>p. sg_instance s' = Some p \<longrightarrow> sg_owner s' = Some p \<and> sg_made s' = 1) \<and>
      (sg_lock s' = None \<longrightarrow> sg_made s' = (if sg_instance s' = None then 0 else 1))"
    using assms(2) ok [of t] lock [of t] inst free
    by (cases "sg_callers s t")
      (auto simp add: GetInstance.simps goes_to_def split: option.splits outcome.splits if_splits)
  moreover have "inside (sg_callers s' u) \<longleftrightarrow> sg_lock s' = Some u" for u
    using calculation others [of u] lock [of u] by (cases "u = t") auto
  moreover have "place_ok (sg_instance s') (sg_owner s') (sg_made s') (sg_callers s' u)" for u
    using calculation(1) others [of u] kept [of u] by (cases "u = t") auto
  ultimately show ?thesis unfolding singleton_inv_def by blast
qed

lemma singleton_run_inv: "singleton_run s \<Longrightarrow> singleton_inv s"
proof (induction rule: singleton_run.induct)
  case run_start
  then show ?case by (simp add: singleton_inv_def new_Singleton_def)
qed (rule singleton_step_inv)

text \<open>C37: However the threads that call \<^verbatim>\<open>GetInstance\<close> are interleaved, at most one object is ever made,
  every thread that gets a pointer gets that object, which the owner keeps, and no thread is stuck:
  whenever a caller has neither a pointer nor an exception some caller can go on. A constructor
  that throws gives the mutex back, and a later caller tries again.\<close>

theorem singleton_one_instance:
  assumes "singleton_run s"
  shows "sg_made s \<le> 1 \<and>
    (\<forall>t p. sg_callers s t = Got p \<longrightarrow> sg_owner s = Some p \<and> sg_instance s = Some p) \<and>
    ((\<forall>p. sg_callers s t \<noteq> Got p) \<and> (\<forall>e. sg_callers s t \<noteq> Failed e) \<longrightarrow>
       (\<exists>u s'. GetInstance (Returns q) u s = Some s'))"
proof (intro conjI allI impI)
  have inv: "singleton_inv s" by (rule singleton_run_inv [OF assms])
  then have ok: "\<And>u. place_ok (sg_instance s) (sg_owner s) (sg_made s) (sg_callers s u)"
    and lock: "\<And>u. inside (sg_callers s u) \<longleftrightarrow> sg_lock s = Some u"
    by (auto simp add: singleton_inv_def)
  show "sg_made s \<le> 1"
  proof (cases "sg_lock s")
    case None
    with inv show ?thesis by (simp add: singleton_inv_def split: if_splits)
  next
    case (Some u)
    with lock [of u] ok [of u] inv show ?thesis
      by (cases "sg_callers s u") (auto simp add: singleton_inv_def split: if_splits)
  qed
  show "sg_owner s = Some p" "sg_instance s = Some p" if "sg_callers s t = Got p" for t p
    using that ok [of t] inv by (simp_all add: singleton_inv_def)
  assume "(\<forall>p. sg_callers s t \<noteq> Got p) \<and> (\<forall>e. sg_callers s t \<noteq> Failed e)"
  then consider "sg_lock s = None" | u where "sg_lock s = Some u" by (cases "sg_lock s") auto
  then show "\<exists>u s'. GetInstance (Returns q) u s = Some s'"
  proof cases
    case 1
    with \<open>(\<forall>p. sg_callers s t \<noteq> Got p) \<and> (\<forall>e. sg_callers s t \<noteq> Failed e)\<close> lock [of t]
    have "\<exists>s'. GetInstance (Returns q) t s = Some s'"
      by (cases "sg_callers s t"; cases "sg_instance s") (auto simp add: GetInstance.simps)
    then show ?thesis by blast
  next
    case (2 u)
    with lock [of u] have "\<exists>s'. GetInstance (Returns q) u s = Some s'"
      by (cases "sg_callers s u"; cases "sg_instance s") (auto simp add: GetInstance.simps)
    then show ?thesis by blast
  qed
qed

text \<open>
  Two threads past the first test: the first one's constructor throws, the second makes the
  object, a third one finds it.
\<close>

definition demo_turns :: "(nat outcome \<times> nat) list" where
  "demo_turns = [(Blocks, 0), (Blocks, 1), (Blocks, 0), (Blocks, 0), (Throws (Logger_error ''''), 0),
     (Blocks, 1), (Blocks, 1), (Returns 9, 1), (Blocks, 1), (Blocks, 2)]"

fun take_turns :: "(nat outcome \<times> nat) list \<Rightarrow> singleton \<Rightarrow> singleton option" where
  "take_turns [] s = Some s"
| "take_turns (mt # mts) s = Option.bind (GetInstance (fst mt) (snd mt) s) (take_turns mts)"

lemma take_turns_run: "take_turns mts s = Some s' \<Longrightarrow> singleton_run s \<Longrightarrow> singleton_run s'"
  by (induction mts arbitrary: s) (auto simp add: bind_eq_Some_conv intro: run_step)

theorem singleton_one_instance_witness:
  "\<exists>s. take_turns demo_turns new_Singleton = Some s \<and> sg_callers s 0 = Failed (Logger_error '''') \<and>
     sg_callers s 1 = Unlocks 9 \<and> sg_callers s 2 = Got 9 \<and> sg_made s \<le> 1 \<and> sg_owner s = Some 9 \<and>
     (\<exists>u s'. GetInstance (Returns 5) u s = Some s')"
proof -
  have "\<exists>s. take_turns demo_turns new_Singleton = Some s \<and> sg_callers s 0 = Failed (Logger_error '''') \<and>
     sg_callers s 1 = Unlocks 9 \<and> sg_callers s 2 = Got 9"
    by (simp add: demo_turns_def GetInstance.simps goes_to_def new_Singleton_def)
  then obtain s where s: "take_turns demo_turns new_Singleton = Some s" "sg_callers s 0 = Failed (Logger_error '''')"
    "sg_callers s 1 = Unlocks 9" "sg_callers s 2 = Got 9" by blast
  from singleton_one_instance [OF take_turns_run [OF s(1) run_start], of 1 5] s show ?thesis by auto
qed

section \<open>The factory\<close>

text \<open>A table of creators; \<^verbatim>\<open>Create\<close> with a key that was never added throws.\<close>

type_synonym ('k, 'a, 'b) factory = "'k \<Rightarrow> ('a \<Rightarrow> 'b outcome) option"

definition new_Factory :: "('k, 'a, 'b) factory" where
  "new_Factory = (\<lambda>k. None)"

definition Factory_Add :: "('k, 'a, 'b) factory \<Rightarrow> 'k \<Rightarrow> ('a \<Rightarrow> 'b outcome) \<Rightarrow> ('k, 'a, 'b) factory" where
  "Factory_Add table key createfunc = table(key \<mapsto> createfunc)"

definition Factory_Create :: "('k, 'a, 'b) factory \<Rightarrow> 'k \<Rightarrow> 'a \<Rightarrow> 'b outcome" where
  "Factory_Create table key args =
     (case table key of
        None \<Rightarrow> Throws (Out_of_range ''unordered_map::at'')
      | Some createfunc \<Rightarrow> createfunc args)"

lemma factory_last_added:
  "Factory_Create (fold (\<lambda>(k, f) t. Factory_Add t k f) kfs new_Factory) key args =
     (case map_of (rev kfs) key of
        None \<Rightarrow> Throws (Out_of_range ''unordered_map::at'')
      | Some f \<Rightarrow> f args)"
proof -
  have "fold (\<lambda>(k, f) t. Factory_Add t k f) kfs new_Factory = map_of (rev kfs)"
    by (induction kfs rule: rev_induct) (auto simp add: new_Factory_def Factory_Add_def)
  then show ?thesis by (simp add: Factory_Create_def)
qed

end
