(* ===== verification/Side_Programs.thy ===== *)
theory Side_Programs
  imports Plugin_Loader Singleton Storage_Minion
begin

text \<open>
  Code of the tree that the server does not link: the minion the memory minion came from
  (\<^verbatim>\<open>StorageMinion\<close>), the sample plugin and the demo program of the inotify wrapper. The first is
  the memory minion under another name and keeps its contract; the others show the factory and the
  read loop at work.
\<close>

section \<open>StorageMinion\<close>

record old_minion =
  om_data :: vec
  om_size :: size_t
  om_offset_sizes :: "(size_t, size_t) omap"

definition StorageMinion :: "size_t \<Rightarrow> old_minion" where
  "StorageMinion size_bytes =
     \<lparr>om_data = replicate (unat size_bytes) 0, om_size = size_bytes, om_offset_sizes = []\<rparr>"

definition StorageMinion_Read :: "old_minion \<Rightarrow> size_t \<Rightarrow> vec \<Rightarrow> vec outcome" where
  "StorageMinion_Read m offset buf =
     (if offset + vsize buf > om_size m
      then Throws (Out_of_range ''Read exceeds minion bounds'')
      else if unat offset + length buf > length (om_data m) then Undef
      else Returns (subvec (om_data m) (unat offset) (length buf)))"

definition StorageMinion_Write :: "old_minion \<Rightarrow> size_t \<Rightarrow> vec \<Rightarrow> old_minion \<times> unit outcome" where
  "StorageMinion_Write m offset buf =
     (if offset + vsize buf > om_size m
      then (m, Throws (Out_of_range ''Write exceeds minion bounds''))
      else if unat offset + length buf > length (om_data m) then (m, Undef)
      else (m\<lparr>om_data := copy_into (om_data m) (unat offset) buf,
              om_offset_sizes := map_put offset (vsize buf) (om_offset_sizes m)\<rparr>,
            Returns ()))"

definition StorageMinion_GetDataSize :: "old_minion \<Rightarrow> size_t \<Rightarrow> size_t" where
  "StorageMinion_GetDataSize m offset =
     (case map_of (om_offset_sizes m) offset of Some n \<Rightarrow> n | None \<Rightarrow> 0)"

definition StorageMinion_Size :: "old_minion \<Rightarrow> size_t" where
  "StorageMinion_Size m = om_size m"

text \<open>The memory minion it became.\<close>

definition as_memory :: "old_minion \<Rightarrow> minion_memory" where
  "as_memory m = \<lparr>mm_data = om_data m, mm_size = om_size m, mm_offset_sizes = om_offset_sizes m\<rparr>"

lemma as_memory_fields [simp]:
  "mm_data (as_memory m) = om_data m" "mm_size (as_memory m) = om_size m"
  by (simp_all add: as_memory_def)

theorem old_minion_is_memory:
  "as_memory (StorageMinion n) = StorageMinionMemory n \<and>
   StorageMinion_Read m off buf = memory_Read (as_memory m) off buf \<and>
   memory_Write (as_memory m) off buf = (case StorageMinion_Write m off buf of (m', oc) \<Rightarrow> (as_memory m', oc)) \<and>
   StorageMinion_GetDataSize m off = memory_GetDataSize (as_memory m) off"
  by (simp add: as_memory_def StorageMinion_def StorageMinionMemory_def StorageMinion_Read_def memory_Read_def
      StorageMinion_Write_def memory_Write_def StorageMinion_GetDataSize_def memory_GetDataSize_def size_at_def)

interpretation old: storage_minion StorageMinion_Read StorageMinion_Write StorageMinion_GetDataSize
  StorageMinion_Size om_data "\<lambda>m. memory_ok (as_memory m)"
proof (unfold_locales, goal_cases)
  case (1 m)
  then show ?case using mem.content_length [OF 1] by (simp add: StorageMinion_Size_def)
next
  case (2 m off buf)
  then show ?case using mem.read_inside [OF 2(1), of off buf] old_minion_is_memory [of _ m off buf]
    by (simp add: StorageMinion_Size_def)
next
  case (3 m off buf)
  then show ?case using mem.read_outside [OF 3(1), of off buf] old_minion_is_memory [of _ m off buf]
    by (simp add: StorageMinion_Size_def)
next
  case (4 m off buf)
  then have "unat off + length buf \<le> unat (mm_size (as_memory m))" by (simp add: StorageMinion_Size_def)
  from mem.write_inside [OF 4(1) this]
  obtain m' where w: "memory_Write (as_memory m) off buf = (m', Returns ())" "memory_ok m'"
    "mm_size m' = om_size m" "mm_data m' = copy_into (om_data m) (unat off) buf"
    "memory_GetDataSize m' = (memory_GetDataSize (as_memory m))(off := vsize buf)" by auto
  obtain m1 oc where m1: "StorageMinion_Write m off buf = (m1, oc)" by fastforce
  with w(1) old_minion_is_memory [of _ m off buf] have "oc = Returns ()" "m' = as_memory m1" by auto
  moreover have "StorageMinion_GetDataSize x = memory_GetDataSize (as_memory x)" for x
    using old_minion_is_memory [of _ x] by auto
  ultimately show ?case using w m1 by (auto simp add: StorageMinion_Size_def)
next
  case (5 m off buf)
  then have "unat (mm_size (as_memory m)) < unat off + length buf" by (simp add: StorageMinion_Size_def)
  from mem.write_outside [OF 5(1,2) this] show ?case
    by (auto simp add: StorageMinion_Write_def memory_Write_def split: if_splits)
qed

section \<open>The sample plugin\<close>

text \<open>The lines it prints, in UTF-8.\<close>

definition line_main :: string where
  "line_main = [CHR 0xE2, CHR 0x9A, CHR 0xA1] @ '' [SamplePlugin] Main trigger executed!'' @ newline"

definition line_starting :: string where
  "line_starting = [CHR 0xE2, CHR 0x9A, CHR 0x99, CHR 0xEF, CHR 0xB8, CHR 0x8F] @ ''  [PluginInitializer] Starting...'' @ newline"

definition line_complete :: string where
  "line_complete = [CHR 0xE2, CHR 0x9C, CHR 0x85] @ '' [PluginInitializer] Complete'' @ newline"

definition line_cleanup :: string where
  "line_cleanup = [CHR 0xE2, CHR 0x9A, CHR 0x99, CHR 0xEF, CHR 0xB8, CHR 0x8F] @ ''  [PluginInitializer] Cleanup...'' @ newline"

definition line_done :: string where
  "line_done = [CHR 0xE2, CHR 0x9C, CHR 0x85] @ '' [PluginInitializer] Done'' @ newline"

definition SamplePlugin_main :: "string \<Rightarrow> string" where
  "SamplePlugin_main cout = cout @ line_main"

text \<open>What runs inside \<^verbatim>\<open>dlopen\<close> and \<^verbatim>\<open>dlclose\<close>, on the table of the one \<^verbatim>\<open>PluginFactory\<close> and the output.\<close>

type_synonym plugin_factory = "(string, unit, string \<Rightarrow> string) factory"

definition init_plugin :: "plugin_factory \<Rightarrow> string \<Rightarrow> (plugin_factory \<times> string) \<times> unit outcome" where
  "init_plugin table cout =
     (let cout1 = cout @ line_starting;
          table1 = Factory_Add table ''main'' (\<lambda>u. Returns SamplePlugin_main)
      in case Factory_Create table1 ''main'' () of
           Returns func \<Rightarrow> ((table1, func cout1 @ line_complete), Returns ())
         | Throws e \<Rightarrow> ((table1, cout1), Throws e)
         | Blocks \<Rightarrow> ((table1, cout1), Blocks)
         | Dies \<Rightarrow> ((table1, cout1), Dies)
         | Undef \<Rightarrow> ((table1, cout1), Undef))"

definition cleanup_plugin :: "string \<Rightarrow> string" where
  "cleanup_plugin cout = cout @ line_cleanup @ line_done"

text \<open>Whatever was registered before, the plugin runs its own \<^verbatim>\<open>main\<close>.\<close>

lemma init_plugin_runs:
  "\<exists>table'. init_plugin table cout = ((table', cout @ line_starting @ line_main @ line_complete), Returns ()) \<and>
    Factory_Create table' ''main'' () = Returns SamplePlugin_main \<and> (\<forall>k. k \<noteq> ''main'' \<longrightarrow> table' k = table k)"
  by (simp add: init_plugin_def Factory_Add_def Factory_Create_def SamplePlugin_main_def Let_def)

section \<open>The demo of the inotify wrapper\<close>

definition IN_DELETE :: u32 where "IN_DELETE = 0x200"

record demo_state =
  de_eventCount :: int
  de_cout :: string
  de_cerr :: string

definition event_kind :: "inotify_event \<Rightarrow> string" where
  "event_kind e =
     (if getFlags e AND IN_CREATE \<noteq> 0 then ''creation''
      else if getFlags e AND IN_DELETE \<noteq> 0 then ''deletion''
      else ''unknown'')"

definition event_text :: "inotify_event \<Rightarrow> string" where
  "event_text e = ''An event occurred!'' @ newline @ '' * Name : '' @ getName e @ newline @
     '' * Type : '' @ event_kind e @ newline @ newline"

definition MyEventHandler_handle :: "nat \<Rightarrow> inotify_event \<Rightarrow> demo_state \<Rightarrow> demo_state \<times> bool outcome" where
  "MyEventHandler_handle h e w =
     (let w1 = w\<lparr>de_cout := de_cout w @ event_text e, de_eventCount := de_eventCount w + 1\<rparr>
      in (w1, Returns (de_eventCount w1 = 5)))"

text \<open>
  \<^verbatim>\<open>main\<close>; nothing catches what the manager and the watch throw. Without even a name of the program
  in \<^verbatim>\<open>argv\<close> a null pointer would be printed.
\<close>

definition demo_main ::
  "string list \<Rightarrow> inotify_answers \<Rightarrow> nat \<Rightarrow> watch_read list \<Rightarrow> demo_state \<times> int outcome" where
  "demo_main argv an h reads =
     (let w = \<lparr>de_eventCount = 0, de_cout = '''', de_cerr = ''''\<rparr>
      in if argv = [] then (w, Undef)
         else if length argv \<noteq> 2
         then (w\<lparr>de_cerr := ''Please specify a directory to watch.'' @ newline @
                 ''usage: '' @ hd argv @ '' <directory_path>'' @ newline\<rparr>, Returns 1)
         else case new_InotifyManager (an_init_fd an) of
             Returns m \<Rightarrow>
               (case addWatch (an_wd an) (an_strerror an) (argv ! 1) (IN_CREATE OR IN_DELETE) m of
                  (m1, Returns wt) \<Rightarrow>
                    (let wt1 = addEventHandler wt h;
                         m2 = m1\<lparr>im_watchSet := map_put (iw_wd wt1) (Some wt1) (im_watchSet m1)\<rparr>
                     in case startWatching MyEventHandler_handle reads (m2, w) of
                          ((m3, w1), Returns u) \<Rightarrow> (w1, Returns 0)
                        | ((m3, w1), Throws e) \<Rightarrow> (w1, Dies)
                        | ((m3, w1), Blocks) \<Rightarrow> (w1, Blocks)
                        | ((m3, w1), Dies) \<Rightarrow> (w1, Dies)
                        | ((m3, w1), Undef) \<Rightarrow> (w1, Undef))
                | (m1, _) \<Rightarrow> (w, Dies))
           | _ \<Rightarrow> (w, Dies))"

lemma demo_loop:
  assumes "im_watchSet m = [(wd, Some wt)]" and "iw_handlers wt = [(h, ())]"
    and "\<forall>r \<in> set reads. read_ok r \<and> ie_wd (hd (rd_events r)) = wd" and "de_eventCount w = int n" and "n < 5"
  shows "\<exists>w'. readLoop MyEventHandler_handle reads (m, w) =
      ((m, w'), if 5 \<le> n + length reads then Returns () else Blocks) \<and>
    de_cout w' = de_cout w @ concat (map (event_text \<circ> hd \<circ> rd_events) (take (5 - n) reads)) \<and> de_cerr w' = de_cerr w"
  using assms(3-5)
proof (induction reads arbitrary: w n)
  case (Cons r rs)
  have r: "read_ok r" "ie_wd (hd (rd_events r)) = wd" using Cons.prems(1) by simp_all
  then obtain e es where e: "rd_events r = e # es" "ie_wd e = wd" by (cases "rd_events r") (auto simp add: read_ok_def)
  let ?w = "w\<lparr>de_cout := de_cout w @ event_text e, de_eventCount := de_eventCount w + 1\<rparr>"
  have slot: "watch_slot wd m = m" "map_of (im_watchSet m) wd = Some (Some wt)"
    using assms(1) by (simp_all add: watch_slot_def)
  have step: "readLoop MyEventHandler_handle (r # rs) (m, w) =
      (if n = 4 then ((m, ?w), Returns ()) else readLoop MyEventHandler_handle rs (m, ?w))"
    using Cons.prems(2) e slot read_ok_positive [OF r(1)]
    by (simp add: trigger_def assms(2) MyEventHandler_handle_def Let_def)
  show ?case
  proof (cases "n = 4")
    case True
    then show ?thesis using step e by simp
  next
    case False
    then have "Suc n < 5" "5 - n = Suc (5 - Suc n)" using Cons.prems(3) by simp_all
    moreover obtain w' where "readLoop MyEventHandler_handle rs (m, ?w) =
        ((m, w'), if 5 \<le> Suc n + length rs then Returns () else Blocks)"
      "de_cout w' = de_cout ?w @ concat (map (event_text \<circ> hd \<circ> rd_events) (take (5 - Suc n) rs))"
      "de_cerr w' = de_cerr ?w"
      using Cons.IH [of ?w "Suc n"] Cons.prems \<open>Suc n < 5\<close> by (auto simp add: comp_def)
    ultimately show ?thesis using step False e by (simp add: comp_def del: readLoop.simps)
  qed
qed simp

text \<open>The demo tells of five events, the first of each read, and ends; until then it waits.\<close>

theorem demo_ends_after_five:
  assumes "length argv = 2" and "an_init_fd an \<noteq> -1" and "an_wd an \<noteq> -1"
    and "\<forall>r \<in> set reads. read_ok r \<and> ie_wd (hd (rd_events r)) = an_wd an"
  shows "\<exists>w. demo_main argv an h reads = (w, if 5 \<le> length reads then Returns 0 else Blocks) \<and>
    de_cout w = concat (map (event_text \<circ> hd \<circ> rd_events) (take 5 reads)) \<and> de_cerr w = ''''"
proof -
  let ?w = "\<lparr>de_eventCount = 0, de_cout = '''', de_cerr = ''''\<rparr>"
  let ?wt = "\<lparr>iw_path = argv ! 1, iw_flags = IN_CREATE OR IN_DELETE, iw_wd = an_wd an, iw_handlers = [(h, ())]\<rparr>"
  let ?m = "\<lparr>im_fd = an_init_fd an, im_watchSet = [(an_wd an, Some ?wt)]\<rparr>"
  have "\<exists>w'. readLoop MyEventHandler_handle reads (?m, ?w) =
      ((?m, w'), if 5 \<le> 0 + length reads then Returns () else Blocks) \<and>
    de_cout w' = de_cout ?w @ concat (map (event_text \<circ> hd \<circ> rd_events) (take (5 - 0) reads)) \<and>
    de_cerr w' = de_cerr ?w"
    by (rule demo_loop [OF _ _ assms(4), where h = h and wt = ?wt]) simp_all
  then obtain w' where "readLoop MyEventHandler_handle reads (?m, ?w) =
      ((?m, w'), if 5 \<le> length reads then Returns () else Blocks)"
    "de_cout w' = concat (map (event_text \<circ> hd \<circ> rd_events) (take 5 reads))" "de_cerr w' = ''''" by auto
  moreover have "argv \<noteq> []" using assms(1) by auto
  ultimately show ?thesis
    using assms(1-3)
    by (simp add: demo_main_def new_InotifyManager_def addWatch_def new_InotifyWatch_def addEventHandler_def
        startWatching_def run_thread_def Let_def)
qed

end
