(* ===== verification/Spec2Isabelle.thy ===== *)
theory Spec2Isabelle
  imports Raid_Limits Raid_Degraded Raid_Concurrency Server_Descriptors Nbd_Linear Nbd_Threads Wpq_Monitor Side_Programs
begin

text \<open>
  LDS (\<^verbatim>\<open>src/\<close>) is a network block server in C++: clients send read and write requests over TCP, or the
  Linux kernel does over NBD; a reactor thread receives them and a pool of workers serves them from
  a striped and mirrored array of minions kept in memory or in files. These theories model the
  server from its command line down to the bytes on the sockets and in the files.

  \<^bold>\<open>How the parts fit together.\<close> \<^verbatim>\<open>main\<close> (\<^verbatim>\<open>app/LDS.cpp\<close>) makes the storage and a driver and hands them to
  \<^verbatim>\<open>RunServer\<close>, which makes the pool, the reactor, the mediator and the plugin loader and runs the
  reactor. For every ready descriptor the reactor calls \<^verbatim>\<open>InputMediator::Notify\<close>, which accepts a
  client or has the driver receive one request and queues a command. A worker takes the command and
  runs the handler of its type: storage first, then the driver's reply.

  \<^bold>\<open>The theories\<close>, in the order of their dependence, with the sources they translate.

  \<^item> \<open>Lds_Prelude\<close>: machine types, \<open>outcome\<close> (a call returns, throws, waits for ever, ends the process or
    is undefined), sequencing of statements on a state, vectors as byte lists, decimal text.
    \<open>Ordered_Map\<close>: \<^verbatim>\<open>std::map\<close> and \<^verbatim>\<open>std::set\<close>, with the locale of their laws. \<open>Byte_Order\<close>: \<^verbatim>\<open>htobe64\<close> and
    its relatives with their round trips.
  \<^item> \<open>Driver_Data\<close>: the request (\<^verbatim>\<open>nbd/include/DriverData.hpp\<close>).
  \<^item> \<open>Storage_Minion\<close>: the memory and the file minion, with the 64-bit bounds check and the answers of
    \<^verbatim>\<open>pread\<close> and \<^verbatim>\<open>pwrite\<close>; the locale \<open>storage_minion\<close> is the contract the array relies on.
    \<open>Metadata_Store\<close>: both metadata stores with the byte format of the file, torn saves included.
  \<^item> \<open>Raid_Storage\<close>: \<^verbatim>\<open>RAIDStorage\<close>, its address arithmetic and its read and write loops.
    \<open>Raid_Correctness\<close>: the invariant \<open>raid_ok\<close>, the flat vector \<open>raid_flat\<close> the primaries form, the lemmas
    of the loops. \<open>Raid_Properties\<close>: reads and writes refine operations on that vector, failover, runs.
    \<open>Raid_Limits\<close>: where the array is undefined. \<open>Raid_Degraded\<close>: disks that take no writes any more.
    \<open>Raid_Concurrency\<close>: two requests interleaved at the minion writes. \<open>Raid_Threads\<close>: the handlers as
    threads that do one operation on a minion or on the metadata at a time; \<open>Raid_Linear\<close>: any number
    of them at once, as long as no request in flight overlaps one that writes: linearizability at the
    end of a request, and wait-freedom.
  \<^item> \<open>Local_Storage\<close>: the one-vector storage, the virtual dispatch of \<^verbatim>\<open>IStorage\<close>, and a locale both
    storages interpret. \<open>Storage_Factory\<close>: the factory, and restarting on the files left behind.
    \<open>Abstract_Disk\<close>: the disk a storage promises to be.
  \<^item> \<open>Socket_Stream\<close>: stream sockets as scripts of segments and answers, the \<^verbatim>\<open>ReadAll\<close> and \<^verbatim>\<open>WriteAll\<close>
    loops, locales for readers and writers. \<open>Tcp_Driver\<close>, \<open>Tcp_Protocol\<close>, \<open>Tcp_State\<close>: \<^verbatim>\<open>TCPDriverComm\<close>, its
    wire format, its clients and its saved allocations. \<open>Nbd_Driver\<close>, \<open>Nbd_Protocol\<close>: \<^verbatim>\<open>NBDDriverComm\<close>;
    \<open>Nbd_Threads\<close>: its listener, its signal thread and its destructor interleaved.
  \<^item> \<open>Command_Queue\<close> and \<open>Thread_Pool\<close>: commands, \<^verbatim>\<open>WPQ\<close> and \<^verbatim>\<open>ThreadPool\<close>, the workers as a step relation.
    \<open>Wpq_Monitor\<close>: \<^verbatim>\<open>WPQ\<close> with its mutex and its condition variable, which is that queue to every
    thread and loses no wake-up. \<open>Reactor\<close>: \<^verbatim>\<open>Reactor\<close>.
  \<^item> \<open>Input_Mediator\<close>: the driver interface and \<^verbatim>\<open>InputMediator\<close>. \<open>Server_Runs\<close>: the running server, a
    labelled step relation over reactor, driver, storage and pool. \<open>Driver_Contract\<close>: what the mediator
    relies on in \<^verbatim>\<open>IDriverComm\<close>, as a locale, and that a server over such a driver serves the disk.
    \<open>Server_Refinement\<close> and \<open>Nbd_Server\<close> interpret it on the two drivers; with \<open>Server_Clients\<close> and
    \<open>Server_Schedules\<close> they say what holds in every run, and show three runs that go wrong;
    \<open>Server_Descriptors\<close> has a fourth, in which a reply reaches the next client.
    \<open>Server_Threads\<close>: the server with its handlers taken apart, over the threads of \<open>Raid_Linear\<close>;
    \<open>Server_Liveness\<close>: its workers come to rest, and then every request has been answered once.
  \<^item> \<open>Logger\<close>, \<open>Observer\<close>, \<open>Singleton\<close>, \<open>Inotify_Watch\<close>, \<open>Plugin_Loader\<close>, \<open>Watchdog_Monitor\<close>: the
    log, the observer and singleton patterns with the factory, the inotify wrapper in \<^verbatim>\<open>external/\<close>, the
    plugin loader and the monitor of the parent process.
  \<^item> \<open>Command_Line\<close>, \<open>Lds_Main\<close>, \<open>Lds_Runs\<close>: \<^verbatim>\<open>main\<close> from the arguments to the running reactor and from its
    end on, and what holds for the program as a whole. \<open>Nbd_Linear\<close>: the block device with its handlers
    taken apart, from the command line to the last answer. \<open>Side_Programs\<close>: the older minion, the sample
    plugin and the demo of the inotify wrapper, which the server does not link. This theory: reading
    back what was written.

  \<^bold>\<open>What the theorems show.\<close> The main line is one refinement: the write and read loops of the array
  implement a flat vector (\<open>raid_write_refines_flat\<close>, \<open>raid_read_refines_flat\<close>), so a storage is a disk
  (\<open>Abstract_Disk\<close>); whatever the reactor and the workers do in whatever order, the storage holds what
  the disk holds after the requests served so far and every connection has been sent exactly the
  disk's replies to the requests that name its descriptor (\<open>server_refines_disk\<close>), also when the handlers are interleaved at every operation on
  a minion, as long as no request overlaps a write in flight (\<open>raid_linearizable\<close>,
  \<open>server_linearizable\<close>), and every request is answered in the end (\<open>server_answers_everything\<close>);
  requests and replies survive any segmentation (\<open>tcp_requests_in_order\<close>, \<open>tcp_replies_in_order\<close>,
  \<open>nbd_requests_in_order\<close>); and the command line leads to such a server, under TCP
  (\<open>command_line_serves_disk\<close>) and behind a block device (\<open>nbd_device_serves_disk\<close>, and with the
  handlers interleaved, to the last answer of every run, \<open>nbd_device_answers_everything\<close>), none of
  whose workers is ever stuck (\<open>workers_never_stuck\<close>). Beside it stand the invariants of the reactor's
  descriptors and of the queue, failover and restart, the termination of \<^verbatim>\<open>Stop\<close>, and the behaviours
  that are not what the code or its documentation intends, each proved: a failed accept closes the
  server, a slow client holds it, replies interleave or reach the client that was given the
  descriptor next, mirrors diverge, a write that failed is read
  back, the shutdown never ends.

  \<^bold>\<open>How the world is modelled.\<close> What the kernel answers is data: the segments a socket delivers, what
  each \<^verbatim>\<open>write\<close>, \<^verbatim>\<open>pread\<close>, \<^verbatim>\<open>epoll_wait\<close>, \<^verbatim>\<open>accept\<close>, \<^verbatim>\<open>dlopen\<close> or \<^verbatim>\<open>kill\<close> returns. A script that is used up
  means waiting (\<open>Blocks\<close>), so no bound cuts a behaviour off; the loops over sockets recur on what
  is left to transfer and on the script, and carry their termination proofs. No fuel is used. In runs
  of \<open>Server_Runs\<close> a handler is one step and the peers go on taking what they are sent; the steps
  inside a handler are the subject of \<open>Raid_Linear\<close>, \<open>Server_Threads\<close> and \<open>Raid_Concurrency\<close> (storage)
  and of \<open>replies_interleave\<close> (writes to a socket), and what becomes of a reply to a peer that is gone of \<open>tcp_reply_prefix\<close>.
  A \<^verbatim>\<open>size_t\<close> is a 64-bit word and sums wrap; ranges are assumed to end below \<open>2 ^ 64\<close> (\<open>range_ok\<close>)
  where the code is only right for those, and \<open>Raid_Limits\<close> shows what happens otherwise.

  \<^bold>\<open>Not modelled.\<close> The tests, the CMake files, \<^verbatim>\<open>client.py\<close> and the copies of headers in \<^verbatim>\<open>interfaces/\<close>.
  The lines the storage, the drivers and the factory write to the log are left out of their models
  (\<open>Logger\<close> says what becomes of a line). Memory that cannot be allocated. The kernel's side of NBD:
  what an ioctl call does to the device. Data races on the dispatcher's vector and on the
  logger's level, which have no defined behaviour in C++: one operation is one step. The code inside
  plugins. The destruction of static objects at exit.
\<close>

section \<open>What stays on the disk\<close>

lemma disk_write_keeps:
  assumes "m_buffer q = [] \<or> unat (m_offset q) + length (m_buffer q) \<le> p \<or> p + n \<le> unat (m_offset q)"
    and "p + n \<le> length (dk_bytes dk)"
  shows "length (dk_bytes (fst (disk_write dk q))) = length (dk_bytes dk)"
    and "subvec (dk_bytes (fst (disk_write dk q))) p n = subvec (dk_bytes dk) p n"
proof -
  let ?c = "take (length (dk_bytes dk) - unat (m_offset q)) (m_buffer q)"
  have "length (dk_bytes (fst (disk_write dk q))) = length (dk_bytes dk) \<and>
    subvec (dk_bytes (fst (disk_write dk q))) p n = subvec (dk_bytes dk) p n"
  proof (cases "?c = []")
    case True
    then show ?thesis unfolding disk_write_bytes by (simp only: copy_into_Nil simp_thms)
  next
    case False
    then have "unat (m_offset q) + length ?c \<le> length (dk_bytes dk)" "m_buffer q \<noteq> []" by auto
    moreover have "length ?c \<le> length (m_buffer q)" by simp
    ultimately show ?thesis
      unfolding disk_write_bytes using assms
      by (intro conjI length_copy_into subvec_copy_into_other) linarith+
  qed
  then show "length (dk_bytes (fst (disk_write dk q))) = length (dk_bytes dk)"
    and "subvec (dk_bytes (fst (disk_write dk q))) p n = subvec (dk_bytes dk) p n" by simp_all
qed

text \<open>A range no served write touches.\<close>

definition leaves_range :: "nat \<Rightarrow> nat \<Rightarrow> event list \<Rightarrow> bool" where
  "leaves_range p n evs \<longleftrightarrow> (\<forall>x. Served x \<in> set evs \<and> m_type x = WRITE \<longrightarrow>
     m_buffer x = [] \<or> unat (m_offset x) + length (m_buffer x) \<le> p \<or> p + n \<le> unat (m_offset x))"

lemma promise_step_disk:
  "fst (promise_step (dk, outs) ev) = (case ev of Served q \<Rightarrow> fst (disk_serve dk q) | _ \<Rightarrow> dk)"
  by (cases ev) (auto split: option.splits prod.splits)

lemma promised_keeps_range:
  assumes "leaves_range p n evs" and "p + n \<le> length (dk_bytes (fst pr))"
  shows "length (dk_bytes (fst (promised pr evs))) = length (dk_bytes (fst pr)) \<and>
    subvec (dk_bytes (fst (promised pr evs))) p n = subvec (dk_bytes (fst pr)) p n"
  using assms(1)
proof (induction evs rule: rev_induct)
  case Nil
  then show ?case by simp
next
  case (snoc ev evs)
  have IH: "length (dk_bytes (fst (promised pr evs))) = length (dk_bytes (fst pr))"
    "subvec (dk_bytes (fst (promised pr evs))) p n = subvec (dk_bytes (fst pr)) p n"
    using snoc by (auto simp add: leaves_range_def)
  obtain dk outs where pr1: "promised pr evs = (dk, outs)" by fastforce
  show ?case
  proof (cases "\<exists>x. ev = Served x \<and> m_type x = WRITE")
    case True
    then obtain x where x: "ev = Served x" "m_type x = WRITE" by blast
    have range: "m_buffer x = [] \<or> unat (m_offset x) + length (m_buffer x) \<le> p \<or> p + n \<le> unat (m_offset x)"
      using snoc.prems x unfolding leaves_range_def by (metis in_set_conv_decomp)
    have fits: "p + n \<le> length (dk_bytes dk)" using assms(2) IH(1) pr1 by simp
    show ?thesis
      using disk_write_keeps [OF range fits] IH pr1 x
      by (simp add: promise_step_disk disk_serve_def)
  next
    case False
    then have "fst (promise_step (dk, outs) ev) = dk"
      unfolding promise_step_disk by (cases ev) (auto simp add: disk_serve_other)
    then show ?thesis using IH pr1 by simp
  qed
qed

lemma promised_append: "promised pr (as @ bs) = promised (promised pr as) bs"
  by (simp add: promised_def)

lemma promised_length: "length (dk_bytes (fst (promised pr evs))) = length (dk_bytes (fst pr))"
proof (induction evs rule: rev_induct)
  case (snoc ev evs)
  obtain dk outs where pr1: "promised pr evs = (dk, outs)" by fastforce
  show ?case using snoc pr1 disk_serve_length by (simp add: promise_step_disk split: event.splits)
qed simp

section \<open>Properties\<close>



text \<open>Every request taken off a connection is served once: in every run of a started server the
  requests received are those served together with those waiting or being executed, each as
  often as it came; once no command waits and no worker is busy, all of them have been served.\<close>

theorem server_serves_each_request_once:
  assumes "RunServer hardware ra drv st = Returns sv" and "server_run sv evs sv'"
  shows "image_mset FunctionCommand (mset (received_in evs)) =
      in_hand (sv_pool sv') + image_mset FunctionCommand (mset (served_in evs)) \<and>
    (in_hand (sv_pool sv') = {#} \<longrightarrow> mset (served_in evs) = mset (received_in evs))"
proof -
  have "accounted sv' evs" by (rule run_accounted [OF assms])
  moreover have "inj (image_mset (FunctionCommand :: DriverData \<Rightarrow> DriverData command))"
    by (intro multiset.inj_map) (simp add: inj_def FunctionCommand_def)
  ultimately show ?thesis unfolding accounted_def by (metis add_0 injD)
qed

theorem server_serves_each_request_once_witness:
  "\<exists>sv. server_run demo_server [Connected 7, Received demo_put, Received demo_get, Internal, Internal,
      Served demo_get, Served demo_put] sv \<and> in_hand (sv_pool sv) = {#}"
proof -
  obtain sv where run: "server_run demo_server [Connected 7, Received demo_put, Received demo_get, Internal, Internal,
      Served demo_get, Served demo_put] sv" using demo_runs(2) [OF demo_wire_requests demo_range] by blast
  then show ?thesis
    using server_serves_each_request_once [OF demo_started run] by (simp add: add_mset_commute) blast
qed


definition demo_peek :: DriverData where
  "demo_peek = (new_DriverData READ 3 5 2 SUCCESS)\<lparr>m_source_fd := 7\<rparr>"


end
